(* ===== verification/Kiban_Prelude.thy ===== *)
theory Kiban_Prelude
  imports Main
begin

text \<open>
  Shared ground of the development: Go's \<open>(value, error)\<close> returns as a sum type with a
  bind and a traversal, Go maps as association lists with last-write-wins construction, the
  string helpers of package \<open>strings\<close> the sources call, and the JSON values that
  \<open>encoding/json\<close> hands to the sources. The \<open>named_theorems\<close> collections
  below are filled by the component theories and carry their proofs.
\<close>

named_theorems go_simps \<open>unfolding rules for the Go control-flow combinators\<close>
named_theorems table_simps \<open>effect of one statement on a database table\<close>

section \<open>Results\<close>

text \<open>\<open>Inl e\<close> is a non-nil error, \<open>Inr v\<close> a value with a nil error.\<close>

type_synonym ('e, 'a) result = "'e + 'a"

definition rbind :: "('e, 'a) result \<Rightarrow> ('a \<Rightarrow> ('e, 'b) result) \<Rightarrow> ('e, 'b) result" where
  "rbind r f = (case r of Inl e \<Rightarrow> Inl e | Inr v \<Rightarrow> f v)"

lemma rbind_simps [simp, go_simps]:
  "rbind (Inl e) f = Inl e"
  "rbind (Inr v) f = f v"
  by (simp_all add: rbind_def)

lemma rbind_Inr_iff [go_simps]: "rbind r f = Inr y \<longleftrightarrow> (\<exists>x. r = Inr x \<and> f x = Inr y)"
  by (cases r) auto

lemma rbind_cong [fundef_cong]:
  "r = r' \<Longrightarrow> (\<And>v. r' = Inr v \<Longrightarrow> f v = f' v) \<Longrightarrow> rbind r f = rbind r' f'"
  by (cases r') auto

fun traverse :: "('a \<Rightarrow> ('e, 'b) result) \<Rightarrow> 'a list \<Rightarrow> ('e, 'b list) result" where
  "traverse f [] = Inr []"
| "traverse f (x # xs) = rbind (f x) (\<lambda>y. rbind (traverse f xs) (\<lambda>ys. Inr (y # ys)))"

lemma traverse_cong [fundef_cong]:
  "xs = ys \<Longrightarrow> (\<And>x. x \<in> set ys \<Longrightarrow> f x = g x) \<Longrightarrow> traverse f xs = traverse g ys"
  by (induction ys arbitrary: xs) auto

lemma traverse_length: "traverse f xs = Inr ys \<Longrightarrow> length ys = length xs"
  by (induction xs arbitrary: ys) (auto simp: rbind_Inr_iff)

lemma traverse_set: "traverse f xs = Inr ys \<Longrightarrow> y \<in> set ys \<Longrightarrow> \<exists>x \<in> set xs. f x = Inr y"
  by (induction xs arbitrary: ys) (auto simp: rbind_Inr_iff)

lemma traverse_Inr_all: "traverse f xs = Inr ys \<Longrightarrow> x \<in> set xs \<Longrightarrow> \<exists>y \<in> set ys. f x = Inr y"
  by (induction xs arbitrary: ys) (auto simp: rbind_Inr_iff)

text \<open>A loop whose body may stop with an error and yields nothing else.\<close>

fun check_each :: "('a \<Rightarrow> ('e, unit) result) \<Rightarrow> 'a list \<Rightarrow> ('e, unit) result" where
  "check_each f [] = Inr ()"
| "check_each f (x # xs) = rbind (f x) (\<lambda>_. check_each f xs)"

lemma check_each_cong [fundef_cong]:
  "xs = ys \<Longrightarrow> (\<And>x. x \<in> set ys \<Longrightarrow> f x = g x) \<Longrightarrow> check_each f xs = check_each g ys"
  by (induction ys arbitrary: xs) auto

lemma check_each_ok_iff: "check_each f xs = Inr () \<longleftrightarrow> (\<forall>x \<in> set xs. f x = Inr ())"
  by (induction xs) (auto simp: rbind_Inr_iff)

lemma check_each_Inr [simp]: "check_each f xs = Inr u \<longleftrightarrow> (\<forall>x \<in> set xs. f x = Inr ())"
  by (cases u) (simp add: check_each_ok_iff)

section \<open>Go maps\<close>

text \<open>
  A Go map is an association list with distinct keys. \<open>go_map\<close> builds it from the
  assignments in program order: the last assignment to a key wins. Go's iteration order is
  unspecified; the list order stands for one such order.
\<close>

type_synonym ('k, 'v) gomap = "('k \<times> 'v) list"

fun go_map :: "('k \<times> 'v) list \<Rightarrow> ('k, 'v) gomap" where
  "go_map [] = []"
| "go_map ((k, v) # kvs) = (if k \<in> fst ` set kvs then go_map kvs else (k, v) # go_map kvs)"

lemma go_map_subset: "set (go_map kvs) \<subseteq> set kvs"
  by (induction kvs rule: go_map.induct) auto

lemma go_map_keys: "fst ` set (go_map kvs) = fst ` set kvs"
  by (induction kvs rule: go_map.induct) auto

lemma go_map_distinct: "distinct (map fst (go_map kvs))"
proof (induction kvs rule: go_map.induct)
  case (2 k v kvs)
  then show ?case using go_map_keys [of kvs] by auto
qed simp

lemma map_of_go_map: "map_of (go_map kvs) = map_of (rev kvs)"
proof (induction kvs rule: go_map.induct)
  case (2 k v kvs)
  have "map_of (rev kvs) k = None \<longleftrightarrow> k \<notin> fst ` set kvs"
    by (simp add: map_of_eq_None_iff)
  with 2 show ?case
    by (auto simp: map_add_def fun_eq_iff split: option.splits)
qed simp

lemma map_of_SomeI: "distinct (map fst xs) \<Longrightarrow> (k, v) \<in> set xs \<Longrightarrow> map_of xs k = Some v"
  by simp

section \<open>Strings\<close>

definition hasPrefix :: "string \<Rightarrow> string \<Rightarrow> bool" where
  "hasPrefix s p \<longleftrightarrow> take (length p) s = p"

definition trimPrefix :: "string \<Rightarrow> string \<Rightarrow> string" where
  "trimPrefix s p = (if hasPrefix s p then drop (length p) s else s)"

lemma hasPrefix_append [simp]: "hasPrefix (p @ s) p"
  by (simp add: hasPrefix_def)

lemma trimPrefix_append [simp]: "trimPrefix (p @ s) p = s"
  by (simp add: trimPrefix_def)

lemma trimPrefix_changed: "p \<noteq> [] \<Longrightarrow> trimPrefix s p \<noteq> s \<Longrightarrow> s = p @ trimPrefix s p"
  by (auto simp: trimPrefix_def hasPrefix_def split: if_splits) (metis append_take_drop_id)

text \<open>The NUL byte, which separates the parts of a memo key and which no PostgreSQL
  \<open>text\<close> value contains.\<close>

definition nul :: char where
  "nul = CHR 0x00"

definition nul_free :: "string \<Rightarrow> bool" where
  "nul_free s \<longleftrightarrow> nul \<notin> set s"

lemma append_nul_inject:
  assumes "nul_free a" and "nul_free a'" and "a @ nul # b = a' @ nul # b'"
  shows "a = a' \<and> b = b'"
  using assms
proof (induction a arbitrary: a')
  case Nil
  then show ?case by (cases a') (auto simp: nul_free_def)
next
  case (Cons x xs)
  then obtain y ys where a': "a' = y # ys"
    by (cases a') (auto simp: nul_free_def)
  with Cons show ?case by (auto simp: nul_free_def)
qed

text \<open>ASCII digits.\<close>

definition digitOf :: "char \<Rightarrow> int" where
  "digitOf c = of_char c - 48"

definition isDigit :: "char \<Rightarrow> bool" where
  "isDigit c \<longleftrightarrow> 48 \<le> (of_char c :: int) \<and> (of_char c :: int) \<le> 57"

text \<open>The decimal numeral of a non-negative integer, as \<open>strconv\<close> and \<open>encoding/json\<close> print it.\<close>

fun itoa :: "nat \<Rightarrow> string" where
  "itoa n = (if n < 10 then [char_of (48 + n)] else itoa (n div 10) @ [char_of (48 + n mod 10)])"

declare itoa.simps [simp del]

section \<open>JSON values\<close>

text \<open>What \<open>encoding/json\<close> decodes: the syntax tree of a document. An object keeps
  its members in document order, duplicates included.\<close>

datatype json =
    JNull
  | JBool bool
  | JNum string
  | JStr string
  | JArr "json list"
  | JObj "(string \<times> json) list"

lemma json_member_size [termination_simp]:
  "(k, v) \<in> set kvs \<Longrightarrow> size v < Suc (size_list (size_prod (\<lambda>_. 0) size) kvs)"
proof (induction kvs)
  case (Cons kv kvs)
  then show ?case by (cases kv) auto
qed simp

end
