(* ===== verification/Modulekit.thy ===== *)
theory Modulekit
  imports Kiban_Prelude
begin

text \<open>
  The request helpers that modules share (\<open>modulekit/helpers.go\<close>): the bearer header and
  pagination with Go's 64-bit integers. The paging contract is a locale that the list operations of
  the stores interpret; its lemmas show that the pages of a list are a partition of its rows.
\<close>

section \<open>Request helpers\<close>

definition lowerChar :: "char \<Rightarrow> char" where
  "lowerChar c = (if 65 \<le> (of_char c :: nat) \<and> (of_char c :: nat) \<le> 90 then char_of ((of_char c :: nat) + 32) else c)"

text \<open>\<open>strings.EqualFold\<close> against an ASCII word of the same length. The letters of the word
  contain neither \<open>k\<close> nor \<open>s\<close>, whose non-ASCII folds are longer than one byte.\<close>

definition BearerFromHeader :: "string \<Rightarrow> string" where
  "BearerFromHeader v =
     (if length ''Bearer '' < length v \<and> map lowerChar (take (length ''Bearer '') v) = ''bearer ''
      then drop (length ''Bearer '') v else [])"

section \<open>Pagination\<close>

text \<open>Go's \<open>int\<close> on 64-bit targets: arithmetic wraps in two's complement.\<close>

definition wrap64 :: "int \<Rightarrow> int" where
  "wrap64 x = (x + 2 ^ 63) mod 2 ^ 64 - 2 ^ 63"

definition ClampPage :: "int \<Rightarrow> int \<Rightarrow> int \<times> int" where
  "ClampPage page pageSize =
     (let page = (if page < 1 then 1 else page);
          pageSize = (if pageSize < 1 then 25 else pageSize);
          pageSize = (if 100 < pageSize then 100 else pageSize)
      in (page, pageSize))"

text \<open>\<open>LIMIT pageSize OFFSET (page-1)*pageSize\<close> on the ordered rows of a query; PostgreSQL
  refuses a negative offset.\<close>

definition limitOffset :: "'a list \<Rightarrow> int \<Rightarrow> int \<Rightarrow> 'a list option" where
  "limitOffset rows page pageSize =
     (let offset = wrap64 (wrap64 (page - 1) * pageSize) in
      if offset < 0 then None else Some (take (nat pageSize) (drop (nat offset) rows)))"

text \<open>\<open>strconv.Atoi\<close> with its error dropped: 0 for a syntax error, the nearest
  representable value for a number out of range. The scan of the digits stops at the first that
  overflows 64 bits, whatever follows.\<close>

definition maxUint64 :: int where
  "maxUint64 = 2 ^ 64 - 1"

fun scanUint :: "int \<Rightarrow> string \<Rightarrow> int option" where
  "scanUint n [] = Some n"
| "scanUint n (c # cs) =
     (if \<not> isDigit c then None
      else if maxUint64 div 10 + 1 \<le> n then Some maxUint64
      else if maxUint64 < 10 * n + digitOf c then Some maxUint64
      else scanUint (10 * n + digitOf c) cs)"

definition Atoi :: "string \<Rightarrow> int" where
  "Atoi s =
     (let (neg, digits) = (case s of [] \<Rightarrow> (False, []) | c # cs \<Rightarrow>
        if c = CHR ''-'' then (True, cs) else if c = CHR ''+'' then (False, cs) else (False, s)) in
      if digits = [] then 0
      else case scanUint 0 digits of
        None \<Rightarrow> 0
      | Some un \<Rightarrow> if neg then (if 2 ^ 63 < un then - (2 ^ 63) else - un)
                   else (if 2 ^ 63 \<le> un then 2 ^ 63 - 1 else un))"

definition PageParams :: "string \<Rightarrow> string \<Rightarrow> int \<times> int" where
  "PageParams page pageSize = (Atoi page, Atoi pageSize)"

record 'a Page =
  pgItems :: "'a list"
  pgTotal :: int
  pgPage :: int
  pgPageSize :: int
  pgTotalPages :: int

text \<open>\<open>totalRows\<close> is a row count, so the division has non-negative operands.\<close>

definition WritePage :: "'a list \<Rightarrow> int \<Rightarrow> int \<Rightarrow> int \<Rightarrow> ('a \<Rightarrow> 'w) \<Rightarrow> 'w Page" where
  "WritePage items totalRows page pageSize toWire =
     (let (page, pageSize) = ClampPage page pageSize;
          totalPages = wrap64 (wrap64 (totalRows + pageSize) - 1) div pageSize;
          totalPages = (if totalPages < 1 then 1 else totalPages)
      in \<lparr>pgItems = map toWire items, pgTotal = totalRows, pgPage = page, pgPageSize = pageSize,
          pgTotalPages = totalPages\<rparr>)"

lemma wrap64_id: "- (2 ^ 63) \<le> x \<Longrightarrow> x < 2 ^ 63 \<Longrightarrow> wrap64 x = x"
  by (simp add: wrap64_def)

lemma ClampPage_range:
  "ClampPage page pageSize = (p, s) \<Longrightarrow> 1 \<le> p \<and> 1 \<le> s \<and> s \<le> 100"
  by (auto simp: ClampPage_def Let_def split: if_splits)

lemma ClampPage_idem: "ClampPage page pageSize = (p, s) \<Longrightarrow> ClampPage p s = (p, s)"
  by (auto simp: ClampPage_def Let_def split: if_splits)

text \<open>Below this page number the offset cannot wrap.\<close>

definition maxPage :: int where
  "maxPage = 92233720368547758"

lemma limitOffset_exact:
  assumes "1 \<le> p" and "p \<le> maxPage" and "1 \<le> s" and "s \<le> 100"
  shows "limitOffset rows p s = Some (take (nat s) (drop (nat (p - 1) * nat s) rows))"
proof -
  have "(p - 1) * s \<le> (maxPage - 1) * 100"
    using assms by (intro mult_mono) (auto simp: maxPage_def)
  then have bound: "(p - 1) * s < 2 ^ 63" by (simp add: maxPage_def)
  have pos: "0 \<le> (p - 1) * s" using assms by simp
  have "wrap64 (p - 1) = p - 1" using assms by (intro wrap64_id) (auto simp: maxPage_def)
  moreover have "wrap64 ((p - 1) * s) = (p - 1) * s" using bound pos by (intro wrap64_id) auto
  moreover have "nat ((p - 1) * s) = nat (p - 1) * nat s" using assms by (simp add: nat_mult_distrib)
  ultimately show ?thesis using pos unfolding limitOffset_def Let_def by (simp only: not_less [symmetric] if_False)
qed

lemma concat_pages:
  "0 < n \<Longrightarrow> concat (map (\<lambda>k. take n (drop (k * n) xs)) [0..<m]) = take (m * n) xs"
proof (induction m)
  case (Suc m)
  then show ?case by (simp add: take_add add.commute [of n])
qed simp

definition itemsOf :: "('e, 'a list \<times> int) result \<Rightarrow> 'a list" where
  "itemsOf r = (case r of Inl _ \<Rightarrow> [] | Inr (items, _) \<Rightarrow> items)"

text \<open>The paging contract: a list operation answers the page of one fixed list of rows, with its
  length as the total.\<close>

locale paged =
  fixes list_page :: "int \<Rightarrow> int \<Rightarrow> ('e, 'a list \<times> int) result" and dbErr :: 'e and rows :: "'a list"
  assumes list_page: "list_page page pageSize =
    (case ClampPage page pageSize of (p, s) \<Rightarrow>
       (case limitOffset rows p s of None \<Rightarrow> Inl dbErr | Some items \<Rightarrow> Inr (items, int (length rows))))"
begin

lemma page_items:
  assumes "1 \<le> p" and "p \<le> maxPage" and "1 \<le> s" and "s \<le> 100"
  shows "list_page p s = Inr (take (nat s) (drop (nat (p - 1) * nat s) rows), int (length rows))"
  using assms limitOffset_exact [OF assms, of rows]
  by (simp add: list_page ClampPage_def)

lemma page_size:
  "list_page page pageSize = Inr (items, totalRows) \<Longrightarrow> length items \<le> 100 \<and> totalRows = int (length rows)"
  using ClampPage_range [of page pageSize]
  by (auto simp: list_page limitOffset_def Let_def split: prod.splits if_splits)

lemma pages_cover:
  assumes s: "1 \<le> s" "s \<le> 100" and m: "int m \<le> maxPage" and enough: "length rows \<le> m * nat s"
  shows "concat (map (\<lambda>k. itemsOf (list_page (int k + 1) s)) [0..<m]) = rows"
proof -
  have "itemsOf (list_page (int k + 1) s) = take (nat s) (drop (k * nat s) rows)" if "k < m" for k
    using that page_items [of "int k + 1" s] s m by (simp add: itemsOf_def)
  then have eq: "map (\<lambda>k. itemsOf (list_page (int k + 1) s)) [0..<m] =
      map (\<lambda>k. take (nat s) (drop (k * nat s) rows)) [0..<m]"
    by simp
  show ?thesis unfolding eq using s enough by (simp add: concat_pages)
qed

end

lemma totalPages_enough:
  assumes "0 \<le> totalRows" and "totalRows < 2 ^ 62" and "1 \<le> s" and "s \<le> 100"
  shows "totalRows \<le> pgTotalPages (WritePage items totalRows p s f) * s"
proof -
  have ws: "snd (ClampPage p s) = s" using assms by (simp add: ClampPage_def Let_def)
  have "wrap64 (totalRows + s) = totalRows + s" "wrap64 (totalRows + s - 1) = totalRows + s - 1"
    using assms by (auto intro!: wrap64_id)
  moreover have "totalRows \<le> (totalRows + s - 1) div s * s"
  proof -
    have "totalRows + s - 1 = (totalRows + s - 1) div s * s + (totalRows + s - 1) mod s" by simp
    moreover have "(totalRows + s - 1) mod s < s" using assms by simp
    ultimately show ?thesis by linarith
  qed
  moreover have "totalRows \<le> s" if "(totalRows + s - 1) div s < 1"
    using that assms pos_imp_zdiv_pos_iff [of s "totalRows + s - 1"] by auto
  ultimately show ?thesis using ws assms
    by (auto simp: WritePage_def Let_def split: prod.splits)
qed

lemma totalPages_few:
  assumes "0 \<le> totalRows" and "totalRows < 2 ^ 56" and "1 \<le> s" and "s \<le> 100"
  shows "1 \<le> pgTotalPages (WritePage items totalRows p s f)" "pgTotalPages (WritePage items totalRows p s f) \<le> maxPage"
proof -
  have ws: "snd (ClampPage p s) = s" using assms by (simp add: ClampPage_def Let_def)
  have wrap: "wrap64 (totalRows + s) = totalRows + s" "wrap64 (totalRows + s - 1) = totalRows + s - 1"
    using assms by (auto intro!: wrap64_id)
  have "(totalRows + s - 1) div s \<le> (totalRows + s - 1) div 1"
    using assms by (intro zdiv_mono2) auto
  then have "(totalRows + s - 1) div s \<le> maxPage" using assms by (simp add: maxPage_def)
  then show "1 \<le> pgTotalPages (WritePage items totalRows p s f)" "pgTotalPages (WritePage items totalRows p s f) \<le> maxPage"
    using ws wrap by (auto simp: WritePage_def Let_def maxPage_def split: prod.splits)
qed

section \<open>Bearer tokens\<close>

definition containsStr :: "string \<Rightarrow> string \<Rightarrow> bool" where
  "containsStr s sub \<longleftrightarrow> list_ex (\<lambda>i. take (length sub) (drop i s) = sub) [0..<length s + 1]"

definition isUnknownKidError :: "string \<Rightarrow> bool" where
  "isUnknownKidError err \<longleftrightarrow> containsStr err ''failed to find key with key ID''"

text \<open>\<open>parse\<close> is the token library with issuer and audience: the subject of a token that
  validates against a key set, or the error's text. \<open>fetched\<close> is what a refetch of the key set
  yields. The result is the subject and the key set the verifier holds afterwards.\<close>

definition subjectOf :: "(string, string option) result \<Rightarrow> string option" where
  "subjectOf r = (case r of Inl _ \<Rightarrow> None | Inr sub \<Rightarrow>
     (case sub of None \<Rightarrow> None | Some s \<Rightarrow> if s = [] then None else Some s))"

definition Verify ::
  "('k \<Rightarrow> string \<Rightarrow> (string, string option) result) \<Rightarrow> 'k option \<Rightarrow> 'k \<Rightarrow> string \<Rightarrow> string option \<times> 'k" where
  "Verify parse fetched keys token =
     (if token = [] then (None, keys)
      else case parse keys token of
        Inl err \<Rightarrow>
          if isUnknownKidError err then
            (case fetched of
               None \<Rightarrow> (None, keys)
             | Some keys' \<Rightarrow> (subjectOf (parse keys' token), keys'))
          else (None, keys)
      | Inr sub \<Rightarrow> (subjectOf (Inr sub), keys))"

text \<open>An accepted token validates against the key set the verifier then holds, and names a
  non-empty subject.\<close>

lemma Verify_sound:
  assumes "Verify parse fetched keys token = (Some sub, keys')"
  shows "token \<noteq> []" "sub \<noteq> []" "parse keys' token = Inr (Some sub)" "keys' = keys \<or> fetched = Some keys'"
  using assms
  by (auto simp: Verify_def subjectOf_def split: if_splits sum.splits option.splits)

end
