(* ===== verification/Kiban_Systems.thy ===== *)
theory Kiban_Systems
  imports Kiban_Prelude
begin

text \<open>
  State machines shared by the stateful components: the states reachable by steps of a component,
  and the contract of an invariant that holds initially and that every step keeps. A component
  interprets the contract on its own step relation.
\<close>

inductive reaches :: "('s \<Rightarrow> 's \<Rightarrow> bool) \<Rightarrow> 's \<Rightarrow> 's \<Rightarrow> bool" for step :: "'s \<Rightarrow> 's \<Rightarrow> bool" where
  reaches_refl: "reaches step s s"
| reaches_step: "reaches step s t \<Longrightarrow> step t u \<Longrightarrow> reaches step s u"

lemma reaches_trans: "reaches step t u \<Longrightarrow> reaches step s t \<Longrightarrow> reaches step s u"
  by (induction rule: reaches.induct) (auto intro: reaches.intros)

lemma reaches_one: "step s t \<Longrightarrow> reaches step s t"
  by (blast intro: reaches.intros)

text \<open>A relation between earlier and later states that single steps from good states keep holds
  along every run.\<close>

lemma reaches_keeps:
  assumes "reaches step s t" and "P s"
    and "\<And>x y. P x \<Longrightarrow> step x y \<Longrightarrow> P y"
  shows "P t"
  using assms by (induction rule: reaches.induct) auto

locale invariant_system =
  fixes step :: "'s \<Rightarrow> 's \<Rightarrow> bool" and start :: 's and inv :: "'s \<Rightarrow> bool"
  assumes inv_start: "inv start"
    and inv_step: "inv s \<Longrightarrow> step s t \<Longrightarrow> inv t"
begin

lemma inv_reaches: "reaches step s t \<Longrightarrow> inv s \<Longrightarrow> inv t"
  by (induction rule: reaches.induct) (auto intro: inv_step)

lemma reachable_inv: "reaches step start t \<Longrightarrow> inv t"
  using inv_reaches inv_start by blast

lemma keeps_with_inv:
  assumes run: "reaches step s t" and "inv s" and "P s"
    and keep: "\<And>x y. inv x \<Longrightarrow> P x \<Longrightarrow> step x y \<Longrightarrow> P y"
  shows "P t"
proof -
  have "inv t \<and> P t"
    using run assms(2,3)
  proof (induction rule: reaches.induct)
    case (reaches_step s t u)
    then show ?case using inv_step keep by blast
  qed simp
  then show ?thesis ..
qed

end

end
