(* ===== verification/Timesheet_Store.thy ===== *)
theory Timesheet_Store
  imports Modulekit Kiban_Systems Complex_Main "HOL-Library.Multiset"
begin

text \<open>
  The data layer of the timesheet module (\<open>modules/timesheet/service/store*.go\<close>) over the
  tables and constraints of \<open>modules/timesheet/migrations\<close>: projects, configuration, entries,
  approver assignments and versioned submissions with their snapshots. Each operation that writes
  is one transaction; an error rolls it back. Values read before the transaction come from a
  separate, possibly older state. The lemmas give the effect of each operation on the tables.
\<close>

section \<open>Time and dates\<close>

text \<open>A \<open>time.Time\<close> in UTC is its number of seconds since 1970-01-01, a Thursday; a
  \<open>date\<close> column is a number of days. \<open>AddDate(0, 0, n)\<close> adds whole days.\<close>

definition dayOf :: "int \<Rightarrow> int" where
  "dayOf t = t div 86400"

definition weekday :: "int \<Rightarrow> int" where
  "weekday t = (dayOf t + 4) mod 7"

definition isoMonday :: "int \<Rightarrow> int" where
  "isoMonday t =
     (let wd = weekday t; wd = (if wd = 0 then 7 else wd); monday = t - (wd - 1) * 86400
      in dayOf monday * 86400)"

section \<open>Records and tables\<close>

type_synonym uuid = string

record Config =
  cfgCompanyID :: uuid
  EnforceBillableWithinActual :: bool
  AllowBillableAboveEightHours :: bool
  AllowedPreviousWeeks :: int
  AllowedFutureWeeks :: int

record Project =
  pID :: uuid
  pCompanyID :: uuid
  pCode :: string
  pName :: string
  pStatus :: string

record Entry =
  eID :: uuid
  eCompanyID :: uuid
  eMemberID :: uuid
  eProjectID :: uuid
  eDate :: int
  eReal :: rat
  eBillable :: rat
  eStatus :: string

record Assignment =
  aCompanyID :: uuid
  aMemberID :: uuid
  aMemberKcSub :: string
  aApproverMemberID :: uuid
  aApproverKcSub :: string
  aAssignedBy :: string

record Submission =
  sID :: uuid
  sCompanyID :: uuid
  sMemberID :: uuid
  sWeekStart :: int
  sVersion :: int
  sRootID :: uuid
  sSupersedes :: "uuid option"
  sCurrent :: bool
  sStatus :: string
  sApproverMemberID :: uuid
  sApproverKcSub :: string
  sSubmittedBy :: string
  sRejectReason :: "string option"
  sDecidedBy :: "string option"
  sIdemKey :: "string option"
  sIdemHash :: "string option"

record Snapshot =
  snSubmissionID :: uuid
  snProjectID :: uuid
  snCode :: string
  snName :: string
  snDate :: int
  snReal :: rat
  snBillable :: rat

text \<open>An audit row is reduced to its actor, action and subject id.\<close>

record tsDB =
  tsConfigs :: "Config list"
  tsProjects :: "Project list"
  tsEntries :: "Entry list"
  tsAssignments :: "Assignment list"
  tsSubmissions :: "Submission list"
  tsSnapshots :: "Snapshot list"
  tsAudit :: "(string \<times> string \<times> uuid) list"

definition emptyTimesheets :: tsDB where
  "emptyTimesheets = \<lparr>tsConfigs = [], tsProjects = [], tsEntries = [], tsAssignments = [],
     tsSubmissions = [], tsSnapshots = [], tsAudit = []\<rparr>"

text \<open>\<open>ErrDatabase\<close> is a statement the database refuses (a constraint, a value out of a
  column's range, a NUL byte in a text), which the code wraps and reports as an internal error.\<close>

datatype tsError =
    ValidationError string
  | ErrConflict
  | ErrProjectNotFound
  | ErrEntryNotFound
  | ErrSubmissionNotFound
  | ErrEntryNotDraft
  | ErrNoDraftEntries
  | ErrNoApproverAssigned
  | ErrNotAssignedApprover
  | ErrSubmissionSuperseded
  | ErrSubmissionNotSubmitted
  | ErrIdempotencyConflict
  | ErrDatabase

definition record_audit :: "string \<Rightarrow> string \<Rightarrow> uuid \<Rightarrow> tsDB \<Rightarrow> tsDB" where
  "record_audit actor action subject db = db\<lparr>tsAudit := tsAudit db @ [(actor, action, subject)]\<rparr>"

section \<open>Configuration\<close>

definition defaultConfig :: "uuid \<Rightarrow> Config" where
  "defaultConfig company = \<lparr>cfgCompanyID = company, EnforceBillableWithinActual = True,
     AllowBillableAboveEightHours = False, AllowedPreviousWeeks = 4, AllowedFutureWeeks = 1\<rparr>"

text \<open>A query outside a transaction reads some state, or fails (\<open>None\<close>). The reads of a
  configuration, a project and an assignment treat a failure like a missing row: the first answers
  the defaults, the others that there is none.\<close>

type_synonym tsRead = "tsDB option"

definition GetConfig :: "tsRead \<Rightarrow> uuid \<Rightarrow> Config" where
  "GetConfig rd company =
     (case rd of
        None \<Rightarrow> defaultConfig company
      | Some db \<Rightarrow>
          (case find (\<lambda>c. cfgCompanyID c = company) (tsConfigs db) of
             None \<Rightarrow> defaultConfig company | Some c \<Rightarrow> c))"

text \<open>The columns are 32-bit integers.\<close>

definition maxInt32 :: int where
  "maxInt32 = 2147483647"

definition UpdateConfig :: "string \<Rightarrow> uuid \<Rightarrow> Config \<Rightarrow> tsDB \<Rightarrow> (tsError, Config \<times> tsDB) result" where
  "UpdateConfig actor company c db =
     (if AllowedPreviousWeeks c < 0 then Inl (ValidationError ''allowedPreviousWeeks'')
      else if AllowedFutureWeeks c < 0 then Inl (ValidationError ''allowedFutureWeeks'')
      else if maxInt32 < AllowedPreviousWeeks c \<or> maxInt32 < AllowedFutureWeeks c then Inl ErrDatabase
      else
        let c' = c\<lparr>cfgCompanyID := company\<rparr> in
        Inr (c', record_audit actor ''timesheet.config.update'' company
          (db\<lparr>tsConfigs := filter (\<lambda>x. cfgCompanyID x \<noteq> company) (tsConfigs db) @ [c']\<rparr>)))"

section \<open>Projects\<close>

definition projectCodeChar :: "char \<Rightarrow> bool" where
  "projectCodeChar c \<longleftrightarrow> (let n = of_char c :: nat in
     65 \<le> n \<and> n \<le> 90 \<or> 48 \<le> n \<and> n \<le> 57 \<or> n = 95 \<or> n = 45)"

definition validateProject :: "string \<Rightarrow> string \<Rightarrow> string \<Rightarrow> (tsError, unit) result" where
  "validateProject code name status =
     (if \<not> (1 \<le> length code \<and> length code \<le> 20 \<and> list_all projectCodeChar code)
        then Inl (ValidationError ''code'')
      else if length name < 1 \<or> 100 < length name then Inl (ValidationError ''name'')
      else if status \<noteq> [] \<and> status \<noteq> ''active'' \<and> status \<noteq> ''inactive'' then Inl (ValidationError ''status'')
      else Inr ())"

definition activeDefault :: "string \<Rightarrow> string" where
  "activeDefault status = (if status = [] then ''active'' else status)"

definition CreateProject ::
  "uuid \<Rightarrow> string \<Rightarrow> uuid \<Rightarrow> string \<Rightarrow> string \<Rightarrow> string \<Rightarrow> tsDB \<Rightarrow> (tsError, Project \<times> tsDB) result" where
  "CreateProject newID actor company code name status db =
     (let status = activeDefault status in
      rbind (validateProject code name status) (\<lambda>_.
      if \<not> nul_free name then Inl ErrDatabase
      else if newID \<in> pID ` set (tsProjects db) \<or>
         (\<exists>p \<in> set (tsProjects db). pCompanyID p = company \<and> pCode p = code) then Inl ErrConflict
      else
        let p = \<lparr>pID = newID, pCompanyID = company, pCode = code, pName = name, pStatus = status\<rparr> in
        Inr (p, record_audit actor ''timesheet.project.create'' newID
          (db\<lparr>tsProjects := tsProjects db @ [p]\<rparr>))))"

definition getProject :: "tsRead \<Rightarrow> uuid \<Rightarrow> uuid \<Rightarrow> (tsError, Project) result" where
  "getProject rd company project =
     (case Option.bind rd (\<lambda>db. find (\<lambda>p. pCompanyID p = company \<and> pID p = project) (tsProjects db)) of
        None \<Rightarrow> Inl ErrProjectNotFound | Some p \<Rightarrow> Inr p)"

definition UpdateProject ::
  "string \<Rightarrow> uuid \<Rightarrow> uuid \<Rightarrow> string \<Rightarrow> string \<Rightarrow> string \<Rightarrow> tsDB \<Rightarrow> (tsError, Project \<times> tsDB) result" where
  "UpdateProject actor company project code name status db =
     (let status = activeDefault status in
      rbind (validateProject code name status) (\<lambda>_.
      if \<not> nul_free name then Inl ErrDatabase
      else rbind (getProject (Some db) company project) (\<lambda>p.
      if \<exists>q \<in> set (tsProjects db). pID q \<noteq> project \<and> pCompanyID q = company \<and> pCode q = code
      then Inl ErrConflict
      else
        let p' = p\<lparr>pCode := code, pName := name, pStatus := status\<rparr> in
        Inr (p', record_audit actor ''timesheet.project.update'' project
          (db\<lparr>tsProjects := map (\<lambda>q. if pCompanyID q = company \<and> pID q = project then p' else q)
             (tsProjects db)\<rparr>)))))"

text \<open>\<open>orderBy\<close> is the database's order of the selected rows.\<close>

definition queryPage :: "'a list \<Rightarrow> int \<Rightarrow> int \<Rightarrow> (tsError, 'a list \<times> int) result" where
  "queryPage rows page pageSize =
     (let (page, pageSize) = ClampPage page pageSize in
      case limitOffset rows page pageSize of
        None \<Rightarrow> Inl ErrDatabase | Some items \<Rightarrow> Inr (items, int (length rows)))"

definition ListProjects ::
  "(Project list \<Rightarrow> Project list) \<Rightarrow> tsDB \<Rightarrow> uuid \<Rightarrow> int \<Rightarrow> int \<Rightarrow> (tsError, Project list \<times> int) result" where
  "ListProjects orderBy db company page pageSize =
     queryPage (orderBy (filter (\<lambda>p. pCompanyID p = company) (tsProjects db))) page pageSize"

section \<open>Entries\<close>

definition validateHours :: "Config \<Rightarrow> rat \<Rightarrow> rat \<Rightarrow> (tsError, unit) result" where
  "validateHours cfg actual billable =
     (if actual < 0 \<or> 24 < actual then Inl (ValidationError ''realHours'')
      else if billable < 0 \<or> 24 < billable then Inl (ValidationError ''billableHours'')
      else if EnforceBillableWithinActual cfg \<and> actual < billable then Inl (ValidationError ''billableHours'')
      else if \<not> AllowBillableAboveEightHours cfg \<and> 8 < billable then Inl (ValidationError ''billableHours'')
      else Inr ())"

definition validateWeekWindow :: "Config \<Rightarrow> int \<Rightarrow> int \<Rightarrow> (tsError, unit) result" where
  "validateWeekWindow cfg now entryDate =
     (let thisWeek = isoMonday now; entryWeek = isoMonday entryDate;
          earliest = thisWeek + (- 7 * AllowedPreviousWeeks cfg) * 86400;
          latest = thisWeek + (7 * AllowedFutureWeeks cfg) * 86400
      in if entryWeek < earliest \<or> latest < entryWeek then Inl (ValidationError ''entryDate'') else Inr ())"

definition entryKey :: "Entry \<Rightarrow> uuid \<times> uuid \<times> uuid \<times> int" where
  "entryKey e = (eCompanyID e, eMemberID e, eProjectID e, eDate e)"

text \<open>\<open>num\<close> is the database's conversion to \<open>numeric(6,2)\<close>. \<open>cfgRead\<close> and \<open>prjRead\<close>
  are what the reads before the transaction saw, \<open>lk\<close> is the state at the locking read, \<open>db\<close> the
  state at the insert: a row that the locking read found stays as it is until the insert, but
  nothing holds back a row that it did not find (\<open>lockHeld\<close>).\<close>

definition findEntry :: "tsDB \<Rightarrow> uuid \<times> uuid \<times> uuid \<times> int \<Rightarrow> Entry option" where
  "findEntry db key = find (\<lambda>e. entryKey e = key) (tsEntries db)"

definition lockHeld :: "tsDB \<Rightarrow> tsDB \<Rightarrow> uuid \<times> uuid \<times> uuid \<times> int \<Rightarrow> bool" where
  "lockHeld lk db key \<longleftrightarrow> (case findEntry lk key of None \<Rightarrow> True | Some e \<Rightarrow> findEntry db key = Some e)"

definition lockEntry :: "tsDB \<Rightarrow> uuid \<times> uuid \<times> uuid \<times> int \<Rightarrow> (tsError, unit) result" where
  "lockEntry lk key = (case findEntry lk key of
     None \<Rightarrow> Inr ()
   | Some e \<Rightarrow> if eStatus e \<noteq> ''draft'' then Inl ErrEntryNotDraft else Inr ())"

definition insertEntry ::
  "uuid \<Rightarrow> string \<Rightarrow> uuid \<times> uuid \<times> uuid \<times> int \<Rightarrow> rat \<Rightarrow> rat \<Rightarrow> tsDB \<Rightarrow> (tsError, Entry \<times> tsDB) result" where
  "insertEntry newID actor key actual billable db =
     (case key of (company, member, project, day) \<Rightarrow>
      if actual < 0 \<or> 24 < actual \<or> billable < 0 \<or> 24 < billable then Inl ErrDatabase
      else if project \<notin> pID ` set (tsProjects db) then Inl ErrDatabase
      else case findEntry db key of
        None \<Rightarrow>
          if newID \<in> eID ` set (tsEntries db) then Inl ErrDatabase
          else
            let e = \<lparr>eID = newID, eCompanyID = company, eMemberID = member, eProjectID = project,
                     eDate = day, eReal = actual, eBillable = billable, eStatus = ''draft''\<rparr>
            in Inr (e, record_audit actor ''timesheet.entry.upsert'' newID (db\<lparr>tsEntries := tsEntries db @ [e]\<rparr>))
      | Some old \<Rightarrow>
          let e = old\<lparr>eReal := actual, eBillable := billable, eStatus := ''draft''\<rparr> in
          Inr (e, record_audit actor ''timesheet.entry.upsert'' (eID old)
            (db\<lparr>tsEntries := map (\<lambda>x. if entryKey x = key then e else x) (tsEntries db)\<rparr>)))"

definition UpsertEntry ::
  "(rat \<Rightarrow> rat) \<Rightarrow> int \<Rightarrow> uuid \<Rightarrow> tsRead \<Rightarrow> tsRead \<Rightarrow> tsDB \<Rightarrow> string \<Rightarrow> uuid \<Rightarrow> uuid \<Rightarrow> uuid \<Rightarrow> int \<Rightarrow> rat \<Rightarrow> rat \<Rightarrow>
   tsDB \<Rightarrow> (tsError, Entry \<times> tsDB) result" where
  "UpsertEntry num now newID cfgRead prjRead lk actor company member project entryDate actual billable db =
     (let cfg = GetConfig cfgRead company; key = (company, member, project, dayOf entryDate) in
      rbind (validateHours cfg actual billable) (\<lambda>_.
      rbind (validateWeekWindow cfg now entryDate) (\<lambda>_.
      rbind (getProject prjRead company project) (\<lambda>_.
      rbind (lockEntry lk key) (\<lambda>_.
      insertEntry newID actor key (num actual) (num billable) db)))))"

definition DeleteEntry ::
  "string \<Rightarrow> uuid \<Rightarrow> uuid \<Rightarrow> uuid \<Rightarrow> tsDB \<Rightarrow> (tsError, tsDB) result" where
  "DeleteEntry actor company member entry db =
     (case find (\<lambda>e. eID e = entry \<and> eCompanyID e = company \<and> eMemberID e = member) (tsEntries db) of
        None \<Rightarrow> Inl ErrEntryNotFound
      | Some e \<Rightarrow>
          if eStatus e \<noteq> ''draft'' then Inl ErrEntryNotDraft
          else Inr (record_audit actor ''timesheet.entry.delete'' entry
            (db\<lparr>tsEntries := filter (\<lambda>x. eID x \<noteq> entry) (tsEntries db)\<rparr>)))"

text \<open>The entries of a member in the seven days from \<open>weekStart\<close>.\<close>

definition inWeek :: "uuid \<Rightarrow> uuid \<Rightarrow> int \<Rightarrow> Entry \<Rightarrow> bool" where
  "inWeek company member weekStart e \<longleftrightarrow> eCompanyID e = company \<and> eMemberID e = member \<and>
     weekStart \<le> eDate e \<and> eDate e < weekStart + 7"

definition ListEntriesForWeek :: "tsDB \<Rightarrow> uuid \<Rightarrow> uuid \<Rightarrow> int \<Rightarrow> Entry list" where
  "ListEntriesForWeek db company member weekStart =
     sort_key eDate (filter (inWeek company member weekStart) (tsEntries db))"

section \<open>Approvers\<close>

definition RecordApproverAssignment ::
  "string \<Rightarrow> uuid \<Rightarrow> uuid \<Rightarrow> uuid \<Rightarrow> string \<Rightarrow> string \<Rightarrow> tsDB \<Rightarrow> Assignment \<times> tsDB" where
  "RecordApproverAssignment actor company member approverMember memberKcSub approverKcSub db =
     (let old = find (\<lambda>a. aCompanyID a = company \<and> aMemberID a = member) (tsAssignments db);
          a = \<lparr>aCompanyID = company, aMemberID = member,
               aMemberKcSub = (case old of None \<Rightarrow> memberKcSub | Some o' \<Rightarrow> aMemberKcSub o'),
               aApproverMemberID = approverMember, aApproverKcSub = approverKcSub, aAssignedBy = actor\<rparr>
      in (a, record_audit actor ''timesheet.approver.assign'' company
            (db\<lparr>tsAssignments :=
               filter (\<lambda>x. \<not> (aCompanyID x = company \<and> aMemberID x = member)) (tsAssignments db) @ [a]\<rparr>)))"

definition AssignedApprover :: "tsRead \<Rightarrow> uuid \<Rightarrow> uuid \<Rightarrow> (uuid \<times> string) option" where
  "AssignedApprover rd company member =
     map_option (\<lambda>a. (aApproverMemberID a, aApproverKcSub a))
       (Option.bind rd (\<lambda>db. find (\<lambda>a. aCompanyID a = company \<and> aMemberID a = member) (tsAssignments db)))"

definition ListApproverAssignments ::
  "(Assignment list \<Rightarrow> Assignment list) \<Rightarrow> tsDB \<Rightarrow> uuid \<Rightarrow> int \<Rightarrow> int \<Rightarrow> (tsError, Assignment list \<times> int) result" where
  "ListApproverAssignments orderBy db company page pageSize =
     queryPage (orderBy (filter (\<lambda>a. aCompanyID a = company) (tsAssignments db))) page pageSize"

section \<open>Submissions\<close>

text \<open>\<open>sha\<close> is the SHA-256 hash in hexadecimal, \<open>fmtDay\<close> the date format.\<close>

definition submissionIdempotencyPayloadHash ::
  "(string \<Rightarrow> string) \<Rightarrow> (int \<Rightarrow> string) \<Rightarrow> uuid \<Rightarrow> uuid \<Rightarrow> int \<Rightarrow> string" where
  "submissionIdempotencyPayloadHash sha fmtDay company member weekStart =
     sha (company @ [nul] @ member @ [nul] @ fmtDay weekStart)"

definition findSubmissionByIdempotencyKey ::
  "tsDB \<Rightarrow> uuid \<Rightarrow> uuid \<Rightarrow> string \<Rightarrow> (Submission \<times> string) option" where
  "findSubmissionByIdempotencyKey db company member key =
     map_option (\<lambda>s. (s, case sIdemHash s of None \<Rightarrow> [] | Some h \<Rightarrow> h))
       (find (\<lambda>s. sCompanyID s = company \<and> sMemberID s = member \<and> sIdemKey s = Some key) (tsSubmissions db))"

definition draftEntries :: "tsDB \<Rightarrow> uuid \<Rightarrow> uuid \<Rightarrow> int \<Rightarrow> Entry list" where
  "draftEntries db company member weekStart =
     filter (\<lambda>e. inWeek company member weekStart e \<and> eStatus e = ''draft'' \<and>
       eProjectID e \<in> pID ` set (tsProjects db)) (tsEntries db)"

definition snapshotOf :: "tsDB \<Rightarrow> uuid \<Rightarrow> Entry \<Rightarrow> Snapshot" where
  "snapshotOf db sub e =
     (let p = find (\<lambda>p. pID p = eProjectID e) (tsProjects db) in
      \<lparr>snSubmissionID = sub, snProjectID = eProjectID e,
       snCode = (case p of None \<Rightarrow> [] | Some p \<Rightarrow> pCode p), snName = (case p of None \<Rightarrow> [] | Some p \<Rightarrow> pName p),
       snDate = eDate e, snReal = eReal e, snBillable = eBillable e\<rparr>)"

definition isCurrentFor :: "uuid \<Rightarrow> uuid \<Rightarrow> int \<Rightarrow> Submission \<Rightarrow> bool" where
  "isCurrentFor company member weekStart s \<longleftrightarrow> sCompanyID s = company \<and> sMemberID s = member \<and>
     sWeekStart s = weekStart \<and> sCurrent s"

definition submitTx ::
  "uuid \<Rightarrow> uuid \<Rightarrow> string \<Rightarrow> uuid \<Rightarrow> uuid \<Rightarrow> int \<Rightarrow> string option \<Rightarrow> string option \<Rightarrow> uuid \<times> string \<Rightarrow> tsDB \<Rightarrow>
   (tsError, Submission \<times> tsDB) result" where
  "submitTx newID newRoot actorKcSub company member weekStart idemKey idemHash approver db =
     (let drafts = draftEntries db company member weekStart in
      if drafts = [] then Inl ErrNoDraftEntries
      else
        let prev = find (isCurrentFor company member weekStart) (tsSubmissions db);
            subs = (case prev of None \<Rightarrow> tsSubmissions db
                    | Some p \<Rightarrow> map (\<lambda>s. if sID s = sID p then s\<lparr>sCurrent := False\<rparr> else s) (tsSubmissions db));
            sub = \<lparr>sID = newID, sCompanyID = company, sMemberID = member, sWeekStart = weekStart,
              sVersion = (case prev of None \<Rightarrow> 1 | Some p \<Rightarrow> sVersion p + 1),
              sRootID = (case prev of None \<Rightarrow> newRoot | Some p \<Rightarrow> sRootID p),
              sSupersedes = map_option sID prev, sCurrent = True, sStatus = ''submitted'',
              sApproverMemberID = fst approver, sApproverKcSub = snd approver, sSubmittedBy = actorKcSub,
              sRejectReason = None, sDecidedBy = None, sIdemKey = idemKey, sIdemHash = idemHash\<rparr>
        in
        if maxInt32 < sVersion sub then Inl ErrDatabase
        else if newID \<in> sID ` set subs \<or> (\<exists>s \<in> set subs. isCurrentFor company member weekStart s) \<or>
           (idemKey \<noteq> None \<and> (\<exists>s \<in> set subs. sCompanyID s = company \<and> sMemberID s = member \<and> sIdemKey s = idemKey))
        then Inl ErrConflict
        else Inr (sub, record_audit actorKcSub ''timesheet.submission.submit'' newID
          (db\<lparr>tsSubmissions := subs @ [sub],
              tsSnapshots := tsSnapshots db @ map (snapshotOf db newID) drafts,
              tsEntries := map (\<lambda>e. if eID e \<in> eID ` set drafts then e\<lparr>eStatus := ''submitted''\<rparr> else e)
                (tsEntries db)\<rparr>)))"

text \<open>\<open>pre\<close> is the state the lookup of the idempotency key saw, \<open>asgRead\<close> what the later read
  of the assignment saw.\<close>

definition SubmitWeek ::
  "(string \<Rightarrow> string) \<Rightarrow> (int \<Rightarrow> string) \<Rightarrow> uuid \<Rightarrow> uuid \<Rightarrow> tsDB \<Rightarrow> tsRead \<Rightarrow> string \<Rightarrow> uuid \<Rightarrow> uuid \<Rightarrow> int \<Rightarrow> string \<Rightarrow>
   tsDB \<Rightarrow> (tsError, (Submission \<times> bool) \<times> tsDB) result" where
  "SubmitWeek sha fmtDay newID newRoot pre asgRead actorKcSub company member weekStart idempotencyKey db =
     (let hash = submissionIdempotencyPayloadHash sha fmtDay company member weekStart;
          fresh =
            (case AssignedApprover asgRead company member of
               None \<Rightarrow> Inl ErrNoApproverAssigned
             | Some approver \<Rightarrow>
                 rbind (submitTx newID newRoot actorKcSub company member weekStart
                    (if idempotencyKey \<noteq> [] then Some idempotencyKey else None)
                    (if idempotencyKey \<noteq> [] then Some hash else None) approver db)
                   (\<lambda>(sub, db'). Inr ((sub, True), db')))
      in
      if idempotencyKey = [] then fresh
      else case findSubmissionByIdempotencyKey pre company member idempotencyKey of
        None \<Rightarrow> fresh
      | Some (existing, existingHash) \<Rightarrow>
          if existingHash \<noteq> hash then Inl ErrIdempotencyConflict else Inr ((existing, False), db))"

definition GetSubmission :: "tsDB \<Rightarrow> uuid \<Rightarrow> uuid \<Rightarrow> (tsError, Submission) result" where
  "GetSubmission db company submission =
     (case find (\<lambda>s. sCompanyID s = company \<and> sID s = submission) (tsSubmissions db) of
        None \<Rightarrow> Inl ErrSubmissionNotFound | Some s \<Rightarrow> Inr s)"

definition decideSubmission ::
  "string \<Rightarrow> uuid \<Rightarrow> uuid \<Rightarrow> bool \<Rightarrow> string \<Rightarrow> tsDB \<Rightarrow> (tsError, Submission \<times> tsDB) result" where
  "decideSubmission actorKcSub company submission approve reason db =
     rbind (GetSubmission db company submission) (\<lambda>s.
       if sApproverKcSub s \<noteq> actorKcSub then Inl ErrNotAssignedApprover
       else if \<not> sCurrent s then Inl ErrSubmissionSuperseded
       else if sStatus s \<noteq> ''submitted'' then Inl ErrSubmissionNotSubmitted
       else if \<not> approve \<and> reason = [] then Inl (ValidationError ''reason'')
       else if \<not> nul_free reason then Inl ErrDatabase
       else
         let db' = record_audit actorKcSub
              (if approve then ''timesheet.submission.approve'' else ''timesheet.submission.reject'') submission
              (db\<lparr>tsSubmissions := map (\<lambda>x. if sID x = submission \<and> sCompanyID x = company
                    then x\<lparr>sStatus := (if approve then ''approved'' else ''rejected''), sDecidedBy := Some actorKcSub,
                           sRejectReason := (if approve then None else Some reason)\<rparr> else x) (tsSubmissions db),
                  tsEntries := map (\<lambda>e. if inWeek company (sMemberID s) (sWeekStart s) e \<and> eStatus e = ''submitted''
                    then e\<lparr>eStatus := (if approve then ''approved'' else ''draft'')\<rparr> else e) (tsEntries db)\<rparr>)
         in rbind (GetSubmission db' company submission) (\<lambda>s'. Inr (s', db')))"

definition ApproveSubmission :: "string \<Rightarrow> uuid \<Rightarrow> uuid \<Rightarrow> tsDB \<Rightarrow> (tsError, Submission \<times> tsDB) result" where
  "ApproveSubmission actorKcSub company submission db = decideSubmission actorKcSub company submission True [] db"

definition RejectSubmission :: "string \<Rightarrow> uuid \<Rightarrow> uuid \<Rightarrow> string \<Rightarrow> tsDB \<Rightarrow> (tsError, Submission \<times> tsDB) result" where
  "RejectSubmission actorKcSub company submission reason db =
     decideSubmission actorKcSub company submission False reason db"

definition inScope :: "string \<Rightarrow> string \<Rightarrow> uuid \<Rightarrow> uuid \<Rightarrow> Submission \<Rightarrow> bool" where
  "inScope view callerKcSub company callerMember s \<longleftrightarrow> sCompanyID s = company \<and>
     (if view = ''approvals'' then sApproverKcSub s = callerKcSub
      else if view = ''all'' then True
      else sMemberID s = callerMember)"

definition ListSubmissions ::
  "(Submission list \<Rightarrow> Submission list) \<Rightarrow> tsDB \<Rightarrow> uuid \<Rightarrow> string \<Rightarrow> string \<Rightarrow> uuid \<Rightarrow> int \<Rightarrow> int \<Rightarrow>
   (tsError, Submission list \<times> int) result" where
  "ListSubmissions orderBy db company view callerKcSub callerMember page pageSize =
     queryPage (orderBy (filter (inScope view callerKcSub company callerMember) (tsSubmissions db))) page pageSize"

section \<open>Effects of the operations\<close>

lemma record_audit_tables [simp, table_simps]:
  "tsConfigs (record_audit a b c db) = tsConfigs db"
  "tsProjects (record_audit a b c db) = tsProjects db"
  "tsEntries (record_audit a b c db) = tsEntries db"
  "tsAssignments (record_audit a b c db) = tsAssignments db"
  "tsSubmissions (record_audit a b c db) = tsSubmissions db"
  "tsSnapshots (record_audit a b c db) = tsSnapshots db"
  "tsAudit (record_audit a b c db) = tsAudit db @ [(a, b, c)]"
  by (simp_all add: record_audit_def)

text \<open>The tables the workflow is about.\<close>

definition workTables :: "tsDB \<Rightarrow> Entry list \<times> Submission list \<times> Snapshot list" where
  "workTables db = (tsEntries db, tsSubmissions db, tsSnapshots db)"

lemma UpdateConfig_frame:
  "UpdateConfig actor company c db = Inr (r, db') \<Longrightarrow> workTables db' = workTables db \<and> tsProjects db' = tsProjects db"
  by (auto simp: UpdateConfig_def workTables_def Let_def split: if_splits)

lemma CreateProject_frame:
  "CreateProject newID actor company code name status db = Inr (p, db') \<Longrightarrow>
   workTables db' = workTables db \<and> tsProjects db' = tsProjects db @ [p] \<and> pID p = newID \<and>
   newID \<notin> pID ` set (tsProjects db)"
  by (auto simp: CreateProject_def workTables_def Let_def rbind_Inr_iff split: if_splits)

lemma UpdateProject_frame:
  assumes "UpdateProject actor company project code name status db = Inr (p, db')"
  shows "workTables db' = workTables db \<and> map pID (tsProjects db') = map pID (tsProjects db)"
proof -
  from assms obtain q where q: "getProject (Some db) company project = Inr q"
    and db': "workTables db' = workTables db"
      "tsProjects db' = map (\<lambda>x. if pCompanyID x = company \<and> pID x = project
         then q\<lparr>pCode := code, pName := name, pStatus := activeDefault status\<rparr> else x) (tsProjects db)"
    by (auto simp: UpdateProject_def workTables_def Let_def rbind_Inr_iff split: if_splits)
  from q have "pID q = project"
    by (auto simp: getProject_def find_Some_iff split: option.splits)
  with db' show ?thesis by auto
qed

lemma RecordApproverAssignment_frame:
  "RecordApproverAssignment actor company member approver ks aks db = (a, db') \<Longrightarrow>
   workTables db' = workTables db \<and> tsProjects db' = tsProjects db"
  by (auto simp: RecordApproverAssignment_def workTables_def Let_def)

text \<open>An upsert appends a draft or rewrites the row with its key. If the locking read found the row,
  the row was a draft; an upsert is \<open>overtaken\<close> when its locking read found no row and its
  insert finds one.\<close>

definition sameIdentity :: "Entry \<Rightarrow> Entry \<Rightarrow> bool" where
  "sameIdentity e e' \<longleftrightarrow> eID e = eID e' \<and> entryKey e = entryKey e'"

definition overtaken :: "tsDB \<Rightarrow> tsDB \<Rightarrow> uuid \<times> uuid \<times> uuid \<times> int \<Rightarrow> bool" where
  "overtaken lk db key \<longleftrightarrow> findEntry lk key = None \<and> findEntry db key \<noteq> None"

lemma UpsertEntry_effect:
  assumes "UpsertEntry num now newID cfgRead prjRead lk actor company member project entryDate actual billable db = Inr (e, db')"
    and "lockHeld lk db (company, member, project, dayOf entryDate)"
  obtains "tsEntries db' = tsEntries db @ [e]" "eID e \<notin> eID ` set (tsEntries db)"
      "entryKey e \<notin> entryKey ` set (tsEntries db)"
  | old where "old \<in> set (tsEntries db)"
      "eStatus old = ''draft'' \<or> overtaken lk db (company, member, project, dayOf entryDate)"
      "sameIdentity old e" "entryKey e = (company, member, project, dayOf entryDate)"
      "tsEntries db' = map (\<lambda>x. if entryKey x = entryKey old then e else x) (tsEntries db)"
proof -
  let ?key = "(company, member, project, dayOf entryDate)"
  from assms(1) have lock: "lockEntry lk ?key = Inr ()"
    and ins: "insertEntry newID actor ?key (num actual) (num billable) db = Inr (e, db')"
    by (auto simp: UpsertEntry_def Let_def rbind_Inr_iff)
  show thesis
  proof (cases "findEntry db ?key")
    case None
    then have "?key \<notin> entryKey ` set (tsEntries db)"
      by (auto simp: findEntry_def find_None_iff)
    with None ins show thesis
      by (intro that(1)) (auto simp: insertEntry_def Let_def entryKey_def split: if_splits)
  next
    case (Some old)
    then have old: "old \<in> set (tsEntries db)" "entryKey old = ?key"
      by (auto simp: findEntry_def find_Some_iff)
    moreover have "eStatus old = ''draft'' \<or> overtaken lk db ?key"
      using lock Some assms(2) by (auto simp: lockEntry_def lockHeld_def overtaken_def split: if_splits option.splits)
    ultimately show thesis using Some ins
      by (intro that(2) [of old]) (auto simp: insertEntry_def Let_def sameIdentity_def entryKey_def split: if_splits)
  qed
qed

lemma UpsertEntry_result:
  assumes "UpsertEntry num now newID cfgRead prjRead lk actor company member project entryDate actual billable db = Inr (e, db')"
  shows "eStatus e = ''draft''" "0 \<le> eReal e" "eReal e \<le> 24" "0 \<le> eBillable e" "eBillable e \<le> 24"
    "eProjectID e \<in> pID ` set (tsProjects db)"
    "tsProjects db' = tsProjects db" "tsSubmissions db' = tsSubmissions db" "tsSnapshots db' = tsSnapshots db"
proof -
  let ?key = "(company, member, project, dayOf entryDate)"
  from assms have ins: "insertEntry newID actor ?key (num actual) (num billable) db = Inr (e, db')"
    by (auto simp: UpsertEntry_def Let_def rbind_Inr_iff)
  have key: "old \<in> set (tsEntries db) \<and> entryKey old = ?key" if "findEntry db ?key = Some old" for old
    using that by (auto simp: findEntry_def find_Some_iff)
  show "eStatus e = ''draft''" "0 \<le> eReal e" "eReal e \<le> 24" "0 \<le> eBillable e" "eBillable e \<le> 24"
    "tsProjects db' = tsProjects db" "tsSubmissions db' = tsSubmissions db" "tsSnapshots db' = tsSnapshots db"
    using ins by (auto simp: insertEntry_def Let_def split: if_splits option.splits)
  show "eProjectID e \<in> pID ` set (tsProjects db)"
    using ins key by (auto simp: insertEntry_def Let_def entryKey_def split: if_splits option.splits)
qed

lemma DeleteEntry_effect:
  assumes "DeleteEntry actor company member entry db = Inr db'"
  shows "tsEntries db' = filter (\<lambda>x. eID x \<noteq> entry) (tsEntries db)"
    "tsProjects db' = tsProjects db" "tsSubmissions db' = tsSubmissions db" "tsSnapshots db' = tsSnapshots db"
    "\<exists>e \<in> set (tsEntries db). eID e = entry \<and> eStatus e = ''draft''"
  using assms by (auto simp: DeleteEntry_def find_Some_iff split: option.splits if_splits)

definition retire :: "Submission option \<Rightarrow> Submission \<Rightarrow> Submission" where
  "retire prev s = (case prev of None \<Rightarrow> s | Some p \<Rightarrow> if sID s = sID p then s\<lparr>sCurrent := False\<rparr> else s)"

lemma retire_fields [simp]:
  "sID (retire p s) = sID s" "sCompanyID (retire p s) = sCompanyID s" "sMemberID (retire p s) = sMemberID s"
  "sWeekStart (retire p s) = sWeekStart s" "sStatus (retire p s) = sStatus s" "sVersion (retire p s) = sVersion s"
  "sRootID (retire p s) = sRootID s" "sSupersedes (retire p s) = sSupersedes s"
  "sApproverKcSub (retire p s) = sApproverKcSub s" "sApproverMemberID (retire p s) = sApproverMemberID s"
  "sSubmittedBy (retire p s) = sSubmittedBy s" "sDecidedBy (retire p s) = sDecidedBy s"
  "sRejectReason (retire p s) = sRejectReason s" "sIdemKey (retire p s) = sIdemKey s"
  "sIdemHash (retire p s) = sIdemHash s"
  by (auto simp: retire_def split: option.splits)

lemma retire_current: "sCurrent (retire p s) \<longleftrightarrow> sCurrent s \<and> map_option sID p \<noteq> Some (sID s)"
  by (auto simp: retire_def split: option.splits)

lemma retire_same: "map_option sID p \<noteq> Some (sID s) \<Longrightarrow> retire p s = s"
  by (auto simp: retire_def split: option.splits)

lemma submitTx_effect:
  assumes "submitTx newID newRoot actor company member weekStart key hash approver db = Inr (sub, db')"
  defines "prev \<equiv> find (isCurrentFor company member weekStart) (tsSubmissions db)"
  defines "drafts \<equiv> draftEntries db company member weekStart"
  shows "tsSubmissions db' = map (retire prev) (tsSubmissions db) @ [sub]"
    "tsSnapshots db' = tsSnapshots db @ map (snapshotOf db newID) drafts"
    "tsEntries db' = map (\<lambda>e. if eID e \<in> eID ` set drafts then e\<lparr>eStatus := ''submitted''\<rparr> else e) (tsEntries db)"
    "tsProjects db' = tsProjects db"
    "sID sub = newID" "newID \<notin> sID ` set (tsSubmissions db)"
    "sCompanyID sub = company" "sMemberID sub = member" "sWeekStart sub = weekStart" "sCurrent sub"
    "sStatus sub = ''submitted''" "sDecidedBy sub = None" "sRejectReason sub = None"
    "sIdemKey sub = key" "sIdemHash sub = hash" "sSupersedes sub = map_option sID prev"
    "sVersion sub = (case prev of None \<Rightarrow> 1 | Some p \<Rightarrow> sVersion p + 1)"
    "sRootID sub = (case prev of None \<Rightarrow> newRoot | Some p \<Rightarrow> sRootID p)"
    "sSubmittedBy sub = actor" "sApproverKcSub sub = snd approver"
    "\<not> (\<exists>s \<in> set (map (retire prev) (tsSubmissions db)). isCurrentFor company member weekStart s)"
    "key \<noteq> None \<Longrightarrow> \<not> (\<exists>s \<in> set (tsSubmissions db). sCompanyID s = company \<and> sMemberID s = member \<and> sIdemKey s = key)"
    "drafts \<noteq> []"
proof -
  define subs where "subs = map (retire prev) (tsSubmissions db)"
  have subs: "(case prev of None \<Rightarrow> tsSubmissions db
      | Some p \<Rightarrow> map (\<lambda>s. if sID s = sID p then s\<lparr>sCurrent := False\<rparr> else s) (tsSubmissions db)) = subs"
    by (auto simp: subs_def retire_def map_idI split: option.splits)
  have ids: "sID ` set subs = sID ` set (tsSubmissions db)" by (simp add: subs_def image_image)
  have keys: "(\<exists>s \<in> set subs. sCompanyID s = company \<and> sMemberID s = member \<and> sIdemKey s = key) \<longleftrightarrow>
      (\<exists>s \<in> set (tsSubmissions db). sCompanyID s = company \<and> sMemberID s = member \<and> sIdemKey s = key)"
    by (simp add: subs_def)
  define sub' where "sub' = \<lparr>sID = newID, sCompanyID = company, sMemberID = member, sWeekStart = weekStart,
    sVersion = (case prev of None \<Rightarrow> 1 | Some p \<Rightarrow> sVersion p + 1),
    sRootID = (case prev of None \<Rightarrow> newRoot | Some p \<Rightarrow> sRootID p),
    sSupersedes = map_option sID prev, sCurrent = True, sStatus = ''submitted'',
    sApproverMemberID = fst approver, sApproverKcSub = snd approver, sSubmittedBy = actor,
    sRejectReason = None, sDecidedBy = None, sIdemKey = key, sIdemHash = hash\<rparr>"
  note eq = assms(1) [unfolded submitTx_def Let_def, folded prev_def drafts_def, unfolded subs, folded sub'_def]
  then have guards: "drafts \<noteq> []" "newID \<notin> sID ` set subs" "\<not> (\<exists>s \<in> set subs. isCurrentFor company member weekStart s)"
      "\<not> (key \<noteq> None \<and> (\<exists>s \<in> set subs. sCompanyID s = company \<and> sMemberID s = member \<and> sIdemKey s = key))"
    by (simp_all split: if_split_asm)
  from eq have res: "sub = sub'" "tsSubmissions db' = subs @ [sub']"
      "tsSnapshots db' = tsSnapshots db @ map (snapshotOf db newID) drafts"
      "tsEntries db' = map (\<lambda>e. if eID e \<in> eID ` set drafts then e\<lparr>eStatus := ''submitted''\<rparr> else e) (tsEntries db)"
      "tsProjects db' = tsProjects db"
    by (auto split: if_split_asm)
  note * = guards [unfolded ids keys] res
  show "tsSubmissions db' = map (retire prev) (tsSubmissions db) @ [sub]"
    "tsSnapshots db' = tsSnapshots db @ map (snapshotOf db newID) drafts"
    "tsEntries db' = map (\<lambda>e. if eID e \<in> eID ` set drafts then e\<lparr>eStatus := ''submitted''\<rparr> else e) (tsEntries db)"
    "tsProjects db' = tsProjects db" "sID sub = newID" "newID \<notin> sID ` set (tsSubmissions db)"
    "sCompanyID sub = company" "sMemberID sub = member" "sWeekStart sub = weekStart" "sCurrent sub"
    "sStatus sub = ''submitted''" "sDecidedBy sub = None" "sRejectReason sub = None"
    "sIdemKey sub = key" "sIdemHash sub = hash" "sSupersedes sub = map_option sID prev"
    "sVersion sub = (case prev of None \<Rightarrow> 1 | Some p \<Rightarrow> sVersion p + 1)"
    "sRootID sub = (case prev of None \<Rightarrow> newRoot | Some p \<Rightarrow> sRootID p)"
    "sSubmittedBy sub = actor" "sApproverKcSub sub = snd approver"
    "\<not> (\<exists>s \<in> set (map (retire prev) (tsSubmissions db)). isCurrentFor company member weekStart s)"
    "drafts \<noteq> []"
    using * by (simp_all add: sub'_def subs_def)
  show "key \<noteq> None \<Longrightarrow> \<not> (\<exists>s \<in> set (tsSubmissions db). sCompanyID s = company \<and> sMemberID s = member \<and> sIdemKey s = key)"
    using * by blast
qed

definition decided :: "bool \<Rightarrow> string \<Rightarrow> string \<Rightarrow> Submission \<Rightarrow> Submission" where
  "decided approve actor reason x = x\<lparr>sStatus := (if approve then ''approved'' else ''rejected''),
     sDecidedBy := Some actor, sRejectReason := (if approve then None else Some reason)\<rparr>"

lemma decideSubmission_effect:
  assumes "decideSubmission actor company submission approve reason db = Inr (r, db')"
  obtains s where "s \<in> set (tsSubmissions db)" "sID s = submission" "sCompanyID s = company"
    "sApproverKcSub s = actor" "sCurrent s" "sStatus s = ''submitted''" "approve \<or> reason \<noteq> []"
    "tsSubmissions db' = map (\<lambda>x. if sID x = submission \<and> sCompanyID x = company
        then decided approve actor reason x else x) (tsSubmissions db)"
    "tsEntries db' = map (\<lambda>e. if inWeek company (sMemberID s) (sWeekStart s) e \<and> eStatus e = ''submitted''
        then e\<lparr>eStatus := (if approve then ''approved'' else ''draft'')\<rparr> else e) (tsEntries db)"
    "tsSnapshots db' = tsSnapshots db" "tsProjects db' = tsProjects db"
    "r \<in> set (tsSubmissions db')" "sID r = submission" "sCompanyID r = company"
proof -
  from assms obtain s where s: "GetSubmission db company submission = Inr s"
    by (auto simp: decideSubmission_def rbind_Inr_iff)
  then have "s \<in> set (tsSubmissions db)" "sID s = submission" "sCompanyID s = company"
    by (auto simp: GetSubmission_def find_Some_iff split: option.splits)
  then show thesis
    using assms s
    by (intro that [of s])
      (auto simp: decideSubmission_def rbind_Inr_iff Let_def decided_def GetSubmission_def find_Some_iff
        split: if_splits option.splits)
qed

end
