(* ===== verification/Civil_Date.thy ===== *)
theory Civil_Date
  imports Kiban_Prelude
begin

text \<open>
  The part of Go's package \<open>time\<close> that the timesheet handlers use: parsing and formatting with
  the layout \<open>2006-01-02\<close> in the proleptic Gregorian calendar. A date is its number of days since
  1970-01-01. The main lemma is that formatting inverts parsing.
\<close>

section \<open>The calendar\<close>

definition isLeap :: "int \<Rightarrow> bool" where
  "isLeap y \<longleftrightarrow> y mod 4 = 0 \<and> (y mod 100 \<noteq> 0 \<or> y mod 400 = 0)"

definition daysIn :: "int \<Rightarrow> int \<Rightarrow> int" where
  "daysIn m y = (if m = 2 then (if isLeap y then 29 else 28) else if m \<in> {4, 6, 9, 11} then 30 else 31)"

text \<open>Days of year \<open>y\<close> before month \<open>m\<close>; month 13 stands for the whole year.\<close>

definition daysBefore :: "int \<Rightarrow> int \<Rightarrow> int" where
  "daysBefore y m = (if m \<le> 1 then 0 else if m = 2 then 31 else
     (if isLeap y then 1 else 0) +
     (if m = 3 then 59 else if m = 4 then 90 else if m = 5 then 120 else if m = 6 then 151
      else if m = 7 then 181 else if m = 8 then 212 else if m = 9 then 243 else if m = 10 then 273
      else if m = 11 then 304 else if m = 12 then 334 else 365))"

text \<open>Days from 0000-01-01 to the first day of year \<open>y\<close>.\<close>

definition daysBeforeYear :: "int \<Rightarrow> int" where
  "daysBeforeYear y = 365 * y + (y + 3) div 4 - (y + 99) div 100 + (y + 399) div 400"

definition epochDays :: int where
  "epochDays = 719528"

definition dayNumber :: "int \<Rightarrow> int \<Rightarrow> int \<Rightarrow> int" where
  "dayNumber y m d = daysBeforeYear y + daysBefore y m + (d - 1) - epochDays"

lemma div_carry:
  fixes x k :: int
  assumes "0 < k"
  shows "(x + 1) div k = x div k + (if (x + 1) mod k = 0 then 1 else 0)"
proof (cases "x mod k = k - 1")
  case True
  have "x + 1 = k * (x div k + 1)"
    using True mult_div_mod_eq [of k x] unfolding distrib_left by linarith
  then show ?thesis using assms by simp
next
  case False
  have r: "0 \<le> x mod k" "x mod k < k" using assms by simp_all
  have eq: "x + 1 = k * (x div k) + (x mod k + 1)" using mult_div_mod_eq [of k x] by simp
  have "(x + 1) div k = x div k" by (rule int_div_pos_eq [OF eq]) (use r False in auto)
  moreover have "(x + 1) mod k = x mod k + 1" by (rule int_mod_pos_eq [OF eq]) (use r False in auto)
  ultimately show ?thesis using r by simp
qed

lemma div_carry_period:
  fixes y k :: int
  assumes "0 < k" and "c = k - 1"
  shows "(y + k) div k = (y + c) div k + (if y mod k = 0 then 1 else 0)"
proof -
  have "y + c + 1 = y + k" using assms(2) by simp
  then show ?thesis using div_carry [OF assms(1), of "y + c"] by (simp only: mod_add_self2)
qed

lemma daysBeforeYear_Suc: "daysBeforeYear (y + 1) = daysBeforeYear y + daysBefore y 13"
proof -
  have c: "(y + 4) div 4 = (y + 3) div 4 + (if y mod 4 = 0 then 1 else 0)"
    "(y + 100) div 100 = (y + 99) div 100 + (if y mod 100 = 0 then 1 else 0)"
    "(y + 400) div 400 = (y + 399) div 400 + (if y mod 400 = 0 then 1 else 0)"
    by (rule div_carry_period; simp)+
  have d: "y mod 400 = 0 \<Longrightarrow> y mod 100 = 0" "y mod 100 = 0 \<Longrightarrow> y mod 4 = 0"
    using mod_mod_cancel [of 100 400 y] mod_mod_cancel [of 4 100 y] by simp_all
  have e: "y + 1 + 3 = y + 4" "y + 1 + 99 = y + 100" "y + 1 + 399 = y + 400" by simp_all
  define a b f where "a = (y + 3) div 4" and "b = (y + 99) div 100" and "f = (y + 399) div 400"
  have "daysBefore y 13 = 365 + (if y mod 4 = 0 then 1 else 0) - (if y mod 100 = 0 then 1 else 0) +
      (if y mod 400 = 0 then 1 else 0)"
  proof -
    have bools: "(r \<longrightarrow> q) \<and> (q \<longrightarrow> p) \<longrightarrow> 365 + (if p \<and> (\<not> q \<or> r) then 1 else 0 :: int) =
        365 + (if p then 1 else 0) - (if q then 1 else 0) + (if r then 1 else 0)" for p q r
      by (cases p; cases q; cases r) simp_all
    have "daysBefore y 13 = 365 + (if isLeap y then 1 else 0)" by (simp add: daysBefore_def)
    then show ?thesis unfolding isLeap_def using bools [of "y mod 400 = 0" "y mod 100 = 0" "y mod 4 = 0"] d by metis
  qed
  then show ?thesis unfolding daysBeforeYear_def e c a_def [symmetric] b_def [symmetric] f_def [symmetric] distrib_left
    by (simp only: mult_1_right)
qed

lemma daysBeforeYear_step: "daysBeforeYear y + 365 \<le> daysBeforeYear (y + 1)"
  unfolding daysBeforeYear_Suc by (simp add: daysBefore_def)

lemma daysBeforeYear_mono: "y \<le> z \<Longrightarrow> daysBeforeYear y \<le> daysBeforeYear z"
proof (induction z rule: int_ge_induct)
  case (step i)
  then show ?case using daysBeforeYear_step [of i] by linarith
qed simp

lemma daysBeforeYear_0: "daysBeforeYear 0 = 0"
  by (simp add: daysBeforeYear_def)

lemma daysBeforeYear_le: "0 \<le> y \<Longrightarrow> daysBeforeYear y \<le> 366 * y"
proof (induction y rule: int_ge_induct)
  case (step i)
  have "daysBefore i 13 \<le> 366" by (simp add: daysBefore_def)
  moreover have "366 * (i + 1) = 366 * i + 366" by simp
  ultimately show ?case using step daysBeforeYear_Suc [of i] by linarith
qed (simp add: daysBeforeYear_def)

section \<open>Formatting\<close>

text \<open>The year that contains day \<open>n\<close>, counted up from a year that starts no later.\<close>

function yearFrom :: "int \<Rightarrow> int \<Rightarrow> int" where
  "yearFrom y n = (if daysBeforeYear (y + 1) \<le> n then yearFrom (y + 1) n else y)"
  by auto

termination
proof (relation "measure (\<lambda>(y, n). nat (n + 1 - daysBeforeYear y))")
  fix y n :: int
  assume "daysBeforeYear (y + 1) \<le> n"
  then show "((y + 1, n), (y, n)) \<in> measure (\<lambda>(y, n). nat (n + 1 - daysBeforeYear y))"
    using daysBeforeYear_step [of y] by simp
qed simp

declare yearFrom.simps [simp del]

lemma yearFrom_unique:
  assumes "daysBeforeYear y \<le> n" and "n < daysBeforeYear (y + 1)" and "z \<le> y"
  shows "yearFrom z n = y"
  using assms(3)
proof (induction "nat (y - z)" arbitrary: z rule: less_induct)
  case less
  show ?case
  proof (cases "z = y")
    case True
    then show ?thesis using assms by (simp add: yearFrom.simps)
  next
    case False
    then have "z + 1 \<le> y" using less.prems by simp
    then have "daysBeforeYear (z + 1) \<le> n" using daysBeforeYear_mono [of "z + 1" y] assms by linarith
    moreover have "yearFrom (z + 1) n = y" using less.hyps [of "z + 1"] \<open>z + 1 \<le> y\<close> by simp
    ultimately show ?thesis by (simp add: yearFrom.simps [of z])
  qed
qed

definition monthFrom :: "int \<Rightarrow> int \<Rightarrow> int" where
  "monthFrom y r = (case find (\<lambda>m. r < daysBefore y (m + 1)) [1..12] of None \<Rightarrow> 12 | Some m \<Rightarrow> m)"

definition digitChar :: "int \<Rightarrow> char" where
  "digitChar n = char_of (48 + n)"

text \<open>The layout writes the year with at least four digits.\<close>

definition pad4 :: "int \<Rightarrow> string" where
  "pad4 y = (if y < 0 then ''-'' else []) @
     (let a = \<bar>y\<bar> in
      (if a < 10000 then [digitChar (a div 10 div 10 div 10)] else itoa (nat (a div 10 div 10 div 10))) @
      [digitChar (a div 10 div 10 mod 10), digitChar (a div 10 mod 10), digitChar (a mod 10)])"

definition pad2 :: "int \<Rightarrow> string" where
  "pad2 n = [digitChar (n div 10), digitChar (n mod 10)]"

definition civil :: "int \<Rightarrow> int \<times> int \<times> int" where
  "civil day = (let n = day + epochDays; y = yearFrom (n div 366 - (if n < 0 then 2 else 0)) n;
     r = n - daysBeforeYear y; m = monthFrom y r in (y, m, r - daysBefore y m + 1))"

definition formatDate :: "int \<Rightarrow> string" where
  "formatDate day = (case civil day of (y, m, d) \<Rightarrow> pad4 y @ ''-'' @ pad2 m @ ''-'' @ pad2 d)"

section \<open>Parsing\<close>

fun parseDate :: "string \<Rightarrow> int option" where
  "parseDate [y1, y2, y3, y4, s1, m1, m2, s2, d1, d2] =
     (let y = 10 * (10 * (10 * digitOf y1 + digitOf y2) + digitOf y3) + digitOf y4;
          m = 10 * digitOf m1 + digitOf m2; d = 10 * digitOf d1 + digitOf d2
      in if list_all isDigit [y1, y2, y3, y4, m1, m2, d1, d2] \<and> s1 = CHR ''-'' \<and> s2 = CHR ''-'' \<and>
            1 \<le> m \<and> m \<le> 12 \<and> 1 \<le> d \<and> d \<le> daysIn m y
         then Some (dayNumber y m d) else None)"
| "parseDate _ = None"

section \<open>Round trip\<close>

lemma digit_split:
  fixes x d :: int
  assumes "0 \<le> d \<and> d \<le> 9"
  shows "(10 * x + d) div 10 = x" "(10 * x + d) mod 10 = d"
  using assms by (auto intro: int_div_pos_eq int_mod_pos_eq)

lemma digit_range: "isDigit c \<Longrightarrow> 0 \<le> digitOf c \<and> digitOf c \<le> 9"
  by (simp add: isDigit_def digitOf_def)

lemma digitChar_digitOf: "isDigit c \<Longrightarrow> digitChar (digitOf c) = c"
  by (simp add: digitOf_def digitChar_def)

lemma month_list: "[1..12] = [1, 2, 3, 4, 5, 6, 7, 8, 9, 10, 11, 12 :: int]"
  by (simp add: upto.simps)

lemma month_cases:
  fixes m :: int
  assumes "1 \<le> m" and "m \<le> 12"
  obtains "m = 1" | "m = 2" | "m = 3" | "m = 4" | "m = 5" | "m = 6" | "m = 7" | "m = 8" | "m = 9" | "m = 10" | "m = 11" | "m = 12"
proof -
  have "m \<in> set [1..12]" using assms by simp
  then show thesis unfolding month_list using that by auto
qed

lemma monthFrom_unique:
  assumes "1 \<le> m" and "m \<le> 12" and "daysBefore y m \<le> r" and "r < daysBefore y (m + 1)"
  shows "monthFrom y r = m"
  using assms(1,2)
  by (cases rule: month_cases) (use assms(3,4) in \<open>simp_all add: monthFrom_def month_list daysBefore_def split: if_splits\<close>)

lemma daysBefore_next: "1 \<le> m \<Longrightarrow> m \<le> 12 \<Longrightarrow> daysBefore y (m + 1) = daysBefore y m + daysIn m y"
  by (cases rule: month_cases [of m]) (simp_all add: daysBefore_def daysIn_def)

lemma daysBefore_le: "1 \<le> m \<Longrightarrow> m \<le> 12 \<Longrightarrow> 0 \<le> daysBefore y m \<and> daysBefore y (m + 1) \<le> daysBefore y 13"
  by (auto simp: daysBefore_def)

lemma civil_dayNumber:
  assumes "0 \<le> y" and "1 \<le> m" "m \<le> 12" and "1 \<le> d" "d \<le> daysIn m y"
  shows "civil (dayNumber y m d) = (y, m, d)"
proof -
  define r where "r = daysBefore y m + (d - 1)"
  define n where "n = dayNumber y m d + epochDays"
  have n: "n = daysBeforeYear y + r" by (simp add: n_def r_def dayNumber_def)
  have r: "daysBefore y m \<le> r" "r < daysBefore y (m + 1)"
    using assms daysBefore_next [of m y] by (simp_all add: r_def)
  have in_year: "daysBeforeYear y \<le> n" "n < daysBeforeYear (y + 1)"
    using r daysBefore_le [OF assms(2,3), of y] daysBeforeYear_Suc [of y] n by linarith+
  have pos: "0 \<le> n" using in_year daysBeforeYear_mono [OF assms(1)] daysBeforeYear_0 by linarith
  have "daysBeforeYear (n div 366) \<le> n"
    using daysBeforeYear_le [of "n div 366"] pos by (simp add: pos_imp_zdiv_nonneg_iff)
  then have "n div 366 \<le> y" using in_year daysBeforeYear_mono [of "y + 1" "n div 366"] by linarith
  then have year: "yearFrom (n div 366) n = y" by (rule yearFrom_unique [OF in_year])
  have month: "monthFrom y r = m" by (rule monthFrom_unique [OF assms(2,3) r])
  show ?thesis
    unfolding civil_def n_def [symmetric] Let_def using pos year month by (simp add: n r_def)
qed

lemma formatDate_parseDate:
  assumes "parseDate s = Some day"
  shows "formatDate day = s"
proof -
  obtain y1 y2 y3 y4 s1 m1 m2 s2 d1 d2 where s: "s = [y1, y2, y3, y4, s1, m1, m2, s2, d1, d2]"
    using assms by (cases s rule: parseDate.cases) auto
  define y where "y = 10 * (10 * (10 * digitOf y1 + digitOf y2) + digitOf y3) + digitOf y4"
  define m where "m = 10 * digitOf m1 + digitOf m2"
  define d where "d = 10 * digitOf d1 + digitOf d2"
  have ok: "list_all isDigit [y1, y2, y3, y4, m1, m2, d1, d2]" "s1 = CHR ''-''" "s2 = CHR ''-''"
      "1 \<le> m" "m \<le> 12" "1 \<le> d" "d \<le> daysIn m y" "day = dayNumber y m d"
    using assms unfolding s by (auto simp: Let_def y_def m_def d_def split: if_splits)
  have dig: "0 \<le> digitOf c \<and> digitOf c \<le> 9" "digitChar (digitOf c) = c"
    if "c \<in> {y1, y2, y3, y4, m1, m2, d1, d2}" for c
    using ok(1) that digit_range digitChar_digitOf by auto
  have r: "0 \<le> digitOf y1 \<and> digitOf y1 \<le> 9" "0 \<le> digitOf y2 \<and> digitOf y2 \<le> 9" "0 \<le> digitOf y3 \<and> digitOf y3 \<le> 9"
    "0 \<le> digitOf y4 \<and> digitOf y4 \<le> 9" "0 \<le> digitOf m2 \<and> digitOf m2 \<le> 9" "0 \<le> digitOf d2 \<and> digitOf d2 \<le> 9"
    by (intro dig(1); simp)+
  have ch: "digitChar (digitOf y1) = y1" "digitChar (digitOf y2) = y2" "digitChar (digitOf y3) = y3" "digitChar (digitOf y4) = y4"
    "digitChar (digitOf m1) = m1" "digitChar (digitOf m2) = m2" "digitChar (digitOf d1) = d1" "digitChar (digitOf d2) = d2"
    by (intro dig(2); simp)+
  have "0 \<le> y \<and> y < 10000" using r unfolding y_def by auto
  then have y: "0 \<le> y" "y < 10000" by blast+
  have parts: "pad4 y = [y1, y2, y3, y4]" "pad2 m = [m1, m2]" "pad2 d = [d1, d2]"
  proof -
    have "y div 10 div 10 div 10 = digitOf y1" "y div 10 div 10 mod 10 = digitOf y2" "y div 10 mod 10 = digitOf y3"
      "y mod 10 = digitOf y4"
      unfolding y_def using r by (simp_all only: digit_split)
    moreover have "\<bar>y\<bar> = y" "(y < 0) = False" "(y < 10000) = True" using y by simp_all
    ultimately show "pad4 y = [y1, y2, y3, y4]"
      by (simp only: pad4_def Let_def if_True if_False append.simps ch)
    show "pad2 m = [m1, m2]" "pad2 d = [d1, d2]"
      unfolding pad2_def m_def d_def using r ch by (simp_all only: digit_split)
  qed
  have "civil day = (y, m, d)" unfolding ok(8) by (rule civil_dayNumber [OF y(1) ok(4-7)])
  then show ?thesis using ok(2,3) by (simp add: formatDate_def parts s)
qed

lemma parseDate_inj: "parseDate s = Some day \<Longrightarrow> parseDate s' = Some day \<Longrightarrow> s = s'"
  using formatDate_parseDate by metis

end
