(* ===== verification/Timesheet_Workflow.thy ===== *)
theory Timesheet_Workflow
  imports Timesheet_Store Civil_Date
begin

text \<open>
  The approval workflow over the timesheet tables: the committed operations as a step relation, the
  invariant that every step keeps, the finality of decisions, the replay of submissions under an
  idempotency key, the bounds of accepted entries, the reopening of a rejected week and the paging
  of the lists. An example run is the concrete input of the witnesses.
\<close>

section \<open>Runs of the store\<close>

text \<open>One committed operation. The reads before a transaction may have seen any state, or failed.
  Between the locking read of an upsert and its insert other operations may commit, except that a
  row the read found stays locked.\<close>

inductive tsStep :: "(rat \<Rightarrow> rat) \<Rightarrow> (string \<Rightarrow> string) \<Rightarrow> (int \<Rightarrow> string) \<Rightarrow> tsDB \<Rightarrow> tsDB \<Rightarrow> bool"
  for num sha fmtDay where
  update_config: "UpdateConfig actor company c db = Inr (r, db') \<Longrightarrow> tsStep num sha fmtDay db db'"
| create_project: "CreateProject newID actor company code name status db = Inr (p, db') \<Longrightarrow> tsStep num sha fmtDay db db'"
| update_project: "UpdateProject actor company project code name status db = Inr (p, db') \<Longrightarrow> tsStep num sha fmtDay db db'"
| upsert_entry: "UpsertEntry num now newID cfgRead prjRead lk actor company member project entryDate actual billable db = Inr (e, db') \<Longrightarrow>
    lockHeld lk db (company, member, project, dayOf entryDate) \<Longrightarrow> tsStep num sha fmtDay db db'"
| delete_entry: "DeleteEntry actor company member entry db = Inr db' \<Longrightarrow> tsStep num sha fmtDay db db'"
| assign_approver: "RecordApproverAssignment actor company member approver ks aks db = (a, db') \<Longrightarrow>
    tsStep num sha fmtDay db db'"
| submit_week: "SubmitWeek sha fmtDay newID newRoot pre asgRead actor company member weekStart key db = Inr (r, db') \<Longrightarrow>
    tsStep num sha fmtDay db db'"
| decide: "decideSubmission actor company submission approve reason db = Inr (s, db') \<Longrightarrow>
    tsStep num sha fmtDay db db'"

text \<open>For the workflow a step does one of five things.\<close>

lemma tsStep_cases:
  assumes "tsStep num sha fmtDay db db'"
  obtains (frame) "workTables db' = workTables db" "pID ` set (tsProjects db) \<subseteq> pID ` set (tsProjects db')"
      "distinct (map pID (tsProjects db)) \<Longrightarrow> distinct (map pID (tsProjects db'))"
  | (upsert) now newID cfgRead prjRead lk actor company member project entryDate actual billable e where
      "UpsertEntry num now newID cfgRead prjRead lk actor company member project entryDate actual billable db = Inr (e, db')"
      "lockHeld lk db (company, member, project, dayOf entryDate)"
  | (delete) actor company member entry where "DeleteEntry actor company member entry db = Inr db'"
  | (submit) newID newRoot actor company member weekStart key approver sub where
      "submitTx newID newRoot actor company member weekStart key
         (map_option (\<lambda>_. submissionIdempotencyPayloadHash sha fmtDay company member weekStart) key) approver db = Inr (sub, db')"
  | (decide) actor company submission approve reason s where
      "decideSubmission actor company submission approve reason db = Inr (s, db')"
  using assms
proof (cases rule: tsStep.cases)
  case update_config
  then show thesis using UpdateConfig_frame by (intro frame) auto
next
  case create_project
  from CreateProject_frame [OF this] show thesis by (intro frame) auto
next
  case update_project
  from UpdateProject_frame [OF this] show thesis by (intro frame) (auto dest: arg_cong [of _ _ set])
next
  case assign_approver
  from RecordApproverAssignment_frame [OF this] show thesis by (intro frame) auto
next
  case (submit_week newID newRoot pre asgRead actor company member weekStart key r)
  then consider "db' = db"
    | approver sub where "submitTx newID newRoot actor company member weekStart (if key \<noteq> [] then Some key else None)
         (if key \<noteq> [] then Some (submissionIdempotencyPayloadHash sha fmtDay company member weekStart) else None)
         approver db = Inr (sub, db')"
    by (auto simp: SubmitWeek_def Let_def rbind_Inr_iff split: option.splits if_splits)
  then show thesis
  proof cases
    case 1
    then show thesis by (intro frame) auto
  next
    case 2
    then show thesis
      by (intro submit [of newID newRoot actor company member weekStart "if key \<noteq> [] then Some key else None" approver sub])
        (auto split: if_splits)
  qed
qed (use upsert delete decide in blast)+

section \<open>The invariant\<close>

definition covers :: "Submission \<Rightarrow> Entry \<Rightarrow> bool" where
  "covers s e \<longleftrightarrow> inWeek (sCompanyID s) (sMemberID s) (sWeekStart s) e"

definition recordedIn :: "tsDB \<Rightarrow> Submission \<Rightarrow> Entry \<Rightarrow> bool" where
  "recordedIn db s e \<longleftrightarrow> (\<exists>n \<in> set (tsSnapshots db). snSubmissionID n = sID s \<and> snProjectID n = eProjectID e \<and>
     snDate n = eDate e \<and> snReal n = eReal e \<and> snBillable n = eBillable e)"

definition hoursOk :: "Entry \<Rightarrow> bool" where
  "hoursOk e \<longleftrightarrow> 0 \<le> eReal e \<and> eReal e \<le> 24 \<and> 0 \<le> eBillable e \<and> eBillable e \<le> 24"

text \<open>A draft is free; a submitted entry waits for a current submission of its week; an approved
  one was approved by the approver of a submission of its week; and what left the draft state is on
  record, hours included, in the snapshot of a submission of its week.\<close>

definition entryOk :: "tsDB \<Rightarrow> Entry \<Rightarrow> bool" where
  "entryOk db e \<longleftrightarrow>
     hoursOk e \<and> eProjectID e \<in> pID ` set (tsProjects db) \<and>
     eStatus e \<in> {''draft'', ''submitted'', ''approved''} \<and>
     (eStatus e \<noteq> ''draft'' \<longrightarrow> (\<exists>s \<in> set (tsSubmissions db). covers s e \<and> recordedIn db s e)) \<and>
     (eStatus e = ''submitted'' \<longrightarrow>
        (\<exists>s \<in> set (tsSubmissions db). covers s e \<and> sCurrent s \<and> sStatus s = ''submitted'')) \<and>
     (eStatus e = ''approved'' \<longrightarrow>
        (\<exists>s \<in> set (tsSubmissions db). covers s e \<and> sStatus s = ''approved'' \<and> sDecidedBy s = Some (sApproverKcSub s)))"

definition sameWeek :: "Submission \<Rightarrow> Submission \<Rightarrow> bool" where
  "sameWeek s t \<longleftrightarrow> sCompanyID s = sCompanyID t \<and> sMemberID s = sMemberID t \<and> sWeekStart s = sWeekStart t"

text \<open>A submission is undecided, or decided by its own approver, a rejection with a reason; its
  version follows that of the superseded submission it names, which is no longer current; its
  idempotency key is bound to its payload.\<close>

definition submissionOk :: "(string \<Rightarrow> string) \<Rightarrow> (int \<Rightarrow> string) \<Rightarrow> tsDB \<Rightarrow> Submission \<Rightarrow> bool" where
  "submissionOk sha fmtDay db s \<longleftrightarrow>
     (sStatus s = ''submitted'' \<and> sDecidedBy s = None \<or>
      sStatus s = ''approved'' \<and> sDecidedBy s = Some (sApproverKcSub s) \<or>
      sStatus s = ''rejected'' \<and> sDecidedBy s = Some (sApproverKcSub s) \<and> (\<exists>r. sRejectReason s = Some r \<and> r \<noteq> [])) \<and>
     (case sSupersedes s of
        None \<Rightarrow> sVersion s = 1
      | Some p \<Rightarrow> \<exists>t \<in> set (tsSubmissions db). sID t = p \<and> sameWeek t s \<and> \<not> sCurrent t \<and>
          sVersion s = sVersion t + 1 \<and> sRootID s = sRootID t) \<and>
     sIdemHash s = map_option (\<lambda>_. submissionIdempotencyPayloadHash sha fmtDay (sCompanyID s) (sMemberID s) (sWeekStart s))
       (sIdemKey s)"

definition keysOk :: "tsDB \<Rightarrow> bool" where
  "keysOk db \<longleftrightarrow> distinct (map pID (tsProjects db)) \<and> distinct (map eID (tsEntries db)) \<and>
     distinct (map entryKey (tsEntries db)) \<and> distinct (map sID (tsSubmissions db))"

text \<open>Two submissions that the partial unique indexes keep apart.\<close>

definition rivals :: "Submission \<Rightarrow> Submission \<Rightarrow> bool" where
  "rivals s t \<longleftrightarrow> sameWeek s t \<and> sCurrent s \<and> sCurrent t \<or>
     sCompanyID s = sCompanyID t \<and> sMemberID s = sMemberID t \<and> sIdemKey s \<noteq> None \<and> sIdemKey s = sIdemKey t"

lemma rivals_sym: "rivals s t \<Longrightarrow> rivals t s"
  by (auto simp: rivals_def sameWeek_def)

definition uniqueOk :: "tsDB \<Rightarrow> bool" where
  "uniqueOk db \<longleftrightarrow> (\<forall>s \<in> set (tsSubmissions db). \<forall>t \<in> set (tsSubmissions db). rivals s t \<longrightarrow> s = t)"

definition tsInv :: "(string \<Rightarrow> string) \<Rightarrow> (int \<Rightarrow> string) \<Rightarrow> tsDB \<Rightarrow> bool" where
  "tsInv sha fmtDay db \<longleftrightarrow> keysOk db \<and> uniqueOk db \<and> (\<forall>e \<in> set (tsEntries db). entryOk db e) \<and>
     (\<forall>s \<in> set (tsSubmissions db). submissionOk sha fmtDay db s)"

lemma tsInv_empty: "tsInv sha fmtDay emptyTimesheets"
  by (simp add: tsInv_def keysOk_def uniqueOk_def emptyTimesheets_def)

text \<open>What never changes of a submission, and in which direction the rest moves.\<close>

definition evolves :: "Submission \<Rightarrow> Submission \<Rightarrow> bool" where
  "evolves s s' \<longleftrightarrow> sID s' = sID s \<and> sameWeek s s' \<and> sVersion s' = sVersion s \<and> sRootID s' = sRootID s \<and>
     sSupersedes s' = sSupersedes s \<and> sApproverMemberID s' = sApproverMemberID s \<and>
     sApproverKcSub s' = sApproverKcSub s \<and> sSubmittedBy s' = sSubmittedBy s \<and>
     sIdemKey s' = sIdemKey s \<and> sIdemHash s' = sIdemHash s \<and> (sCurrent s' \<longrightarrow> sCurrent s) \<and>
     (sStatus s \<noteq> ''submitted'' \<longrightarrow> sStatus s' = sStatus s \<and> sDecidedBy s' = sDecidedBy s \<and>
        sRejectReason s' = sRejectReason s)"

lemma evolves_refl [simp]: "evolves s s"
  by (simp add: evolves_def sameWeek_def)

lemma evolves_trans: "evolves s t \<Longrightarrow> evolves t u \<Longrightarrow> evolves s u"
  by (auto simp: evolves_def sameWeek_def)

lemma evolves_retire [simp]: "evolves s (retire p s)"
  by (simp add: evolves_def sameWeek_def retire_current)

lemma evolves_covers: "evolves s s' \<Longrightarrow> covers s' e = covers s e"
  by (simp add: evolves_def sameWeek_def covers_def)

lemma distinct_sID:
  "keysOk db \<Longrightarrow> s \<in> set (tsSubmissions db) \<Longrightarrow> t \<in> set (tsSubmissions db) \<Longrightarrow> sID s = sID t \<Longrightarrow> s = t"
  by (auto simp: keysOk_def distinct_map inj_on_def)

definition historyKept :: "tsDB \<Rightarrow> tsDB \<Rightarrow> bool" where
  "historyKept db db' \<longleftrightarrow> (\<forall>s \<in> set (tsSubmissions db). \<exists>s' \<in> set (tsSubmissions db'). evolves s s') \<and>
     set (tsSnapshots db) \<subseteq> set (tsSnapshots db')"

lemma historyKept_trans: "historyKept a b \<Longrightarrow> historyKept b c \<Longrightarrow> historyKept a c"
  unfolding historyKept_def by (meson evolves_trans subset_trans)

lemma decided_evolves:
  "sStatus s = ''submitted'' \<Longrightarrow> evolves s (decided approve actor reason s)"
  by (simp add: evolves_def sameWeek_def decided_def)

lemma tsStep_history:
  assumes keys: "keysOk db" and step: "tsStep num sha fmtDay db db'"
  shows "historyKept db db'"
  using step
proof (cases rule: tsStep_cases)
  case frame
  then show ?thesis by (auto simp: historyKept_def workTables_def intro: evolves_refl)
next
  case upsert
  from UpsertEntry_result(8,9) [OF upsert(1)] show ?thesis by (auto simp: historyKept_def intro: evolves_refl)
next
  case delete
  from DeleteEntry_effect(3,4) [OF this] show ?thesis by (auto simp: historyKept_def intro: evolves_refl)
next
  case submit
  from submitTx_effect(1,2) [OF this] show ?thesis by (auto simp: historyKept_def intro!: bexI evolves_retire)
next
  case (decide actor company submission approve reason r)
  then obtain s where s: "s \<in> set (tsSubmissions db)" "sID s = submission" "sStatus s = ''submitted''"
    and subs: "tsSubmissions db' = map (\<lambda>x. if sID x = submission \<and> sCompanyID x = company
        then decided approve actor reason x else x) (tsSubmissions db)"
    and snaps: "tsSnapshots db' = tsSnapshots db"
    by (rule decideSubmission_effect) blast
  have "evolves x (if sID x = submission \<and> sCompanyID x = company then decided approve actor reason x else x)"
    if "x \<in> set (tsSubmissions db)" for x
    using that s distinct_sID [OF keys that s(1)] by (auto intro: decided_evolves)
  then show ?thesis unfolding historyKept_def subs snaps by (simp only: set_map) blast
qed

section \<open>Every step keeps the invariant\<close>

lemma evolves_recorded:
  assumes "historyKept db db'" and "s \<in> set (tsSubmissions db)" and "covers s e" and "recordedIn db s e"
  shows "\<exists>s' \<in> set (tsSubmissions db'). covers s' e \<and> recordedIn db' s' e"
proof -
  from assms obtain s' where s': "s' \<in> set (tsSubmissions db')" "evolves s s'"
    by (auto simp: historyKept_def)
  moreover have "recordedIn db' s' e"
    using assms s' by (auto simp: recordedIn_def historyKept_def evolves_def)
  ultimately show ?thesis using assms evolves_covers by blast
qed

lemma evolves_approved:
  assumes "historyKept db db'" and "s \<in> set (tsSubmissions db)" and "covers s e"
    and "sStatus s = ''approved''" and "sDecidedBy s = Some (sApproverKcSub s)"
  shows "\<exists>s' \<in> set (tsSubmissions db'). covers s' e \<and> sStatus s' = ''approved'' \<and> sDecidedBy s' = Some (sApproverKcSub s')"
proof -
  from assms obtain s' where s': "s' \<in> set (tsSubmissions db')" "evolves s s'"
    by (auto simp: historyKept_def)
  then show ?thesis using assms evolves_covers [OF s'(2)] by (intro bexI [of _ s']) (auto simp: evolves_def)
qed

text \<open>Entries that stay as they are, with their waiting submission if they have one, stay correct.\<close>

lemma entryOk_kept:
  assumes ok: "entryOk db e" and hist: "historyKept db db'"
    and projects: "pID ` set (tsProjects db) \<subseteq> pID ` set (tsProjects db')"
    and waiting: "eStatus e = ''submitted'' \<Longrightarrow>
      \<exists>s \<in> set (tsSubmissions db'). covers s e \<and> sCurrent s \<and> sStatus s = ''submitted''"
  shows "entryOk db' e"
  using ok projects waiting evolves_recorded [OF hist, of _ e] evolves_approved [OF hist, of _ e]
  unfolding entryOk_def by blast

lemma entryOk_draft:
  "eStatus e = ''draft'' \<Longrightarrow> hoursOk e \<Longrightarrow> eProjectID e \<in> pID ` set (tsProjects db) \<Longrightarrow> entryOk db e"
  by (simp add: entryOk_def)

text \<open>The chain of versions and the payload hash survive any evolution of the table.\<close>

lemma submissionOk_kept:
  assumes ok: "submissionOk sha fmtDay db s" and hist: "historyKept db db'" and ev: "evolves s s'"
    and dec: "sStatus s = ''submitted'' \<Longrightarrow> sStatus s' = ''submitted'' \<and> sDecidedBy s' = None \<or>
      sStatus s' = ''approved'' \<and> sDecidedBy s' = Some (sApproverKcSub s') \<or>
      sStatus s' = ''rejected'' \<and> sDecidedBy s' = Some (sApproverKcSub s') \<and> (\<exists>r. sRejectReason s' = Some r \<and> r \<noteq> [])"
  shows "submissionOk sha fmtDay db' s'"
proof -
  have chain: "\<exists>t' \<in> set (tsSubmissions db'). sID t' = p \<and> sameWeek t' s' \<and> \<not> sCurrent t' \<and>
      sVersion s' = sVersion t' + 1 \<and> sRootID s' = sRootID t'"
    if "t \<in> set (tsSubmissions db)" "sID t = p" "sameWeek t s" "\<not> sCurrent t" "sVersion s = sVersion t + 1"
      "sRootID s = sRootID t" for t p
  proof -
    from that hist obtain t' where "t' \<in> set (tsSubmissions db')" "evolves t t'"
      by (auto simp: historyKept_def)
    then show ?thesis using that ev by (intro bexI [of _ t']) (auto simp: evolves_def sameWeek_def)
  qed
  have status: "sStatus s' = ''submitted'' \<and> sDecidedBy s' = None \<or>
      sStatus s' = ''approved'' \<and> sDecidedBy s' = Some (sApproverKcSub s') \<or>
      sStatus s' = ''rejected'' \<and> sDecidedBy s' = Some (sApproverKcSub s') \<and> (\<exists>r. sRejectReason s' = Some r \<and> r \<noteq> [])"
    using ok dec ev by (cases "sStatus s = ''submitted''") (auto simp: submissionOk_def evolves_def)
  have week: "sCompanyID s' = sCompanyID s" "sMemberID s' = sMemberID s" "sWeekStart s' = sWeekStart s"
    "sSupersedes s' = sSupersedes s" "sVersion s' = sVersion s" "sIdemKey s' = sIdemKey s" "sIdemHash s' = sIdemHash s"
    using ev by (auto simp: evolves_def sameWeek_def)
  show ?thesis
    unfolding submissionOk_def week
    using status ok chain
    by (cases "sSupersedes s") (auto simp: submissionOk_def week [symmetric])
qed

text \<open>Each part of the invariant reads only some tables.\<close>

lemma uniqueOk_cong: "tsSubmissions db' = tsSubmissions db \<Longrightarrow> uniqueOk db' = uniqueOk db"
  by (simp only: uniqueOk_def)

lemma submissionOk_cong:
  "tsSubmissions db' = tsSubmissions db \<Longrightarrow> submissionOk sha fmtDay db' s = submissionOk sha fmtDay db s"
  by (simp only: submissionOk_def)

lemma entryOk_grow:
  assumes "entryOk db e" and "tsSubmissions db' = tsSubmissions db" and "tsSnapshots db' = tsSnapshots db"
    and "pID ` set (tsProjects db) \<subseteq> pID ` set (tsProjects db')"
  shows "entryOk db' e"
  using assms(1,4) unfolding entryOk_def recordedIn_def assms(2,3) by blast

text \<open>A change of the entry or project table alone keeps the invariant when the keys and the
  entries do.\<close>

lemma tsInv_entries:
  assumes inv: "tsInv sha fmtDay db" and subs: "tsSubmissions db' = tsSubmissions db"
    and keys: "distinct (map pID (tsProjects db'))" "distinct (map eID (tsEntries db'))"
      "distinct (map entryKey (tsEntries db'))"
    and ents: "\<And>e. e \<in> set (tsEntries db') \<Longrightarrow> entryOk db' e"
  shows "tsInv sha fmtDay db'"
proof -
  have "keysOk db'" using inv keys subs by (simp add: tsInv_def keysOk_def)
  moreover have "\<forall>s \<in> set (tsSubmissions db'). submissionOk sha fmtDay db' s"
    using inv unfolding tsInv_def submissionOk_cong [OF subs] subs by blast
  ultimately show ?thesis using inv ents uniqueOk_cong [OF subs] unfolding tsInv_def by blast
qed

lemma tsInv_entryOk: "tsInv sha fmtDay db \<Longrightarrow> e \<in> set (tsEntries db) \<Longrightarrow> entryOk db e"
  unfolding tsInv_def by blast

lemma tsInv_submissionOk: "tsInv sha fmtDay db \<Longrightarrow> s \<in> set (tsSubmissions db) \<Longrightarrow> submissionOk sha fmtDay db s"
  unfolding tsInv_def by blast

lemma tsInv_keys:
  assumes "tsInv sha fmtDay db"
  shows "keysOk db" "distinct (map pID (tsProjects db))" "distinct (map eID (tsEntries db))"
    "distinct (map entryKey (tsEntries db))" "distinct (map sID (tsSubmissions db))"
  using assms unfolding tsInv_def keysOk_def by blast+

lemma tsInv_frame:
  assumes inv: "tsInv sha fmtDay db" and work: "workTables db' = workTables db"
    and projects: "pID ` set (tsProjects db) \<subseteq> pID ` set (tsProjects db')" "distinct (map pID (tsProjects db'))"
  shows "tsInv sha fmtDay db'"
proof -
  have same: "tsEntries db' = tsEntries db" "tsSubmissions db' = tsSubmissions db" "tsSnapshots db' = tsSnapshots db"
    using work by (simp_all add: workTables_def)
  show ?thesis
  proof (rule tsInv_entries [OF inv same(2) projects(2)])
    show "distinct (map eID (tsEntries db'))" "distinct (map entryKey (tsEntries db'))"
      unfolding same by (rule tsInv_keys [OF inv])+
    show "entryOk db' e" if "e \<in> set (tsEntries db')" for e
      using tsInv_entryOk [OF inv] that same projects(1) entryOk_grow by metis
  qed
qed

lemma tsInv_upsert:
  assumes inv: "tsInv sha fmtDay db"
    and up: "UpsertEntry num now newID cfgRead prjRead lk actor company member project entryDate actual billable db = Inr (e, db')"
      "lockHeld lk db (company, member, project, dayOf entryDate)"
  shows "tsInv sha fmtDay db'"
proof -
  note res = UpsertEntry_result [OF up(1)]
  note dist = tsInv_keys(2-4) [OF inv]
  have new: "entryOk db' e" using res by (intro entryOk_draft) (auto simp: hoursOk_def)
  have old: "entryOk db' x" if "x \<in> set (tsEntries db)" for x
    using entryOk_grow [OF tsInv_entryOk [OF inv that] res(8,9)] res(7) by simp
  have keys: "distinct (map eID (tsEntries db')) \<and> distinct (map entryKey (tsEntries db')) \<and>
      set (tsEntries db') \<subseteq> insert e (set (tsEntries db))"
    using up
  proof (cases rule: UpsertEntry_effect)
    case 1
    then show ?thesis using dist by auto
  next
    case (2 old)
    have "eID x = eID old" if "x \<in> set (tsEntries db)" "entryKey x = entryKey old" for x
      using that 2(1) dist(3) by (auto simp: distinct_map inj_on_def)
    then have maps: "map eID (tsEntries db') = map eID (tsEntries db)" "map entryKey (tsEntries db') = map entryKey (tsEntries db)"
      using 2(3,5) by (auto simp: sameIdentity_def)
    have "set (tsEntries db') \<subseteq> insert e (set (tsEntries db))" unfolding 2(5) by auto
    then show ?thesis unfolding maps using dist by simp
  qed
  show ?thesis
    by (rule tsInv_entries [OF inv res(8)]) (use keys dist res(7) new old in auto)
qed

lemma tsInv_delete:
  assumes inv: "tsInv sha fmtDay db" and del: "DeleteEntry actor company member entry db = Inr db'"
  shows "tsInv sha fmtDay db'"
proof -
  note res = DeleteEntry_effect(1-4) [OF del]
  note dist = tsInv_keys(2-4) [OF inv]
  show ?thesis
  proof (rule tsInv_entries [OF inv res(3)])
    show "entryOk db' e" if "e \<in> set (tsEntries db')" for e
      using entryOk_grow [OF tsInv_entryOk [OF inv] res(3,4)] that res(1,2) by simp
  qed (use dist res in \<open>simp_all add: distinct_map_filter\<close>)
qed

lemma tsInv_decide:
  assumes inv: "tsInv sha fmtDay db"
    and dec: "decideSubmission actor company submission approve reason db = Inr (r, db')"
    and hist: "historyKept db db'"
  shows "tsInv sha fmtDay db'"
  using dec
proof (rule decideSubmission_effect)
  fix s
  assume s: "s \<in> set (tsSubmissions db)" "sID s = submission" "sCompanyID s = company" "sApproverKcSub s = actor"
      "sCurrent s" "sStatus s = ''submitted''" "approve \<or> reason \<noteq> []"
    and subs: "tsSubmissions db' = map (\<lambda>x. if sID x = submission \<and> sCompanyID x = company
        then decided approve actor reason x else x) (tsSubmissions db)"
    and ents: "tsEntries db' = map (\<lambda>e. if inWeek company (sMemberID s) (sWeekStart s) e \<and> eStatus e = ''submitted''
        then e\<lparr>eStatus := (if approve then ''approved'' else ''draft'')\<rparr> else e) (tsEntries db)"
    and same: "tsSnapshots db' = tsSnapshots db" "tsProjects db' = tsProjects db"
  define s' where "s' = decided approve actor reason s"
  note keys = tsInv_keys(1) [OF inv]
  have upd: "(if sID x = submission \<and> sCompanyID x = company then decided approve actor reason x else x) =
      (if x = s then s' else x)" if "x \<in> set (tsSubmissions db)" for x
    using that s(2,3) distinct_sID [OF keys that s(1)] unfolding s'_def by metis
  have subs': "tsSubmissions db' = map (\<lambda>x. if x = s then s' else x) (tsSubmissions db)"
    using upd unfolding subs by simp
  have ev: "evolves s s'" using s by (simp add: s'_def decided_evolves)
  have s'_in: "s' \<in> set (tsSubmissions db')" using s subs' by auto
  have entries: "entryOk db' e" if e: "e \<in> set (tsEntries db')" for e
  proof -
    from e obtain x where x: "x \<in> set (tsEntries db)" and e_eq: "e = (if covers s x \<and> eStatus x = ''submitted''
        then x\<lparr>eStatus := (if approve then ''approved'' else ''draft'')\<rparr> else x)"
      using s unfolding ents covers_def by auto
    note okx = tsInv_entryOk [OF inv x]
    show ?thesis
    proof (cases "covers s x \<and> eStatus x = ''submitted''")
      case True
      then have e: "e = x\<lparr>eStatus := (if approve then ''approved'' else ''draft'')\<rparr>" using e_eq by simp
      from okx True obtain u where "u \<in> set (tsSubmissions db)" "covers u x" "recordedIn db u x"
        by (auto simp: entryOk_def)
      from evolves_recorded [OF hist this]
      obtain t where "t \<in> set (tsSubmissions db')" "covers t x" "recordedIn db' t x" by blast
      then have rec: "\<exists>t \<in> set (tsSubmissions db'). covers t e \<and> recordedIn db' t e"
        by (intro bexI [of _ t]) (auto simp: e covers_def inWeek_def recordedIn_def)
      have "covers s' e" using True evolves_covers [OF ev, of x] by (simp add: e covers_def inWeek_def)
      moreover have "hoursOk e" "eProjectID e \<in> pID ` set (tsProjects db')"
        using okx same by (simp_all add: entryOk_def hoursOk_def e)
      moreover have "approve \<Longrightarrow> sStatus s' = ''approved'' \<and> sDecidedBy s' = Some (sApproverKcSub s')"
        using s by (simp add: s'_def decided_def)
      moreover have "eStatus e = (if approve then ''approved'' else ''draft'')" by (simp add: e)
      ultimately show ?thesis using rec s'_in by (cases approve) (auto simp: entryOk_def)
    next
      case False
      then have "e = x" using e_eq by auto
      moreover have "\<exists>t \<in> set (tsSubmissions db'). covers t x \<and> sCurrent t \<and> sStatus t = ''submitted''"
        if st: "eStatus x = ''submitted''"
      proof -
        obtain t where t: "t \<in> set (tsSubmissions db)" "covers t x" "sCurrent t" "sStatus t = ''submitted''"
          using okx st by (auto simp: entryOk_def)
        then have "t \<noteq> s" using False st by auto
        then show ?thesis using t subs' by (intro bexI [of _ t]) auto
      qed
      ultimately show ?thesis using okx same by (intro entryOk_kept [OF _ hist]) auto
    qed
  qed
  have submissions: "submissionOk sha fmtDay db' t" if t: "t \<in> set (tsSubmissions db')" for t
  proof -
    from t obtain x where x: "x \<in> set (tsSubmissions db)" "t = (if x = s then s' else x)" using subs' by auto
    note okx = tsInv_submissionOk [OF inv x(1)]
    show ?thesis
    proof (rule submissionOk_kept [OF okx hist])
      show "evolves x t" using x ev by simp
      show "sStatus t = ''submitted'' \<and> sDecidedBy t = None \<or>
        sStatus t = ''approved'' \<and> sDecidedBy t = Some (sApproverKcSub t) \<or>
        sStatus t = ''rejected'' \<and> sDecidedBy t = Some (sApproverKcSub t) \<and> (\<exists>r. sRejectReason t = Some r \<and> r \<noteq> [])"
        if "sStatus x = ''submitted''"
        using that x(2) s(4,7) okx by (cases "x = s") (auto simp: s'_def decided_def submissionOk_def)
    qed
  qed
  have "map sID (tsSubmissions db') = map sID (tsSubmissions db)" using ev subs' by (auto simp: evolves_def)
  moreover have "map eID (tsEntries db') = map eID (tsEntries db)" "map entryKey (tsEntries db') = map entryKey (tsEntries db)"
    unfolding ents by (auto simp: entryKey_def)
  ultimately have "keysOk db'" using keys same by (simp add: keysOk_def)
  moreover have "uniqueOk db'"
  proof -
    have fields: "rivals (if x = s then s' else x) (if y = s then s' else y) = rivals x y" for x y
      by (simp add: s'_def decided_def sameWeek_def rivals_def)
    have "uniqueOk db" using inv unfolding tsInv_def by blast
    then show ?thesis unfolding uniqueOk_def subs' by (simp only: set_map ball_simps fields) blast
  qed
  ultimately show ?thesis using entries submissions unfolding tsInv_def by blast
qed

lemma tsInv_submit:
  assumes inv: "tsInv sha fmtDay db"
    and tx: "submitTx newID newRoot actor company member weekStart key
      (map_option (\<lambda>_. submissionIdempotencyPayloadHash sha fmtDay company member weekStart) key) approver db = Inr (sub, db')"
    and hist: "historyKept db db'"
  shows "tsInv sha fmtDay db'"
proof -
  define prev where "prev = find (isCurrentFor company member weekStart) (tsSubmissions db)"
  define drafts where "drafts = draftEntries db company member weekStart"
  note eff = submitTx_effect [OF tx, folded prev_def drafts_def]
  note keys = tsInv_keys [OF inv]
  have prevD: "p \<in> set (tsSubmissions db) \<and> isCurrentFor company member weekStart p" if "prev = Some p" for p
    using that by (auto simp: prev_def find_Some_iff)
  have sub_in: "sub \<in> set (tsSubmissions db')" unfolding eff(1) by simp
  have entries: "entryOk db' e" if e: "e \<in> set (tsEntries db')" for e
  proof -
    from e obtain x where x: "x \<in> set (tsEntries db)"
      and e_eq: "e = (if eID x \<in> eID ` set drafts then x\<lparr>eStatus := ''submitted''\<rparr> else x)"
      unfolding eff(3) by auto
    note okx = tsInv_entryOk [OF inv x]
    show ?thesis
    proof (cases "eID x \<in> eID ` set drafts")
      case True
      then obtain y where "y \<in> set drafts" "eID y = eID x" by auto
      moreover have "set drafts \<subseteq> set (tsEntries db)" by (auto simp: drafts_def draftEntries_def)
      ultimately have d: "x \<in> set drafts" using keys(3) x by (auto simp: distinct_map inj_on_def)
      then have week: "inWeek company member weekStart x" by (simp add: drafts_def draftEntries_def)
      have e: "e = x\<lparr>eStatus := ''submitted''\<rparr>" using True e_eq by simp
      have "covers sub e" using week eff(7-9) by (simp add: covers_def e inWeek_def)
      moreover have "recordedIn db' sub e"
        unfolding recordedIn_def eff(2) using d eff(5)
        by (intro bexI [of _ "snapshotOf db newID x"]) (auto simp: snapshotOf_def e Let_def)
      moreover have "hoursOk e" "eProjectID e \<in> pID ` set (tsProjects db')"
        using okx eff(4) by (simp_all add: entryOk_def hoursOk_def e)
      ultimately show ?thesis using sub_in eff(10,11) by (auto simp: entryOk_def e)
    next
      case False
      then have "e = x" using e_eq by simp
      moreover have "\<exists>t \<in> set (tsSubmissions db'). covers t x \<and> sCurrent t \<and> sStatus t = ''submitted''"
        if st: "eStatus x = ''submitted''"
      proof -
        obtain t where t: "t \<in> set (tsSubmissions db)" "covers t x" "sCurrent t" "sStatus t = ''submitted''"
          using okx st by (auto simp: entryOk_def)
        show ?thesis
        proof (cases "map_option sID prev = Some (sID t)")
          case True
          then have "isCurrentFor company member weekStart t"
            using prevD t(1) distinct_sID [OF keys(1)] by (cases prev) auto
          then have "covers sub x" using t(2) eff(7-9) by (simp add: covers_def isCurrentFor_def)
          then show ?thesis using sub_in eff(10,11) by blast
        next
          case False
          then have "retire prev t = t" by (rule retire_same)
          then have "t \<in> set (tsSubmissions db')" using t(1) unfolding eff(1) by force
          then show ?thesis using t by blast
        qed
      qed
      ultimately show ?thesis using entryOk_kept [OF okx hist] eff(4) by simp
    qed
  qed
  have new: "submissionOk sha fmtDay db' sub"
  proof (cases prev)
    case None
    then show ?thesis using eff(7-9,11-17) by (simp add: submissionOk_def)
  next
    case (Some p)
    have "retire prev p \<in> set (tsSubmissions db')" using prevD [OF Some] unfolding eff(1) by simp
    moreover have "sameWeek (retire prev p) sub"
      using prevD [OF Some] eff(7-9) by (simp add: sameWeek_def isCurrentFor_def)
    moreover have "\<not> sCurrent (retire prev p)" by (simp add: retire_current Some)
    ultimately have "\<exists>t \<in> set (tsSubmissions db'). sID t = sID p \<and> sameWeek t sub \<and> \<not> sCurrent t \<and>
          sVersion sub = sVersion t + 1 \<and> sRootID sub = sRootID t"
      using eff(17,18) Some by (intro bexI [of _ "retire prev p"]) auto
    then show ?thesis using eff(7-9,11-16) Some by (simp add: submissionOk_def)
  qed
  have submissions: "submissionOk sha fmtDay db' t" if t: "t \<in> set (tsSubmissions db')" for t
  proof (cases "t = sub")
    case True
    then show ?thesis using new by simp
  next
    case False
    then obtain x where x: "x \<in> set (tsSubmissions db)" "t = retire prev x" using t unfolding eff(1) by auto
    note okx = tsInv_submissionOk [OF inv x(1)]
    show ?thesis
      using x(2) okx by (intro submissionOk_kept [OF okx hist]) (auto simp: submissionOk_def)
  qed
  have "map sID (tsSubmissions db') = map sID (tsSubmissions db) @ [newID]" unfolding eff(1) using eff(5) by simp
  moreover have "map eID (tsEntries db') = map eID (tsEntries db)" "map entryKey (tsEntries db') = map entryKey (tsEntries db)"
    unfolding eff(3) by (auto simp: entryKey_def)
  ultimately have "keysOk db'" using keys eff(4,6) by (simp add: keysOk_def)
  moreover have "uniqueOk db'"
  proof -
    have old: "uniqueOk db" using inv unfolding tsInv_def by blast
    have pair: "x = y" if xy: "x \<in> retire prev ` set (tsSubmissions db)" "y \<in> retire prev ` set (tsSubmissions db)"
      and riv: "rivals x y" for x y
    proof -
      from xy obtain a b where ab: "a \<in> set (tsSubmissions db)" "x = retire prev a"
        "b \<in> set (tsSubmissions db)" "y = retire prev b" by auto
      with riv have "rivals a b" by (auto simp: rivals_def sameWeek_def retire_current)
      then show ?thesis using old ab unfolding uniqueOk_def by blast
    qed
    have fresh: "\<not> rivals x sub" if "x \<in> retire prev ` set (tsSubmissions db)" for x
      using that eff(7-9,14,21,22) by (auto simp: rivals_def isCurrentFor_def sameWeek_def)
    have "set (tsSubmissions db') = insert sub (retire prev ` set (tsSubmissions db))" unfolding eff(1) by simp
    then show ?thesis unfolding uniqueOk_def using pair fresh rivals_sym by (metis insert_iff)
  qed
  ultimately show ?thesis using entries submissions unfolding tsInv_def by blast
qed

lemma tsInv_step:
  assumes inv: "tsInv sha fmtDay db" and step: "tsStep num sha fmtDay db db'"
  shows "tsInv sha fmtDay db'"
proof -
  note hist = tsStep_history [OF tsInv_keys(1) [OF inv] step]
  from step show ?thesis
  proof (cases rule: tsStep_cases)
    case frame
    show ?thesis by (rule tsInv_frame [OF inv frame(1,2) frame(3) [OF tsInv_keys(2) [OF inv]]])
  next
    case upsert
    then show ?thesis by (rule tsInv_upsert [OF inv])
  next
    case delete
    then show ?thesis by (rule tsInv_delete [OF inv])
  next
    case submit
    then show ?thesis by (rule tsInv_submit [OF inv _ hist])
  next
    case decide
    then show ?thesis by (rule tsInv_decide [OF inv _ hist])
  qed
qed

interpretation timesheet_system: invariant_system "tsStep num sha fmtDay" emptyTimesheets "tsInv sha fmtDay"
  for num sha fmtDay
  by unfold_locales (rule tsInv_empty, rule tsInv_step)

text \<open>What was decided stays decided.\<close>

lemma run_history:
  assumes run: "reaches (tsStep num sha fmtDay) db db'" and inv: "tsInv sha fmtDay db"
  shows "historyKept db db'"
proof (rule timesheet_system.keeps_with_inv [OF run inv])
  show "historyKept db db" by (auto simp: historyKept_def intro: evolves_refl)
  show "historyKept db y" if "tsInv sha fmtDay x" "historyKept db x" "tsStep num sha fmtDay x y" for x y
    using that tsStep_history [OF tsInv_keys(1)] historyKept_trans by blast
qed

text \<open>An approved entry can only be changed by an upsert of its key that was overtaken: its locking
  read found no entry.\<close>

definition overtakenUpsert :: "(rat \<Rightarrow> rat) \<Rightarrow> uuid \<times> uuid \<times> uuid \<times> int \<Rightarrow> tsDB \<Rightarrow> tsDB \<Rightarrow> bool" where
  "overtakenUpsert num key db db' \<longleftrightarrow>
     (\<exists>now newID cfgRead prjRead lk actor company member project entryDate actual billable e.
        key = (company, member, project, dayOf entryDate) \<and> overtaken lk db key \<and>
        UpsertEntry num now newID cfgRead prjRead lk actor company member project entryDate actual billable db = Inr (e, db'))"

lemma overtakenUpsertI:
  "UpsertEntry num now newID cfgRead prjRead lk actor company member project entryDate actual billable db = Inr (e, db') \<Longrightarrow>
   overtaken lk db (company, member, project, dayOf entryDate) \<Longrightarrow>
   overtakenUpsert num (company, member, project, dayOf entryDate) db db'"
  unfolding overtakenUpsert_def by blast

lemma step_keeps_approved:
  assumes inv: "tsInv sha fmtDay db" and step: "tsStep num sha fmtDay db db'"
    and e: "e \<in> set (tsEntries db)" "eStatus e = ''approved''"
  shows "e \<in> set (tsEntries db') \<or> overtakenUpsert num (entryKey e) db db'"
  using step
proof (cases rule: tsStep_cases)
  case frame
  then show ?thesis using e by (simp add: workTables_def)
next
  case (upsert now newID cfgRead prjRead lk actor company member project entryDate actual billable e')
  then show ?thesis
  proof (cases rule: UpsertEntry_effect)
    case (2 old)
    show ?thesis
    proof (cases "entryKey e = entryKey old")
      case True
      then have "e = old" using e 2(1) tsInv_keys(4) [OF inv] by (auto simp: distinct_map inj_on_def)
      then show ?thesis
        using 2(2,3,4) e(2) overtakenUpsertI [OF upsert(1)] by (auto simp: sameIdentity_def)
    next
      case False
      then show ?thesis using e 2(5) by force
    qed
  qed (use e in simp)
next
  case (delete actor company member entry)
  obtain d where "d \<in> set (tsEntries db)" "eID d = entry" "eStatus d = ''draft''"
    using DeleteEntry_effect(5) [OF delete] by blast
  then have "eID e \<noteq> entry" using e tsInv_keys(3) [OF inv] by (auto simp: distinct_map inj_on_def)
  then show ?thesis using e DeleteEntry_effect(1) [OF delete] by simp
next
  case (submit newID newRoot actor company member weekStart key approver sub)
  have "eID e \<notin> eID ` set (draftEntries db company member weekStart)"
    using e tsInv_keys(3) [OF inv] by (auto simp: draftEntries_def distinct_map inj_on_def)
  then show ?thesis using e submitTx_effect(3) [OF submit] by force
next
  case (decide actor company submission approve reason s)
  then have "e \<in> set (tsEntries db')"
  proof (rule decideSubmission_effect)
    fix s
    assume "tsEntries db' = map (\<lambda>e. if inWeek company (sMemberID s) (sWeekStart s) e \<and> eStatus e = ''submitted''
        then e\<lparr>eStatus := (if approve then ''approved'' else ''draft'')\<rparr> else e) (tsEntries db)"
    then show ?thesis using e by force
  qed
  then show ?thesis ..
qed

definition rewritten :: "(rat \<Rightarrow> rat) \<Rightarrow> (string \<Rightarrow> string) \<Rightarrow> (int \<Rightarrow> string) \<Rightarrow> Entry \<Rightarrow> tsDB \<Rightarrow> tsDB \<Rightarrow> bool" where
  "rewritten num sha fmtDay e db db' \<longleftrightarrow> (\<exists>x y. reaches (tsStep num sha fmtDay) db x \<and> e \<in> set (tsEntries x) \<and>
     overtakenUpsert num (entryKey e) x y \<and> reaches (tsStep num sha fmtDay) y db')"

lemma run_keeps_approved:
  assumes run: "reaches (tsStep num sha fmtDay) db db'" and inv: "tsInv sha fmtDay db"
    and e: "e \<in> set (tsEntries db)" "eStatus e = ''approved''"
  shows "e \<in> set (tsEntries db') \<or> rewritten num sha fmtDay e db db'"
proof -
  let ?P = "\<lambda>z. reaches (tsStep num sha fmtDay) db z \<and> (e \<in> set (tsEntries z) \<or> rewritten num sha fmtDay e db z)"
  have "?P db'"
  proof (rule timesheet_system.keeps_with_inv [OF run inv])
    show "?P db" using e(1) by (simp add: reaches_refl)
    show "?P y" if "tsInv sha fmtDay x" "?P x" "tsStep num sha fmtDay x y" for x y
      using that step_keeps_approved [OF that(1,3) _ e(2)] unfolding rewritten_def
      by (meson reaches.intros)
  qed
  then show ?thesis ..
qed

text \<open>The approval itself stays on record.\<close>

definition approvalOnRecord :: "tsDB \<Rightarrow> Entry \<Rightarrow> bool" where
  "approvalOnRecord db e \<longleftrightarrow>
     (\<exists>s \<in> set (tsSubmissions db). covers s e \<and> sStatus s = ''approved'' \<and> sDecidedBy s = Some (sApproverKcSub s)) \<and>
     (\<exists>s \<in> set (tsSubmissions db). covers s e \<and> recordedIn db s e)"

lemma run_keeps_record:
  assumes run: "reaches (tsStep num sha fmtDay) db db'" and inv: "tsInv sha fmtDay db"
    and e: "e \<in> set (tsEntries db)" "eStatus e = ''approved''"
  shows "approvalOnRecord db' e"
  using tsInv_entryOk [OF inv e(1)] e(2) evolves_recorded [OF run_history [OF run inv], of _ e]
    evolves_approved [OF run_history [OF run inv], of _ e]
  unfolding approvalOnRecord_def entryOk_def by auto

section \<open>Replays\<close>

lemma SubmitWeek_created:
  assumes "SubmitWeek sha fmtDay newID newRoot pre asgRead actor company member weekStart key db = Inr ((sub, True), db')"
    and "key \<noteq> []"
  shows "\<exists>approver. submitTx newID newRoot actor company member weekStart (Some key)
    (Some (submissionIdempotencyPayloadHash sha fmtDay company member weekStart)) approver db = Inr (sub, db')"
  using assms by (auto simp: SubmitWeek_def Let_def rbind_Inr_iff split: option.splits if_splits)

lemma find_by_key:
  assumes inv: "tsInv sha fmtDay db" and s: "s \<in> set (tsSubmissions db)"
    and key: "sCompanyID s = company" "sMemberID s = member" "sIdemKey s = Some key"
  shows "findSubmissionByIdempotencyKey db company member key =
    Some (s, submissionIdempotencyPayloadHash sha fmtDay company member (sWeekStart s))"
proof -
  have "find (\<lambda>s. sCompanyID s = company \<and> sMemberID s = member \<and> sIdemKey s = Some key) (tsSubmissions db) \<noteq> None"
    using s key by (auto simp: find_None_iff)
  then obtain t where t: "find (\<lambda>s. sCompanyID s = company \<and> sMemberID s = member \<and> sIdemKey s = Some key)
      (tsSubmissions db) = Some t" by blast
  then have t': "t \<in> set (tsSubmissions db)" "sCompanyID t = company" "sMemberID t = member" "sIdemKey t = Some key"
    by (auto simp: find_Some_iff)
  have "rivals s t" using t' key by (simp add: rivals_def)
  then have "s = t" using inv s t'(1) unfolding tsInv_def uniqueOk_def by blast
  moreover have "sIdemHash s = Some (submissionIdempotencyPayloadHash sha fmtDay company member (sWeekStart s))"
    using tsInv_submissionOk [OF inv s] key by (simp add: submissionOk_def)
  ultimately show ?thesis using t by (simp add: findSubmissionByIdempotencyKey_def)
qed

section \<open>An example run\<close>

text \<open>Member \<open>m\<close> of company \<open>c\<close> with approver \<open>boss\<close>; day 4 (1970-01-05) is a Monday.
  The conversion to \<open>numeric\<close> and the hash are
  the identity here.\<close>

definition exNum :: "rat \<Rightarrow> rat" where "exNum x = x"

definition exSha :: "string \<Rightarrow> string" where "exSha x = x"

definition exProject :: Project where
  "exProject = \<lparr>pID = ''p'', pCompanyID = ''c'', pCode = ''OPS'', pName = ''Operations'', pStatus = ''active''\<rparr>"

definition exAssignment :: Assignment where
  "exAssignment = \<lparr>aCompanyID = ''c'', aMemberID = ''m'', aMemberKcSub = ''mia'', aApproverMemberID = ''b'',
     aApproverKcSub = ''boss'', aAssignedBy = ''adm''\<rparr>"

definition exEntry :: "uuid \<Rightarrow> int \<Rightarrow> string \<Rightarrow> Entry" where
  "exEntry i day status = \<lparr>eID = i, eCompanyID = ''c'', eMemberID = ''m'', eProjectID = ''p'', eDate = day,
     eReal = 6, eBillable = 4, eStatus = status\<rparr>"

definition exSubmission :: "uuid \<Rightarrow> int \<Rightarrow> uuid option \<Rightarrow> bool \<Rightarrow> string \<Rightarrow> Submission" where
  "exSubmission i version supersedes current status = \<lparr>sID = i, sCompanyID = ''c'', sMemberID = ''m'', sWeekStart = 4,
     sVersion = version, sRootID = ''root'', sSupersedes = supersedes, sCurrent = current, sStatus = status,
     sApproverMemberID = ''b'', sApproverKcSub = ''boss'', sSubmittedBy = ''mia'', sRejectReason = None,
     sDecidedBy = (if status = ''approved'' then Some ''boss'' else None), sIdemKey = Some (''key-'' @ i),
     sIdemHash = Some (''c'' @ [nul] @ ''m'' @ [nul] @ ''1970-01-05'')\<rparr>"

definition exSnapshot :: "uuid \<Rightarrow> int \<Rightarrow> Snapshot" where
  "exSnapshot i day = \<lparr>snSubmissionID = i, snProjectID = ''p'', snCode = ''OPS'', snName = ''Operations'', snDate = day,
     snReal = 6, snBillable = 4\<rparr>"

definition exState :: "Entry list \<Rightarrow> Submission list \<Rightarrow> Snapshot list \<Rightarrow> (string \<times> string \<times> uuid) list \<Rightarrow> tsDB" where
  "exState entries submissions snapshots events = \<lparr>tsConfigs = [], tsProjects = [exProject], tsEntries = entries,
     tsAssignments = [exAssignment], tsSubmissions = submissions, tsSnapshots = snapshots,
     tsAudit = [(''adm'', ''timesheet.project.create'', ''p''), (''adm'', ''timesheet.approver.assign'', ''c'')] @ events\<rparr>"

definition exOneDraft :: tsDB where
  "exOneDraft = exState [exEntry ''e1'' 4 ''draft''] [] [] [(''mia'', ''timesheet.entry.upsert'', ''e1'')]"

definition exOneSubmitted :: tsDB where
  "exOneSubmitted = exState [exEntry ''e1'' 4 ''submitted''] [exSubmission ''s1'' 1 None True ''submitted'']
     [exSnapshot ''s1'' 4] [(''mia'', ''timesheet.entry.upsert'', ''e1''), (''mia'', ''timesheet.submission.submit'', ''s1'')]"

definition exSecondDraft :: tsDB where
  "exSecondDraft = exState [exEntry ''e1'' 4 ''submitted'', exEntry ''e2'' 5 ''draft'']
     [exSubmission ''s1'' 1 None True ''submitted''] [exSnapshot ''s1'' 4]
     [(''mia'', ''timesheet.entry.upsert'', ''e1''), (''mia'', ''timesheet.submission.submit'', ''s1''),
      (''mia'', ''timesheet.entry.upsert'', ''e2'')]"

definition exTwoSubmitted :: tsDB where
  "exTwoSubmitted = exState [exEntry ''e1'' 4 ''submitted'', exEntry ''e2'' 5 ''submitted'']
     [exSubmission ''s1'' 1 None False ''submitted'', exSubmission ''s2'' 2 (Some ''s1'') True ''submitted'']
     [exSnapshot ''s1'' 4, exSnapshot ''s2'' 5]
     [(''mia'', ''timesheet.entry.upsert'', ''e1''), (''mia'', ''timesheet.submission.submit'', ''s1''),
      (''mia'', ''timesheet.entry.upsert'', ''e2''), (''mia'', ''timesheet.submission.submit'', ''s2'')]"

definition exApproved :: tsDB where
  "exApproved = exState [exEntry ''e1'' 4 ''approved'', exEntry ''e2'' 5 ''approved'']
     [exSubmission ''s1'' 1 None False ''submitted'', exSubmission ''s2'' 2 (Some ''s1'') True ''approved'']
     [exSnapshot ''s1'' 4, exSnapshot ''s2'' 5]
     [(''mia'', ''timesheet.entry.upsert'', ''e1''), (''mia'', ''timesheet.submission.submit'', ''s1''),
      (''mia'', ''timesheet.entry.upsert'', ''e2''), (''mia'', ''timesheet.submission.submit'', ''s2''),
      (''boss'', ''timesheet.submission.approve'', ''s2'')]"

abbreviation exSteps :: "tsDB \<Rightarrow> tsDB \<Rightarrow> bool" where
  "exSteps \<equiv> reaches (tsStep exNum exSha formatDate)"

lemmas ex_defs = exState_def exProject_def exAssignment_def exEntry_def exSubmission_def exSnapshot_def

lemma ex_start: "exSteps emptyTimesheets (exState [] [] [] [])"
proof -
  define db where "db = emptyTimesheets\<lparr>tsProjects := [exProject], tsAudit := [(''adm'', ''timesheet.project.create'', ''p'')]\<rparr>"
  have "CreateProject ''p'' ''adm'' ''c'' ''OPS'' ''Operations'' [] emptyTimesheets = Inr (exProject, db)"
    unfolding db_def by code_simp
  moreover have "RecordApproverAssignment ''adm'' ''c'' ''m'' ''b'' ''mia'' ''boss'' db = (exAssignment, exState [] [] [] [])"
    unfolding db_def by code_simp
  ultimately show ?thesis
    by (meson reaches.intros tsStep.create_project tsStep.assign_approver)
qed

lemma ex_upsert1:
  "UpsertEntry exNum 345600 ''e1'' (Some (exState [] [] [] [])) (Some (exState [] [] [] [])) (exState [] [] [] []) ''mia'' ''c'' ''m'' ''p'' 345600 6 4
     (exState [] [] [] []) = Inr (exEntry ''e1'' 4 ''draft'', exOneDraft)"
  by code_simp

lemma ex_submit1:
  "SubmitWeek exSha formatDate ''s1'' ''root'' exOneDraft (Some exOneDraft) ''mia'' ''c'' ''m'' 4 ''key-s1'' exOneDraft =
     Inr ((exSubmission ''s1'' 1 None True ''submitted'', True), exOneSubmitted)"
  by code_simp

lemma ex_upsert2:
  "UpsertEntry exNum 345600 ''e2'' (Some exOneSubmitted) (Some exOneSubmitted) exOneSubmitted ''mia'' ''c'' ''m'' ''p'' 432000 6 4 exOneSubmitted =
     Inr (exEntry ''e2'' 5 ''draft'', exSecondDraft)"
  by code_simp

lemma ex_submit2:
  "SubmitWeek exSha formatDate ''s2'' ''root2'' exSecondDraft (Some exSecondDraft) ''mia'' ''c'' ''m'' 4 ''key-s2'' exSecondDraft =
     Inr ((exSubmission ''s2'' 2 (Some ''s1'') True ''submitted'', True), exTwoSubmitted)"
  by code_simp

lemma ex_approve2:
  "ApproveSubmission ''boss'' ''c'' ''s2'' exTwoSubmitted = Inr (exSubmission ''s2'' 2 (Some ''s1'') True ''approved'', exApproved)"
  by code_simp

text \<open>An upsert of the approved day 4 whose locking read ran before the entry existed.\<close>

definition exRewritten :: tsDB where
  "exRewritten = record_audit ''mia'' ''timesheet.entry.upsert'' ''e1''
     (exApproved\<lparr>tsEntries := [(exEntry ''e1'' 4 ''draft'')\<lparr>eReal := 8, eBillable := 8\<rparr>, exEntry ''e2'' 5 ''approved'']\<rparr>)"

lemma ex_overtaken:
  "UpsertEntry exNum 345600 ''e9'' (Some (exState [] [] [] [])) (Some (exState [] [] [] [])) (exState [] [] [] [])
     ''mia'' ''c'' ''m'' ''p'' 345600 8 8 exApproved =
     Inr ((exEntry ''e1'' 4 ''draft'')\<lparr>eReal := 8, eBillable := 8\<rparr>, exRewritten)"
  by code_simp

lemma ex_locks:
  "lockHeld (exState [] [] [] []) (exState [] [] [] []) (''c'', ''m'', ''p'', dayOf 345600)"
  "lockHeld exOneSubmitted exOneSubmitted (''c'', ''m'', ''p'', dayOf 432000)"
  "lockHeld (exState [] [] [] []) exApproved (''c'', ''m'', ''p'', dayOf 345600)"
  by code_simp+

lemma ex_runs:
  "exSteps emptyTimesheets exOneDraft" "exSteps emptyTimesheets exOneSubmitted" "exSteps exOneSubmitted exSecondDraft"
  "exSteps exSecondDraft exTwoSubmitted" "exSteps exTwoSubmitted exApproved"
proof -
  have one: "exSteps (exState [] [] [] []) exOneDraft" by (rule reaches_one, rule tsStep.upsert_entry, rule ex_upsert1, rule ex_locks)
  then show draft: "exSteps emptyTimesheets exOneDraft" using ex_start by (rule reaches_trans)
  show "exSteps emptyTimesheets exOneSubmitted"
    using draft by (rule reaches_trans [rotated]) (rule reaches_one, rule tsStep.submit_week, rule ex_submit1)
  show "exSteps exOneSubmitted exSecondDraft" by (rule reaches_one, rule tsStep.upsert_entry, rule ex_upsert2, rule ex_locks)
  show "exSteps exSecondDraft exTwoSubmitted" by (rule reaches_one, rule tsStep.submit_week, rule ex_submit2)
  show "exSteps exTwoSubmitted exApproved"
    by (rule reaches_one, rule tsStep.decide, rule ex_approve2 [unfolded ApproveSubmission_def])
qed

lemmas ex_run_two = reaches_trans [OF ex_runs(4) reaches_trans [OF ex_runs(3) ex_runs(2)]]

lemmas ex_run_all = reaches_trans [OF ex_runs(5) ex_run_two] ex_run_two

section \<open>Properties\<close>

text \<open>C19. In every state that committed store operations reach from empty tables, whatever the
  reads before each transaction saw and whatever commits between the locking read of an upsert and
  its insert, the workflow is consistent: keys are unique; a member has at
  most one current submission per week and one submission per idempotency key; the hours of every
  entry are within 0 and 24; a submitted entry has a current, undecided submission of its week; an
  approved entry lies in the week of a submission that its assigned approver approved; every entry
  that is not a draft is in the snapshot of a submission of its week with the same hours; each
  submission is undecided or was decided by its own approver, a rejection with a reason, and follows
  the superseded version it names with the same root.\<close>

theorem timesheet_consistent:
  assumes "reaches (tsStep num sha fmtDay) emptyTimesheets db"
  shows "tsInv sha fmtDay db"
  using assms by (rule timesheet_system.reachable_inv)

theorem timesheet_consistent_witness: "tsInv exSha formatDate exApproved"
  by (rule timesheet_consistent [OF ex_run_all(1)])

text \<open>C20. Decisions are final and history is immutable. Along every further run of the store every
  submission keeps its identity, week, version, approver, submitter and idempotency data, can only
  stop being current, and keeps its status, decider and reason once decided, and no snapshot row
  disappears; the approval of an entry and the hours approved stay on record. An approved entry
  itself stays in the table unchanged unless the run has an upsert of the same day and project that
  was overtaken: its locking read found no entry, so its draft guard was not checked against the
  approved one. Nothing else changes an approved entry.\<close>

theorem decisions_final:
  assumes "reaches (tsStep num sha fmtDay) emptyTimesheets db" and "reaches (tsStep num sha fmtDay) db db'"
  shows "historyKept db db' \<and>
    (\<forall>e \<in> set (tsEntries db). eStatus e = ''approved'' \<longrightarrow> approvalOnRecord db' e \<and>
       (e \<in> set (tsEntries db') \<or>
        (\<exists>x y. reaches (tsStep num sha fmtDay) db x \<and> e \<in> set (tsEntries x) \<and>
           overtakenUpsert num (entryKey e) x y \<and> reaches (tsStep num sha fmtDay) y db')))"
proof -
  note inv = timesheet_system.reachable_inv [OF assms(1)]
  show ?thesis
    using run_history [OF assms(2) inv] run_keeps_record [OF assms(2) inv] run_keeps_approved [OF assms(2) inv]
    unfolding rewritten_def by blast
qed

theorem decisions_final_witness:
  "historyKept exApproved exRewritten \<and> approvalOnRecord exRewritten (exEntry ''e1'' 4 ''approved'') \<and>
   exEntry ''e1'' 4 ''approved'' \<notin> set (tsEntries exRewritten)"
proof -
  have run: "exSteps exApproved exRewritten"
    by (rule reaches_one, rule tsStep.upsert_entry, rule ex_overtaken, rule ex_locks)
  have "exEntry ''e1'' 4 ''approved'' \<in> set (tsEntries exApproved)" "eStatus (exEntry ''e1'' 4 ''approved'') = ''approved''"
    by (simp_all add: exApproved_def exState_def exEntry_def)
  moreover have "exEntry ''e1'' 4 ''approved'' \<notin> set (tsEntries exRewritten)"
    by (simp add: exRewritten_def record_audit_def exEntry_def)
  ultimately show ?thesis using decisions_final [OF ex_run_all(1) run] by blast
qed

text \<open>The payload that a key is bound to: its company, member and week.\<close>

definition weekPayload :: "uuid \<Rightarrow> uuid \<Rightarrow> int \<Rightarrow> string" where
  "weekPayload company member week = company @ [nul] @ member @ [nul] @ formatDate week"

lemma weekPayload_inj:
  assumes "parseDate text = Some week" and "parseDate text2 = Some week2"
  shows "weekPayload company member week = weekPayload company member week2 \<longleftrightarrow> week = week2"
  using assms formatDate_parseDate by (fastforce simp: weekPayload_def)

text \<open>C21. Submitting is idempotent under its key. Once a submit with a non-empty key created a
  submission, the same request answers that submission in every later state, as it is then, without
  writing anything and whoever repeats it with whatever fresh ids; and the key with another week is
  refused as an idempotency conflict, for any two weeks that are written as dates, provided that
  SHA-256 does not collide on the two payloads, which are then different texts.\<close>

theorem submit_replay:
  assumes "reaches (tsStep num sha formatDate) emptyTimesheets db"
    and "SubmitWeek sha formatDate newID newRoot pre asgRead actor company member weekStart key db = Inr ((sub, True), db')"
    and "key \<noteq> []"
    and "reaches (tsStep num sha formatDate) db' later"
  shows "\<exists>sub'. evolves sub sub' \<and> sub' \<in> set (tsSubmissions later) \<and>
    (\<forall>i r a actor2. SubmitWeek sha formatDate i r later a actor2 company member weekStart key later = Inr ((sub', False), later)) \<and>
    (\<forall>i r a actor2 week2 text text2. parseDate text = Some weekStart \<longrightarrow> parseDate text2 = Some week2 \<longrightarrow> week2 \<noteq> weekStart \<longrightarrow>
      (sha (weekPayload company member weekStart) = sha (weekPayload company member week2) \<longrightarrow>
        weekPayload company member weekStart = weekPayload company member week2) \<longrightarrow>
      SubmitWeek sha formatDate i r later a actor2 company member week2 key later = Inl ErrIdempotencyConflict)"
proof -
  let ?hash = "submissionIdempotencyPayloadHash sha formatDate company member"
  note inv = timesheet_system.reachable_inv [OF assms(1)]
  note inv' = tsInv_step [OF inv tsStep.submit_week [OF assms(2)]]
  note inv'' = timesheet_system.inv_reaches [OF assms(4) inv']
  obtain approver where tx: "submitTx newID newRoot actor company member weekStart (Some key) (Some (?hash weekStart))
      approver db = Inr (sub, db')"
    using SubmitWeek_created [OF assms(2,3)] by blast
  note eff = submitTx_effect [OF tx]
  have "sub \<in> set (tsSubmissions db')" unfolding eff(1) by simp
  then obtain sub' where sub': "sub' \<in> set (tsSubmissions later)" "evolves sub sub'"
    using run_history [OF assms(4) inv'] unfolding historyKept_def by blast
  then have found: "findSubmissionByIdempotencyKey later company member key = Some (sub', ?hash weekStart)"
    using find_by_key [OF inv'' sub'(1), of company member key] eff(7-9,14)
    by (simp add: evolves_def sameWeek_def)
  have hash: "?hash w = sha (weekPayload company member w)" for w
    by (simp add: submissionIdempotencyPayloadHash_def weekPayload_def)
  have "SubmitWeek sha formatDate i r later a actor2 company member week2 key later = Inl ErrIdempotencyConflict"
    if "?hash week2 \<noteq> ?hash weekStart" for i r a actor2 week2
    using found that assms(3) by (simp add: SubmitWeek_def)
  moreover have "SubmitWeek sha formatDate i r later a actor2 company member weekStart key later = Inr ((sub', False), later)"
    for i r a actor2 using found assms(3) by (simp add: SubmitWeek_def)
  ultimately show ?thesis using sub' weekPayload_inj unfolding hash by metis
qed

theorem submit_replay_witness:
  "SubmitWeek exSha formatDate ''z'' ''z'' exApproved None ''mia'' ''c'' ''m'' 4 ''key-s1'' exApproved =
     Inr ((exSubmission ''s1'' 1 None False ''submitted'', False), exApproved) \<and>
   SubmitWeek exSha formatDate ''z'' ''z'' exApproved None ''mia'' ''c'' ''m'' 11 ''key-s1'' exApproved = Inl ErrIdempotencyConflict"
proof -
  have run: "exSteps exOneSubmitted exApproved" by (rule reaches_trans [OF ex_runs(5) reaches_trans [OF ex_runs(4) ex_runs(3)]])
  have dates: "parseDate ''1970-01-05'' = Some 4" "parseDate ''1970-01-12'' = Some 11" by code_simp+
  have key: "''key-s1'' \<noteq> []" by simp
  obtain sub' where s: "evolves (exSubmission ''s1'' 1 None True ''submitted'') sub'" "sub' \<in> set (tsSubmissions exApproved)"
    and again: "\<forall>i r a actor2. SubmitWeek exSha formatDate i r exApproved a actor2 ''c'' ''m'' 4 ''key-s1'' exApproved =
      Inr ((sub', False), exApproved)"
    and other: "\<forall>i r a actor2 week2 text text2. parseDate text = Some 4 \<longrightarrow> parseDate text2 = Some week2 \<longrightarrow> week2 \<noteq> 4 \<longrightarrow>
      (exSha (weekPayload ''c'' ''m'' 4) = exSha (weekPayload ''c'' ''m'' week2) \<longrightarrow>
        weekPayload ''c'' ''m'' 4 = weekPayload ''c'' ''m'' week2) \<longrightarrow>
      SubmitWeek exSha formatDate i r exApproved a actor2 ''c'' ''m'' week2 ''key-s1'' exApproved = Inl ErrIdempotencyConflict"
    using submit_replay [OF ex_runs(1) ex_submit1 key run] by (elim exE conjE) (rule that)
  have "SubmitWeek exSha formatDate ''z'' ''z'' exApproved None ''mia'' ''c'' ''m'' 11 ''key-s1'' exApproved = Inl ErrIdempotencyConflict"
    by (rule other [rule_format, OF dates]) (simp, simp only: exSha_def)
  moreover have "sub' = exSubmission ''s1'' 1 None False ''submitted''"
    using s by (auto simp: exApproved_def exState_def evolves_def exSubmission_def)
  ultimately show ?thesis using again by blast
qed

text \<open>C22. A decision covers more than its submission. A member submits a day, adds another and
  submits again while the first version waits: the second version supersedes the first and its
  snapshot holds the new day only, yet approving it approves the first day too, whose only record is
  the snapshot of the superseded version, which nobody decided.\<close>

theorem approval_beyond_snapshot:
  "reaches (tsStep exNum exSha formatDate) emptyTimesheets exTwoSubmitted \<and>
   ApproveSubmission ''boss'' ''c'' ''s2'' exTwoSubmitted = Inr (exSubmission ''s2'' 2 (Some ''s1'') True ''approved'', exApproved) \<and>
   exEntry ''e1'' 4 ''approved'' \<in> set (tsEntries exApproved) \<and>
   \<not> recordedIn exApproved (exSubmission ''s2'' 2 (Some ''s1'') True ''approved'') (exEntry ''e1'' 4 ''approved'') \<and>
   {s \<in> set (tsSubmissions exApproved). recordedIn exApproved s (exEntry ''e1'' 4 ''approved'')} =
     {exSubmission ''s1'' 1 None False ''submitted''}"
proof (intro conjI)
  show "reaches (tsStep exNum exSha formatDate) emptyTimesheets exTwoSubmitted" by (rule ex_run_all(2))
  show "ApproveSubmission ''boss'' ''c'' ''s2'' exTwoSubmitted =
      Inr (exSubmission ''s2'' 2 (Some ''s1'') True ''approved'', exApproved)" by (rule ex_approve2)
qed (auto simp: exApproved_def recordedIn_def ex_defs)

text \<open>C23. The draft guard of an upsert can be passed by an entry that is no draft. The locking
  read finds no row and so holds no lock; the same entry is then created and submitted; the insert
  of the first request falls into its conflict clause and rewrites the submitted entry as a draft,
  with other hours than those on record, while its submission still waits for a decision.\<close>

theorem upsert_overtaken:
  "lockHeld (exState [] [] [] []) exOneSubmitted (''c'', ''m'', ''p'', 4) \<and>
   reaches (tsStep exNum exSha formatDate) (exState [] [] [] []) exOneSubmitted \<and>
   (\<exists>e db'. UpsertEntry exNum 345600 ''e9'' (Some (exState [] [] [] [])) (Some (exState [] [] [] []))
       (exState [] [] [] []) ''mia'' ''c'' ''m'' ''p'' 345600 8 8
       exOneSubmitted = Inr (e, db') \<and>
     eID e = ''e1'' \<and> eStatus e = ''draft'' \<and> eReal e = 8 \<and> tsEntries db' = [e] \<and>
     tsSubmissions db' = [exSubmission ''s1'' 1 None True ''submitted''] \<and> tsSnapshots db' = [exSnapshot ''s1'' 4])"
proof (intro conjI)
  show "lockHeld (exState [] [] [] []) exOneSubmitted (''c'', ''m'', ''p'', 4)" by code_simp
  show "reaches (tsStep exNum exSha formatDate) (exState [] [] [] []) exOneSubmitted"
    by (rule reaches_trans [rotated], rule reaches_one, rule tsStep.upsert_entry, rule ex_upsert1, rule ex_locks,
        rule reaches_one, rule tsStep.submit_week, rule ex_submit1)
  have "UpsertEntry exNum 345600 ''e9'' (Some (exState [] [] [] [])) (Some (exState [] [] [] []))
       (exState [] [] [] []) ''mia'' ''c'' ''m'' ''p'' 345600 8 8
       exOneSubmitted = Inr ((exEntry ''e1'' 4 ''draft'')\<lparr>eReal := 8, eBillable := 8\<rparr>,
     record_audit ''mia'' ''timesheet.entry.upsert'' ''e1''
       (exOneSubmitted\<lparr>tsEntries := [(exEntry ''e1'' 4 ''draft'')\<lparr>eReal := 8, eBillable := 8\<rparr>]\<rparr>))"
    by code_simp
  then show "\<exists>e db'. UpsertEntry exNum 345600 ''e9'' (Some (exState [] [] [] [])) (Some (exState [] [] [] []))
       (exState [] [] [] []) ''mia'' ''c'' ''m'' ''p'' 345600 8 8
       exOneSubmitted = Inr (e, db') \<and>
     eID e = ''e1'' \<and> eStatus e = ''draft'' \<and> eReal e = 8 \<and> tsEntries db' = [e] \<and>
     tsSubmissions db' = [exSubmission ''s1'' 1 None True ''submitted''] \<and> tsSnapshots db' = [exSnapshot ''s1'' 4]"
    by (intro exI conjI, assumption) (auto simp: exOneSubmitted_def exEntry_def exState_def)
qed

section \<open>Weeks and hours\<close>

lemma dayOf_bounds: "dayOf t * 86400 \<le> t \<and> t < dayOf t * 86400 + 86400"
proof -
  have "t = dayOf t * 86400 + t mod 86400" by (simp add: dayOf_def)
  moreover have "0 \<le> t mod 86400" "t mod 86400 < 86400" by simp_all
  ultimately show ?thesis by linarith
qed

lemma dayOf_shift: "dayOf (t - k * 86400) = dayOf t - k"
proof -
  have "t - k * 86400 = t + (- k) * 86400" by simp
  then show ?thesis unfolding dayOf_def by simp
qed

lemma dayOf_midnight [simp]: "dayOf (d * 86400) = d"
  by (simp add: dayOf_def)

text \<open>\<open>isoMonday\<close> is the midnight of a Monday, at most seven days back.\<close>

lemma isoMonday_spec:
  "\<exists>d. isoMonday t = d * 86400 \<and> (d + 4) mod 7 = 1 \<and> d \<le> dayOf t \<and> dayOf t < d + 7"
proof -
  define w where "w = (let wd = weekday t in if wd = 0 then 7 else wd)"
  have w: "1 \<le> w" "w \<le> 7" "w mod 7 = weekday t"
    using pos_mod_bound [of 7 "dayOf t + 4"] pos_mod_sign [of 7 "dayOf t + 4"]
    by (auto simp: w_def Let_def weekday_def)
  have "isoMonday t = dayOf (t - (w - 1) * 86400) * 86400"
    unfolding isoMonday_def w_def Let_def by simp
  then have iso: "isoMonday t = (dayOf t - (w - 1)) * 86400" unfolding dayOf_shift .
  have "(dayOf t - (w - 1) + 4) mod 7 = 1"
    using w(3) unfolding weekday_def by presburger
  then show ?thesis using iso w by (intro exI [of _ "dayOf t - (w - 1)"]) auto
qed

lemma isoMonday_bounds: "isoMonday t \<le> t \<and> t < isoMonday t + 604800"
  using isoMonday_spec [of t] dayOf_bounds [of t] by auto

lemma isoMonday_fixed_iff:
  "isoMonday t = t \<longleftrightarrow> t = dayOf t * 86400 \<and> weekday t = 1"
proof
  assume eq: "isoMonday t = t"
  obtain d where "isoMonday t = d * 86400" "(d + 4) mod 7 = 1" using isoMonday_spec by blast
  then show "t = dayOf t * 86400 \<and> weekday t = 1" using eq by (metis dayOf_midnight weekday_def)
next
  assume "t = dayOf t * 86400 \<and> weekday t = 1"
  then show "isoMonday t = t" by (simp add: isoMonday_def Let_def)
qed

lemma validateHours_Inr:
  "validateHours cfg actual billable = Inr u \<longleftrightarrow> 0 \<le> actual \<and> actual \<le> 24 \<and> 0 \<le> billable \<and> billable \<le> 24 \<and>
     (EnforceBillableWithinActual cfg \<longrightarrow> billable \<le> actual) \<and> (AllowBillableAboveEightHours cfg \<or> billable \<le> 8)"
  by (auto simp: validateHours_def)

lemma validateWeekWindow_Inr:
  assumes "validateWeekWindow cfg now entryDate = Inr u"
  shows "isoMonday now - AllowedPreviousWeeks cfg * 604800 \<le> entryDate"
    "entryDate < isoMonday now + (AllowedFutureWeeks cfg + 1) * 604800"
  using assms isoMonday_bounds [of entryDate]
  by (auto simp: validateWeekWindow_def Let_def algebra_simps split: if_splits)

lemma insertEntry_values:
  assumes "insertEntry newID actor (company, member, project, day) actual billable db = Inr (e, db')"
  shows "eReal e = actual" "eBillable e = billable" "entryKey e = (company, member, project, day)"
proof -
  have key: "entryKey old = (company, member, project, day)"
    if "findEntry db (company, member, project, day) = Some old" for old
    using that by (auto simp: findEntry_def find_Some_iff)
  show "eReal e = actual" "eBillable e = billable"
    using assms by (auto simp: insertEntry_def Let_def split: if_splits option.splits)
  show "entryKey e = (company, member, project, day)"
    using assms key by (auto simp: insertEntry_def Let_def entryKey_def split: if_splits option.splits)
qed

text \<open>The configuration in force for a read: the company's row; the defaults when there is none, and
  also when the read failed.\<close>

definition inForce :: "tsRead \<Rightarrow> uuid \<Rightarrow> Config \<Rightarrow> bool" where
  "inForce rd company cfg \<longleftrightarrow> (case rd of
     None \<Rightarrow> cfg = defaultConfig company
   | Some r \<Rightarrow> cfg \<in> set (tsConfigs r) \<and> cfgCompanyID cfg = company \<or>
       (\<forall>c \<in> set (tsConfigs r). cfgCompanyID c \<noteq> company) \<and> cfg = defaultConfig company)"

lemma GetConfig_inForce: "inForce rd company (GetConfig rd company)"
  by (auto simp: inForce_def GetConfig_def find_Some_iff find_None_iff split: option.split)

text \<open>C24. What an accepted upsert stores respects the configuration in force: the company's row if
  the read before the transaction found one, and the defaults if it found none or failed, whatever
  row the company has. The date lies between the Monday so many weeks back and the Sunday so many
  weeks ahead of the current week; the hours as stored, after the database's rounding (monotone and
  exact at 8), are within 0 and 24, billable hours do not exceed the actual ones when that is
  enforced and do not exceed 8 unless that is allowed; the entry is the caller's, on a project of
  the company that the read of the project found.\<close>

theorem entry_bounds:
  assumes "\<And>x y. x \<le> y \<Longrightarrow> num x \<le> num y" and "num 8 = 8"
    and "UpsertEntry num now newID cfgRead prjRead lk actor company member project entryDate actual billable db = Inr (e, db')"
  shows "(\<exists>cfg. inForce cfgRead company cfg \<and>
      isoMonday now - AllowedPreviousWeeks cfg * 604800 \<le> entryDate \<and>
      entryDate < isoMonday now + (AllowedFutureWeeks cfg + 1) * 604800 \<and>
      (EnforceBillableWithinActual cfg \<longrightarrow> eBillable e \<le> eReal e) \<and>
      (AllowBillableAboveEightHours cfg \<or> eBillable e \<le> 8)) \<and>
    0 \<le> eReal e \<and> eReal e \<le> 24 \<and> 0 \<le> eBillable e \<and> eBillable e \<le> 24 \<and>
    entryKey e = (company, member, project, dayOf entryDate) \<and> eStatus e = ''draft'' \<and>
    (\<exists>r p. prjRead = Some r \<and> p \<in> set (tsProjects r) \<and> pID p = project \<and> pCompanyID p = company)"
proof -
  let ?cfg = "GetConfig cfgRead company"
  from assms(3) have parts: "validateHours ?cfg actual billable = Inr ()"
    "validateWeekWindow ?cfg now entryDate = Inr ()" "\<exists>p. getProject prjRead company project = Inr p"
    "insertEntry newID actor (company, member, project, dayOf entryDate) (num actual) (num billable) db = Inr (e, db')"
    by (auto simp: UpsertEntry_def Let_def rbind_Inr_iff)
  note vals = insertEntry_values [OF parts(4)]
  note hours = parts(1) [unfolded validateHours_Inr]
  have "EnforceBillableWithinActual ?cfg \<longrightarrow> eBillable e \<le> eReal e"
    using hours assms(1) vals by simp
  moreover have "AllowBillableAboveEightHours ?cfg \<or> eBillable e \<le> 8"
    using hours assms(1) [of billable 8] assms(2) vals by auto
  moreover have "\<exists>r p. prjRead = Some r \<and> p \<in> set (tsProjects r) \<and> pID p = project \<and> pCompanyID p = company"
  proof -
    obtain r p where "prjRead = Some r" "find (\<lambda>p. pCompanyID p = company \<and> pID p = project) (tsProjects r) = Some p"
      using parts(3) by (cases prjRead) (auto simp: getProject_def split: option.splits)
    then show ?thesis by (intro exI [of _ r] exI [of _ p]) (auto simp: find_Some_iff)
  qed
  ultimately show ?thesis
    using validateWeekWindow_Inr [OF parts(2)] UpsertEntry_result(1-5) [OF assms(3)] vals(3) GetConfig_inForce by blast
qed

text \<open>A company that allows entries of the current week only: a failed read lets an entry of the week
  before through.\<close>

definition exStrict :: tsDB where
  "exStrict = (exState [] [] [] [])\<lparr>tsConfigs := [\<lparr>cfgCompanyID = ''c'', EnforceBillableWithinActual = True,
     AllowBillableAboveEightHours = False, AllowedPreviousWeeks = 0, AllowedFutureWeeks = 0\<rparr>]\<rparr>"

theorem entry_bounds_witness:
  "UpsertEntry exNum 345600 ''e1'' (Some exStrict) (Some exStrict) exStrict ''mia'' ''c'' ''m'' ''p'' 259200 6 4 exStrict =
     Inl (ValidationError ''entryDate'') \<and>
   (\<exists>e db'. UpsertEntry exNum 345600 ''e1'' None (Some exStrict) exStrict ''mia'' ''c'' ''m'' ''p'' 259200 6 4 exStrict = Inr (e, db') \<and>
     isoMonday 345600 - 4 * 604800 \<le> 259200 \<and> eBillable e \<le> eReal e \<and> eBillable e \<le> 8)"
proof -
  have num: "\<And>x y. x \<le> y \<Longrightarrow> exNum x \<le> exNum y" "exNum 8 = 8" by (simp_all add: exNum_def)
  let ?up = "UpsertEntry exNum 345600 ''e1'' None (Some exStrict) exStrict ''mia'' ''c'' ''m'' ''p'' 259200 6 4 exStrict"
  have "\<not> isl ?up" by code_simp
  then obtain v where "?up = Inr v" by (cases ?up) simp_all
  then obtain e db' where up: "?up = Inr (e, db')" by (cases v) simp
  have "UpsertEntry exNum 345600 ''e1'' (Some exStrict) (Some exStrict) exStrict ''mia'' ''c'' ''m'' ''p'' 259200 6 4 exStrict =
     Inl (ValidationError ''entryDate'')" by code_simp
  then show ?thesis using entry_bounds [OF num up] up by (auto simp: inForce_def defaultConfig_def)
qed

section \<open>A rejected week reopens\<close>

lemma GetSubmission_found:
  assumes "distinct (map sID (tsSubmissions db))" and "s \<in> set (tsSubmissions db)"
  shows "GetSubmission db (sCompanyID s) (sID s) = Inr s"
proof -
  let ?P = "\<lambda>t. sCompanyID t = sCompanyID s \<and> sID t = sID s"
  have "find ?P (tsSubmissions db) \<noteq> None" using assms(2) by (auto simp: find_None_iff)
  then obtain t where t: "find ?P (tsSubmissions db) = Some t" by blast
  then have "t \<in> set (tsSubmissions db)" "sID t = sID s" by (auto simp: find_Some_iff)
  then have "t = s" using assms by (auto simp: distinct_map inj_on_def)
  then show ?thesis using t by (simp add: GetSubmission_def)
qed

lemma RejectSubmission_ok:
  assumes inv: "tsInv sha fmtDay db" and s: "s \<in> set (tsSubmissions db)" "sCurrent s" "sStatus s = ''submitted''"
    and reason: "reason \<noteq> []" "nul_free reason"
  shows "\<exists>r db'. RejectSubmission (sApproverKcSub s) (sCompanyID s) (sID s) reason db = Inr (r, db') \<and>
    r = decided False (sApproverKcSub s) reason s \<and> tsAssignments db' = tsAssignments db"
proof -
  let ?upd = "\<lambda>x. if sID x = sID s \<and> sCompanyID x = sCompanyID s then decided False (sApproverKcSub s) reason x else x"
  define db' where "db' = record_audit (sApproverKcSub s) ''timesheet.submission.reject'' (sID s)
    (db\<lparr>tsSubmissions := map ?upd (tsSubmissions db),
        tsEntries := map (\<lambda>e. if inWeek (sCompanyID s) (sMemberID s) (sWeekStart s) e \<and> eStatus e = ''submitted''
          then e\<lparr>eStatus := ''draft''\<rparr> else e) (tsEntries db)\<rparr>)"
  have "map sID (tsSubmissions db') = map sID (tsSubmissions db)" by (auto simp: db'_def decided_def)
  then have dist: "distinct (map sID (tsSubmissions db'))" using tsInv_keys(5) [OF inv] by simp
  have "decided False (sApproverKcSub s) reason s \<in> set (tsSubmissions db')" using s(1) by (force simp: db'_def)
  from GetSubmission_found [OF dist this]
  have got: "GetSubmission db' (sCompanyID s) (sID s) = Inr (decided False (sApproverKcSub s) reason s)"
    by (simp add: decided_def)
  have "RejectSubmission (sApproverKcSub s) (sCompanyID s) (sID s) reason db =
      rbind (GetSubmission db' (sCompanyID s) (sID s)) (\<lambda>s'. Inr (s', db'))"
    using s reason GetSubmission_found [OF tsInv_keys(5) [OF inv] s(1)]
    by (simp add: RejectSubmission_def decideSubmission_def Let_def db'_def decided_def cong: if_cong)
  then show ?thesis using got by (simp add: db'_def)
qed

lemma submitTx_ok:
  assumes inv: "tsInv sha fmtDay db" and s: "s \<in> set (tsSubmissions db)" "isCurrentFor company member weekStart s"
    and version: "sVersion s < maxInt32" and drafts: "draftEntries db company member weekStart \<noteq> []"
    and newID: "newID \<notin> sID ` set (tsSubmissions db)"
  shows "\<exists>sub db'. submitTx newID newRoot actor company member weekStart None None approver db = Inr (sub, db') \<and>
    sVersion sub = sVersion s + 1 \<and> sSupersedes sub = Some (sID s)"
proof -
  have uniq: "t = s" if "t \<in> set (tsSubmissions db)" "isCurrentFor company member weekStart t" for t
  proof -
    have "rivals t s" using that(2) s(2) by (simp add: rivals_def isCurrentFor_def sameWeek_def)
    then show ?thesis using inv that(1) s(1) unfolding tsInv_def uniqueOk_def by blast
  qed
  have "find (isCurrentFor company member weekStart) (tsSubmissions db) \<noteq> None" using s by (auto simp: find_None_iff)
  then obtain t where t: "find (isCurrentFor company member weekStart) (tsSubmissions db) = Some t" by blast
  then have "t = s" by (auto simp: find_Some_iff intro!: uniq)
  with t have prev: "find (isCurrentFor company member weekStart) (tsSubmissions db) = Some s" by simp
  define subs where "subs = map (\<lambda>x. if sID x = sID s then x\<lparr>sCurrent := False\<rparr> else x) (tsSubmissions db)"
  have "map sID subs = map sID (tsSubmissions db)" by (simp add: subs_def)
  then have "set (map sID subs) = set (map sID (tsSubmissions db))" by (rule arg_cong)
  then have new: "newID \<notin> sID ` set subs" using newID by simp
  have none: "\<not> (\<exists>x \<in> set subs. isCurrentFor company member weekStart x)"
    using uniq by (auto simp: subs_def isCurrentFor_def)
  show ?thesis using drafts version new none
    unfolding submitTx_def Let_def prev option.case subs_def [symmetric] by simp
qed

text \<open>C25. A rejection reopens the week. In every reachable state the assigned approver of a
  current, undecided submission can reject it with a reason; its submitted entries are drafts again
  with their hours kept; and if the member has an assigned approver the week can be submitted anew,
  as the next version, which supersedes the rejected one and has the entry in its snapshot.\<close>

theorem rejected_week_reopens:
  assumes "reaches (tsStep num sha fmtDay) emptyTimesheets db"
    and "s \<in> set (tsSubmissions db)" and "sCurrent s" and "sStatus s = ''submitted''"
    and "e \<in> set (tsEntries db)" and "covers s e" and "eStatus e = ''submitted''"
    and "reason \<noteq> []" and "nul_free reason"
    and "AssignedApprover (Some db) (sCompanyID s) (sMemberID s) = Some approver"
    and "newID \<notin> sID ` set (tsSubmissions db)" and "sVersion s < maxInt32"
  shows "\<exists>r db1 sub db2.
    RejectSubmission (sApproverKcSub s) (sCompanyID s) (sID s) reason db = Inr (r, db1) \<and>
    sStatus r = ''rejected'' \<and> sRejectReason r = Some reason \<and> e\<lparr>eStatus := ''draft''\<rparr> \<in> set (tsEntries db1) \<and>
    SubmitWeek sha fmtDay newID newRoot db1 (Some db1) actor (sCompanyID s) (sMemberID s) (sWeekStart s) [] db1 = Inr ((sub, True), db2) \<and>
    sVersion sub = sVersion s + 1 \<and> sSupersedes sub = Some (sID s) \<and> recordedIn db2 sub e"
proof -
  note inv = timesheet_system.reachable_inv [OF assms(1)]
  obtain r db1 where rej: "RejectSubmission (sApproverKcSub s) (sCompanyID s) (sID s) reason db = Inr (r, db1)"
    and r: "r = decided False (sApproverKcSub s) reason s" and asg: "tsAssignments db1 = tsAssignments db"
    using RejectSubmission_ok [OF inv assms(2-4,8,9)] by blast
  note inv1 = tsInv_step [OF inv tsStep.decide [OF rej [unfolded RejectSubmission_def]]]
  have ents: "e\<lparr>eStatus := ''draft''\<rparr> \<in> set (tsEntries db1)" and r1: "r \<in> set (tsSubmissions db1)"
    and ids: "sID ` set (tsSubmissions db1) = sID ` set (tsSubmissions db)"
  proof -
    obtain t where t: "t \<in> set (tsSubmissions db)" "sID t = sID s" and
      ents: "tsEntries db1 = map (\<lambda>e. if inWeek (sCompanyID s) (sMemberID t) (sWeekStart t) e \<and> eStatus e = ''submitted''
        then e\<lparr>eStatus := (if False then ''approved'' else ''draft'')\<rparr> else e) (tsEntries db)" and
      subs: "tsSubmissions db1 = map (\<lambda>x. if sID x = sID s \<and> sCompanyID x = sCompanyID s
        then decided False (sApproverKcSub s) reason x else x) (tsSubmissions db)" and
      r1: "r \<in> set (tsSubmissions db1)"
      using rej unfolding RejectSubmission_def by (rule decideSubmission_effect) (rule that)
    have "t = s" using t assms(2) distinct_sID [OF tsInv_keys(1) [OF inv]] by blast
    then show "e\<lparr>eStatus := ''draft''\<rparr> \<in> set (tsEntries db1)"
      unfolding ents using assms(5-7) by (force simp: covers_def)
    show "r \<in> set (tsSubmissions db1)" by (rule r1)
    have "map sID (tsSubmissions db1) = map sID (tsSubmissions db)" unfolding subs by (auto simp: decided_def)
    then have "set (map sID (tsSubmissions db1)) = set (map sID (tsSubmissions db))" by (rule arg_cong)
    then show "sID ` set (tsSubmissions db1) = sID ` set (tsSubmissions db)" by simp
  qed
  have cur: "isCurrentFor (sCompanyID s) (sMemberID s) (sWeekStart s) r" "sVersion r = sVersion s" "sID r = sID s"
    using assms(3) by (simp_all add: r decided_def isCurrentFor_def)
  have "eProjectID e \<in> pID ` set (tsProjects db1)"
    using tsInv_entryOk [OF inv1 ents] by (simp add: entryOk_def)
  then have draft: "e\<lparr>eStatus := ''draft''\<rparr> \<in> set (draftEntries db1 (sCompanyID s) (sMemberID s) (sWeekStart s))"
    using ents assms(6) by (simp add: draftEntries_def covers_def inWeek_def)
  then have "draftEntries db1 (sCompanyID s) (sMemberID s) (sWeekStart s) \<noteq> []" by force
  then obtain sub db2 where tx: "submitTx newID newRoot actor (sCompanyID s) (sMemberID s) (sWeekStart s) None None approver db1 =
      Inr (sub, db2)" "sVersion sub = sVersion s + 1" "sSupersedes sub = Some (sID s)"
    using submitTx_ok [OF inv1 r1 cur(1), of newID newRoot actor approver] cur(2,3) assms(11,12) ids by auto
  have "SubmitWeek sha fmtDay newID newRoot db1 (Some db1) actor (sCompanyID s) (sMemberID s) (sWeekStart s) [] db1 = Inr ((sub, True), db2)"
  proof -
    have "AssignedApprover (Some db1) (sCompanyID s) (sMemberID s) = Some approver"
      using assms(10) asg by (simp add: AssignedApprover_def)
    then show ?thesis using tx(1) by (simp add: SubmitWeek_def)
  qed
  moreover have "recordedIn db2 sub e"
    unfolding recordedIn_def submitTx_effect(2) [OF tx(1)] using draft submitTx_effect(5) [OF tx(1)]
    by (intro bexI [of _ "snapshotOf db1 newID (e\<lparr>eStatus := ''draft''\<rparr>)"])
      (auto simp: snapshotOf_def Let_def intro!: image_eqI [of _ _ "e\<lparr>eStatus := ''draft''\<rparr>"])
  ultimately show ?thesis using rej r ents tx by (auto simp: decided_def)
qed

theorem rejected_week_reopens_witness:
  "\<exists>r db1 sub db2. RejectSubmission ''boss'' ''c'' ''s1'' ''too many'' exOneSubmitted = Inr (r, db1) \<and>
    sStatus r = ''rejected'' \<and> exEntry ''e1'' 4 ''draft'' \<in> set (tsEntries db1) \<and>
    SubmitWeek exSha formatDate ''s9'' ''root9'' db1 (Some db1) ''mia'' ''c'' ''m'' 4 [] db1 = Inr ((sub, True), db2) \<and>
    sVersion sub = 2 \<and> sSupersedes sub = Some ''s1''"
proof -
  let ?s = "exSubmission ''s1'' 1 None True ''submitted''" and ?e = "exEntry ''e1'' 4 ''submitted''"
  have sf: "sApproverKcSub ?s = ''boss''" "sCompanyID ?s = ''c''" "sID ?s = ''s1''" "sMemberID ?s = ''m''"
    "sWeekStart ?s = 4" "sVersion ?s = 1" "?e\<lparr>eStatus := ''draft''\<rparr> = exEntry ''e1'' 4 ''draft''"
    by (simp_all add: exSubmission_def exEntry_def)
  have hyps: "?s \<in> set (tsSubmissions exOneSubmitted)" "sCurrent ?s" "sStatus ?s = ''submitted''"
    "?e \<in> set (tsEntries exOneSubmitted)" "covers ?s ?e" "eStatus ?e = ''submitted''" "''too many'' \<noteq> []" "nul_free ''too many''"
    "AssignedApprover (Some exOneSubmitted) (sCompanyID ?s) (sMemberID ?s) = Some (''b'', ''boss'')"
    "''s9'' \<notin> sID ` set (tsSubmissions exOneSubmitted)" "sVersion ?s < maxInt32"
    by code_simp+
  show ?thesis
    using rejected_week_reopens [OF ex_runs(2) hyps, of "''root9''" "''mia''", unfolded sf] by auto
qed

section \<open>Pages\<close>

lemma queryPage_paged: "paged (queryPage rows) ErrDatabase rows"
  by unfold_locales (simp add: queryPage_def split: prod.splits)

interpretation project_pages: paged "ListProjects orderBy db company" ErrDatabase
  "orderBy (filter (\<lambda>p. pCompanyID p = company) (tsProjects db))" for orderBy db company
  using queryPage_paged [of "orderBy (filter (\<lambda>p. pCompanyID p = company) (tsProjects db))"]
  by (simp add: paged_def ListProjects_def)

interpretation assignment_pages: paged "ListApproverAssignments orderBy db company" ErrDatabase
  "orderBy (filter (\<lambda>a. aCompanyID a = company) (tsAssignments db))" for orderBy db company
  using queryPage_paged [of "orderBy (filter (\<lambda>a. aCompanyID a = company) (tsAssignments db))"]
  by (simp add: paged_def ListApproverAssignments_def)

interpretation submission_pages: paged "ListSubmissions orderBy db company view caller member" ErrDatabase
  "orderBy (filter (inScope view caller company member) (tsSubmissions db))" for orderBy db company view caller member
  using queryPage_paged [of "orderBy (filter (inScope view caller company member) (tsSubmissions db))"]
  by (simp add: paged_def ListSubmissions_def)

text \<open>Walking the pages lists everything once. For a page size of 1 to 100, asking the
  submission list for page 1 up to the \<open>totalPages\<close> that the response envelope names gives
  together exactly the submissions in the caller's view, each as often as it is stored, for every
  order in which the database sorts them, as long as there are fewer than 2^56 of them.\<close>

theorem pages_cover_submissions:
  assumes "\<And>xs. mset (orderBy xs) = mset xs" and "1 \<le> s" and "s \<le> 100"
    and "length (tsSubmissions db) < 2 ^ 56"
    and "ListSubmissions orderBy db company view caller member p s = Inr (items, totalRows)"
  shows "mset (concat (map (\<lambda>k. itemsOf (ListSubmissions orderBy db company view caller member (int k + 1) s))
      [0..<nat (pgTotalPages (WritePage items totalRows p s toWire))])) =
    mset (filter (inScope view caller company member) (tsSubmissions db))"
proof -
  let ?rows = "orderBy (filter (inScope view caller company member) (tsSubmissions db))"
  let ?pages = "pgTotalPages (WritePage items totalRows p s toWire)"
  have "length ?rows = length (filter (inScope view caller company member) (tsSubmissions db))"
    using assms(1) by (metis size_mset)
  then have len: "length ?rows < 2 ^ 56" using assms(4) length_filter_le le_less_trans by metis
  have tot: "totalRows = int (length ?rows)" using submission_pages.page_size [OF assms(5)] by simp
  have "int (length ?rows) < 2 ^ 56" using len by (metis of_nat_less_iff of_nat_numeral of_nat_power)
  then have bound: "0 \<le> totalRows" "totalRows < 2 ^ 56" using tot by simp_all
  have enough: "totalRows \<le> ?pages * s" using totalPages_enough [of totalRows s items p toWire] bound assms(2,3) by simp
  have few: "1 \<le> ?pages" "?pages \<le> maxPage" using totalPages_few [of totalRows s items p toWire] bound assms(2,3) by simp_all
  have "int (length ?rows) \<le> int (nat ?pages * nat s)" using enough tot few assms(2) by simp
  then have "length ?rows \<le> nat ?pages * nat s" by (simp only: of_nat_le_iff)
  then show ?thesis
    using submission_pages.pages_cover [of s "nat ?pages" orderBy view caller company member db] few assms(1-3) by simp
qed

theorem pages_cover_submissions_witness:
  "mset (concat (map (\<lambda>k. itemsOf (ListSubmissions (\<lambda>x. x) exApproved ''c'' ''all'' ''boss'' ''b'' (int k + 1) 1)) [0..<2])) =
   mset (tsSubmissions exApproved)"
proof -
  let ?s1 = "exSubmission ''s1'' 1 None False ''submitted''"
  have len: "length (tsSubmissions exApproved) < 2 ^ 56" by (simp add: exApproved_def exState_def)
  have page: "ListSubmissions (\<lambda>x. x) exApproved ''c'' ''all'' ''boss'' ''b'' 1 1 = Inr ([?s1], 2)" by code_simp
  have pages: "nat (pgTotalPages (WritePage [?s1] 2 1 1 sID)) = 2" by code_simp
  have all: "filter (inScope ''all'' ''boss'' ''c'' ''b'') (tsSubmissions exApproved) = tsSubmissions exApproved" by code_simp
  show ?thesis
    using pages_cover_submissions [where orderBy = "\<lambda>x. x", OF _ _ _ len page, of sID] unfolding pages all by simp
qed

end
