(* ===== verification/Engine_Model.thy ===== *)
theory Engine_Model
  imports Kiban_Prelude
begin

text \<open>
  The authorization model of \<open>internal/authz/engine/model.go\<close>,
  \<open>expr_accessors.go\<close>: relation-definition expressions over the five supported
  constructs, their decoding from JSON (the subset wall), and the validations a model goes
  through when it is loaded and merged. Proved here: a loaded model is well formed, merging
  keeps both sides and refuses a type declared twice.
\<close>

section \<open>Expressions\<close>

text \<open>One constructor per \<open>exprKind\<close>. The fields of the Go struct \<open>Expr\<close> that a
  kind does not use are nil there and absent here; the boolean \<open>this\<close> is true exactly
  for \<open>kindThis\<close>.\<close>

datatype Expr =
    kindThis
  | kindComputedUserset string
  | kindTupleToUserset (Tupleset: string) (ComputedUserset: string)
  | kindUnion "Expr list"
  | kindIntersection "Expr list"

datatype ModelError =
    ExprNotObject
  | ExprKeyCount nat
  | ThisNotBool
  | ThisFalse
  | ComputedUsersetNotString
  | ComputedUsersetEmpty
  | TupleToUsersetShape
  | TupleToUsersetIncomplete
  | ChildrenShape
  | UnionEmpty
  | IntersectionTooFew
  | OutsideSubset string
  | ModelShape
  | ModelEmpty
  | ComputedUsersetUndefined string string string
  | TuplesetUndefined string string string
  | DuplicateType string
  | TupleToUsersetTargetUndefined string string string
  | AnchorMissing string

text \<open>\<open>json.Unmarshal\<close> into the struct \<open>TupleToUserset\<close>: members are matched to
  fields without regard to case, unknown members are ignored, a later member overwrites an
  earlier one, \<open>null\<close> leaves the field unchanged.\<close>

text \<open>An upper-case letter (0x41 to 0x5A) becomes lower case by setting bit 5.\<close>

fun fold_char :: "char \<Rightarrow> char" where
  "fold_char (Char b0 b1 b2 b3 b4 b5 b6 b7) =
     (if \<not> b7 \<and> b6 \<and> \<not> b5 \<and> (b0 \<or> b1 \<or> b2 \<or> b3 \<or> b4) \<and> \<not> (b4 \<and> b3 \<and> (b2 \<or> b1 \<and> b0))
      then Char b0 b1 b2 b3 b4 True b6 b7 else Char b0 b1 b2 b3 b4 b5 b6 b7)"

text \<open>Beyond ASCII only the long s (U+017F, bytes C5 BF) and the Kelvin sign (U+212A, bytes E2 84 AA)
  fold to ASCII letters.\<close>

fun fold_name :: "string \<Rightarrow> string" where
  "fold_name [] = []"
| "fold_name (c # cs) =
     (if c = CHR 0xC5 \<and> take 1 cs = [CHR 0xBF] then CHR ''s'' # fold_name (drop 1 cs)
      else if c = CHR 0xE2 \<and> take 2 cs = [CHR 0x84, CHR 0xAA] then CHR ''k'' # fold_name (drop 2 cs)
      else fold_char c # fold_name cs)"

definition fold_eq :: "string \<Rightarrow> string \<Rightarrow> bool" where
  "fold_eq a b \<longleftrightarrow> fold_name a = fold_name b"

fun decodeTTUFields ::
  "(string \<times> json) list \<Rightarrow> string \<Rightarrow> string \<Rightarrow> (ModelError, string \<times> string) result" where
  "decodeTTUFields [] ts cu = Inr (ts, cu)"
| "decodeTTUFields ((k, v) # kvs) ts cu =
     (if fold_eq k ''tupleset'' then
        (case v of JStr s \<Rightarrow> decodeTTUFields kvs s cu
                 | JNull \<Rightarrow> decodeTTUFields kvs ts cu
                 | _ \<Rightarrow> Inl TupleToUsersetShape)
      else if fold_eq k ''computedUserset'' then
        (case v of JStr s \<Rightarrow> decodeTTUFields kvs ts s
                 | JNull \<Rightarrow> decodeTTUFields kvs ts cu
                 | _ \<Rightarrow> Inl TupleToUsersetShape)
      else decodeTTUFields kvs ts cu)"

definition decodeTTU :: "json \<Rightarrow> (ModelError, Expr) result" where
  "decodeTTU v =
     rbind (case v of JObj kvs \<Rightarrow> decodeTTUFields kvs [] []
                    | JNull \<Rightarrow> Inr ([], [])
                    | _ \<Rightarrow> Inl TupleToUsersetShape)
       (\<lambda>(ts, cu). if ts = [] \<or> cu = [] then Inl TupleToUsersetIncomplete
                   else Inr (kindTupleToUserset ts cu))"

lemma go_map_children_size [termination_simp]:
  assumes "go_map kvs = [(k, JArr xs)]"
  shows "size_list size xs < Suc (size_list (\<lambda>kv. Suc (size (snd kv))) kvs)"
proof -
  have "(k, JArr xs) \<in> set kvs" using go_map_subset [of kvs] assms by auto
  then have "Suc (size (JArr xs)) \<le> size_list (\<lambda>kv. Suc (size (snd kv))) kvs"
    by (auto intro: size_list_estimation')
  then show ?thesis by simp
qed

text \<open>\<open>Expr.UnmarshalJSON\<close>. The decoded object must have exactly one key, and that key must
  be one of the five constructs.\<close>

fun UnmarshalJSON :: "json \<Rightarrow> (ModelError, Expr) result"
and UnmarshalChildren :: "json list \<Rightarrow> (ModelError, Expr list) result" where
  "UnmarshalJSON JNull = Inl (ExprKeyCount 0)"
| "UnmarshalJSON (JObj kvs) =
     (case go_map kvs of
        [(k, v)] \<Rightarrow>
          (if k = ''this'' then
             (case v of JBool b \<Rightarrow> if b then Inr kindThis else Inl ThisFalse
                      | JNull \<Rightarrow> Inl ThisFalse
                      | _ \<Rightarrow> Inl ThisNotBool)
           else if k = ''computedUserset'' then
             (case v of JStr s \<Rightarrow> if s = [] then Inl ComputedUsersetEmpty
                                 else Inr (kindComputedUserset s)
                      | JNull \<Rightarrow> Inl ComputedUsersetEmpty
                      | _ \<Rightarrow> Inl ComputedUsersetNotString)
           else if k = ''tupleToUserset'' then decodeTTU v
           else if k = ''union'' then
             (case v of JArr xs \<Rightarrow>
                          rbind (UnmarshalChildren xs)
                            (\<lambda>children. if children = [] then Inl UnionEmpty
                                        else Inr (kindUnion children))
                      | JNull \<Rightarrow> Inl UnionEmpty
                      | _ \<Rightarrow> Inl ChildrenShape)
           else if k = ''intersection'' then
             (case v of JArr xs \<Rightarrow>
                          rbind (UnmarshalChildren xs)
                            (\<lambda>children. if length children < 2 then Inl IntersectionTooFew
                                        else Inr (kindIntersection children))
                      | JNull \<Rightarrow> Inl IntersectionTooFew
                      | _ \<Rightarrow> Inl ChildrenShape)
           else Inl (OutsideSubset k))
      | raw \<Rightarrow> Inl (ExprKeyCount (length raw)))"
| "UnmarshalJSON (JBool b) = Inl ExprNotObject"
| "UnmarshalJSON (JNum n) = Inl ExprNotObject"
| "UnmarshalJSON (JStr s) = Inl ExprNotObject"
| "UnmarshalJSON (JArr xs) = Inl ExprNotObject"
| "UnmarshalChildren [] = Inr []"
| "UnmarshalChildren (x # xs) =
     rbind (UnmarshalJSON x) (\<lambda>e. rbind (UnmarshalChildren xs) (\<lambda>es. Inr (e # es)))"

section \<open>Accessors\<close>

definition IsThis :: "Expr \<Rightarrow> bool" where
  "IsThis e \<longleftrightarrow> e = kindThis"

definition ComputedUsersetRel :: "Expr \<Rightarrow> string" where
  "ComputedUsersetRel e = (case e of kindComputedUserset r \<Rightarrow> r | _ \<Rightarrow> [])"

definition TupleToUsersetExpr :: "Expr \<Rightarrow> (string \<times> string) option" where
  "TupleToUsersetExpr e = (case e of kindTupleToUserset ts cu \<Rightarrow> Some (ts, cu) | _ \<Rightarrow> None)"

definition UnionChildren :: "Expr \<Rightarrow> Expr list" where
  "UnionChildren e = (case e of kindUnion es \<Rightarrow> es | _ \<Rightarrow> [])"

definition IntersectionChildren :: "Expr \<Rightarrow> Expr list" where
  "IntersectionChildren e = (case e of kindIntersection es \<Rightarrow> es | _ \<Rightarrow> [])"

section \<open>Models\<close>

type_synonym Model = "(string, (string, Expr) gomap) gomap"

text \<open>The two-step lookup \<open>m[ty][rel]\<close> of the sources; a missing type reads as the nil
  map.\<close>

definition relDef :: "Model \<Rightarrow> string \<Rightarrow> string \<Rightarrow> Expr option" where
  "relDef m ty rel = (case map_of m ty of None \<Rightarrow> None | Some rels \<Rightarrow> map_of rels rel)"

fun validateSelfRefs :: "Model \<Rightarrow> string \<Rightarrow> string \<Rightarrow> Expr \<Rightarrow> (ModelError, unit) result" where
  "validateSelfRefs m ty rel kindThis = Inr ()"
| "validateSelfRefs m ty rel (kindComputedUserset r) =
     (if relDef m ty r = None then Inl (ComputedUsersetUndefined ty rel r) else Inr ())"
| "validateSelfRefs m ty rel (kindTupleToUserset ts cu) =
     (if relDef m ty ts = None then Inl (TuplesetUndefined ty rel ts) else Inr ())"
| "validateSelfRefs m ty rel (kindUnion es) = check_each (validateSelfRefs m ty rel) es"
| "validateSelfRefs m ty rel (kindIntersection es) = check_each (validateSelfRefs m ty rel) es"

text \<open>Decoding a document into \<open>map[string]map[string]Expr\<close>: every member is decoded, then
  the last one of a name is kept; \<open>null\<close> is the nil map.\<close>

definition decodeRels :: "json \<Rightarrow> (ModelError, (string, Expr) gomap) result" where
  "decodeRels v =
     (case v of JObj kvs \<Rightarrow>
                  rbind (traverse (\<lambda>(k, x). rbind (UnmarshalJSON x) (\<lambda>e. Inr (k, e))) kvs)
                    (\<lambda>rels. Inr (go_map rels))
              | JNull \<Rightarrow> Inr []
              | _ \<Rightarrow> Inl ModelShape)"

definition decodeModel :: "json \<Rightarrow> (ModelError, Model) result" where
  "decodeModel v =
     (case v of JObj kvs \<Rightarrow>
                  rbind (traverse (\<lambda>(k, x). rbind (decodeRels x) (\<lambda>rels. Inr (k, rels))) kvs)
                    (\<lambda>types. Inr (go_map types))
              | JNull \<Rightarrow> Inr []
              | _ \<Rightarrow> Inl ModelShape)"

definition LoadModel :: "json \<Rightarrow> (ModelError, Model) result" where
  "LoadModel data =
     rbind (decodeModel data) (\<lambda>m.
       if m = [] then Inl ModelEmpty
       else rbind (check_each (\<lambda>(ty, rels).
                     check_each (\<lambda>(rel, expr). validateSelfRefs m ty rel expr) rels) m)
              (\<lambda>_. Inr m))"

fun mergeInto :: "Model \<Rightarrow> Model \<Rightarrow> (ModelError, Model) result" where
  "mergeInto out [] = Inr out"
| "mergeInto out ((k, v) # other) =
     (if map_of out k \<noteq> None then Inl (DuplicateType k) else mergeInto (out @ [(k, v)]) other)"

definition Merge :: "Model \<Rightarrow> Model \<Rightarrow> (ModelError, Model) result" where
  "Merge m other = mergeInto m other"

definition definedRels :: "Model \<Rightarrow> string list" where
  "definedRels m = concat (map (\<lambda>(ty, rels). map fst rels) m)"

fun walkTargets :: "string list \<Rightarrow> string \<Rightarrow> string \<Rightarrow> Expr \<Rightarrow> (ModelError, unit) result" where
  "walkTargets defd ty rel kindThis = Inr ()"
| "walkTargets defd ty rel (kindComputedUserset r) = Inr ()"
| "walkTargets defd ty rel (kindTupleToUserset ts cu) =
     (if cu \<in> set defd then Inr () else Inl (TupleToUsersetTargetUndefined ty rel cu))"
| "walkTargets defd ty rel (kindUnion es) = check_each (walkTargets defd ty rel) es"
| "walkTargets defd ty rel (kindIntersection es) = check_each (walkTargets defd ty rel) es"

definition ValidateTupleToUsersetTargets :: "Model \<Rightarrow> (ModelError, unit) result" where
  "ValidateTupleToUsersetTargets m =
     check_each (\<lambda>(ty, rels).
       check_each (\<lambda>(rel, expr). walkTargets (definedRels m) ty rel expr) rels) m"

definition ValidateCompanyModuleAnchor :: "Model \<Rightarrow> (ModelError, unit) result" where
  "ValidateCompanyModuleAnchor m =
     check_each (\<lambda>(ty, rels).
       case map_of rels ''company_module'' of
         None \<Rightarrow> Inl (AnchorMissing ty)
       | Some anchor \<Rightarrow> if IsThis anchor then Inr () else Inl (AnchorMissing ty)) m"

section \<open>Well-formed models\<close>

text \<open>What the subset wall and \<open>LoadModel\<close> promise: every expression is built from non-empty
  parts, and both same-object references (the \<open>computedUserset\<close> target and the
  \<open>tupleset\<close>) name relations of the type they stand in.\<close>

fun wfExpr :: "(string \<Rightarrow> bool) \<Rightarrow> Expr \<Rightarrow> bool" where
  "wfExpr d kindThis = True"
| "wfExpr d (kindComputedUserset r) = (r \<noteq> [] \<and> d r)"
| "wfExpr d (kindTupleToUserset ts cu) = (ts \<noteq> [] \<and> cu \<noteq> [] \<and> d ts)"
| "wfExpr d (kindUnion es) = (es \<noteq> [] \<and> (\<forall>e \<in> set es. wfExpr d e))"
| "wfExpr d (kindIntersection es) = (2 \<le> length es \<and> (\<forall>e \<in> set es. wfExpr d e))"

definition wfModel :: "Model \<Rightarrow> bool" where
  "wfModel m \<longleftrightarrow> distinct (map fst m) \<and>
     (\<forall>(ty, rels) \<in> set m. distinct (map fst rels) \<and>
        (\<forall>(rel, expr) \<in> set rels. wfExpr (\<lambda>r. relDef m ty r \<noteq> None) expr))"

lemma wfExpr_mono: "wfExpr d e \<Longrightarrow> (\<And>r. d r \<Longrightarrow> d' r) \<Longrightarrow> wfExpr d' e"
  by (induction d e rule: wfExpr.induct) auto

lemma decodeTTU_wf: "decodeTTU v = Inr e \<Longrightarrow> wfExpr (\<lambda>_. True) e"
  by (auto simp: decodeTTU_def rbind_Inr_iff split: if_splits)

lemma UnmarshalJSON_shape:
  "UnmarshalJSON j = Inr e \<Longrightarrow> wfExpr (\<lambda>_. True) e"
  "UnmarshalChildren js = Inr es \<Longrightarrow> \<forall>e \<in> set es. wfExpr (\<lambda>_. True) e"
proof (induction j and js arbitrary: e and es rule: UnmarshalJSON_UnmarshalChildren.induct)
  case (2 kvs)
  obtain k v where kv: "go_map kvs = [(k, v)]"
    using 2 by (auto split: list.splits)
  note IH = "2.IH" [OF kv refl refl]
  consider "k = ''this''" | "k = ''computedUserset''" | "k = ''tupleToUserset''"
    | "k = ''union''" | "k = ''intersection''"
    using "2.prems" kv by (auto split: if_splits)
  then show ?case
  proof cases
    case 1 with "2.prems" kv show ?thesis by (cases v) (auto split: if_splits)
  next
    case 2 with "2.prems" kv show ?thesis by (cases v) (auto split: if_splits)
  next
    case 3 with "2.prems" kv show ?thesis by (simp add: decodeTTU_wf)
  next
    case 4 with "2.prems" kv IH(1) show ?thesis
      by (cases v) (auto simp: rbind_Inr_iff split: if_splits)
  next
    case 5 with "2.prems" kv IH(2) show ?thesis
      by (cases v) (auto simp: rbind_Inr_iff split: if_splits)
  qed
qed (auto simp: rbind_Inr_iff)

lemma validateSelfRefs_wf:
  "validateSelfRefs m ty rel e = Inr () \<Longrightarrow> wfExpr (\<lambda>_. True) e \<Longrightarrow>
   wfExpr (\<lambda>r. relDef m ty r \<noteq> None) e"
  by (induction m ty rel e rule: validateSelfRefs.induct) (auto split: if_splits)

lemma decodeRels_cases:
  assumes "decodeRels v = Inr rels"
  obtains "rels = []"
    | kvs ys where "v = JObj kvs" and "rels = go_map ys"
        and "traverse (\<lambda>(k, x). rbind (UnmarshalJSON x) (\<lambda>e. Inr (k, e))) kvs = Inr ys"
  using assms by (auto simp: decodeRels_def rbind_Inr_iff split: json.splits)

lemma decodeRels_distinct: "decodeRels v = Inr rels \<Longrightarrow> distinct (map fst rels)"
  by (erule decodeRels_cases) (simp_all add: go_map_distinct)

lemma decodeRels_shape:
  assumes "decodeRels v = Inr rels" and "(rel, e) \<in> set rels"
  shows "wfExpr (\<lambda>_. True) e"
  using assms(1)
proof (cases rule: decodeRels_cases)
  case (2 kvs ys)
  with assms(2) have "(rel, e) \<in> set ys" using go_map_subset by fastforce
  from traverse_set [OF 2(3) this] show ?thesis
    by (auto simp: rbind_Inr_iff dest: UnmarshalJSON_shape(1))
qed (use assms(2) in simp)

lemma decodeModel_cases:
  assumes "decodeModel v = Inr m"
  obtains "m = []"
    | kvs ys where "v = JObj kvs" and "m = go_map ys"
        and "traverse (\<lambda>(k, x). rbind (decodeRels x) (\<lambda>rels. Inr (k, rels))) kvs = Inr ys"
  using assms by (auto simp: decodeModel_def rbind_Inr_iff split: json.splits)

lemma decodeModel_distinct: "decodeModel v = Inr m \<Longrightarrow> distinct (map fst m)"
  by (erule decodeModel_cases) (simp_all add: go_map_distinct)

lemma decodeModel_rels:
  assumes "decodeModel v = Inr m" and "(ty, rels) \<in> set m"
  shows "\<exists>x. decodeRels x = Inr rels"
  using assms(1)
proof (cases rule: decodeModel_cases)
  case (2 kvs ys)
  with assms(2) have "(ty, rels) \<in> set ys" using go_map_subset by fastforce
  from traverse_set [OF 2(3) this] show ?thesis
    by (auto simp: rbind_Inr_iff)
qed (use assms(2) in simp)

lemma LoadModel_Inr:
  assumes "LoadModel data = Inr m"
  shows "m \<noteq> []" and "decodeModel data = Inr m"
    and "(ty, rels) \<in> set m \<Longrightarrow> (rel, e) \<in> set rels \<Longrightarrow> validateSelfRefs m ty rel e = Inr ()"
proof -
  have "decodeModel data = Inr m \<and> m \<noteq> [] \<and>
      (\<forall>(ty, rels) \<in> set m. \<forall>(rel, e) \<in> set rels. validateSelfRefs m ty rel e = Inr ())"
    using assms by (auto simp: LoadModel_def rbind_Inr_iff case_prod_beta split: if_splits)
  then show "m \<noteq> []" "decodeModel data = Inr m"
    "(ty, rels) \<in> set m \<Longrightarrow> (rel, e) \<in> set rels \<Longrightarrow> validateSelfRefs m ty rel e = Inr ()"
    by auto
qed

lemma LoadModel_wfModel:
  assumes "LoadModel data = Inr m"
  shows "wfModel m"
proof -
  note dm = LoadModel_Inr(2) [OF assms]
  have "wfExpr (\<lambda>r. relDef m ty r \<noteq> None) e"
    if "(ty, rels) \<in> set m" and "(rel, e) \<in> set rels" for ty rels rel e
    using that LoadModel_Inr(3) [OF assms that] decodeModel_rels [OF dm that(1)]
    by (blast intro: validateSelfRefs_wf decodeRels_shape)
  moreover have "distinct (map fst rels)" if "(ty, rels) \<in> set m" for ty rels
    using decodeModel_rels [OF dm that] by (auto dest: decodeRels_distinct)
  ultimately show ?thesis
    using decodeModel_distinct [OF dm] by (auto simp: wfModel_def)
qed

lemma wfModel_relDef: "wfModel m \<Longrightarrow> relDef m ty rel = Some e \<Longrightarrow>
    wfExpr (\<lambda>r. relDef m ty r \<noteq> None) e"
  unfolding relDef_def wfModel_def
  by (fastforce split: option.splits dest!: map_of_SomeD)

section \<open>Merging\<close>

lemma mergeInto_Inr:
  "mergeInto out other = Inr r \<Longrightarrow> r = out @ other"
  by (induction out other rule: mergeInto.induct) (auto split: if_splits)

lemma mergeInto_disjoint:
  "mergeInto out other = Inr r \<Longrightarrow> fst ` set out \<inter> fst ` set other = {}"
  by (induction out other rule: mergeInto.induct)
    (auto simp: map_of_eq_None_iff split: if_splits)

lemma mergeInto_ok:
  "distinct (map fst other) \<Longrightarrow> fst ` set out \<inter> fst ` set other = {} \<Longrightarrow>
   mergeInto out other = Inr (out @ other)"
  by (induction out other rule: mergeInto.induct) (auto simp: map_of_eq_None_iff)

lemma Merge_Inr_iff:
  assumes "distinct (map fst other)"
  shows "Merge m other = Inr r \<longleftrightarrow> fst ` set m \<inter> fst ` set other = {} \<and> r = m @ other"
  using mergeInto_ok [OF assms] mergeInto_Inr mergeInto_disjoint unfolding Merge_def by blast

lemma relDef_append:
  "relDef (m @ other) ty rel =
     (case map_of m ty of Some rels \<Rightarrow> map_of rels rel | None \<Rightarrow> relDef other ty rel)"
  by (auto simp: relDef_def map_add_def split: option.splits)

lemma Merge_wfModel:
  assumes "wfModel m" and "wfModel other" and "Merge m other = Inr r"
  shows "wfModel r"
proof -
  have dist: "distinct (map fst m)" "distinct (map fst other)"
    using assms by (auto simp: wfModel_def)
  with assms(3) have disj: "fst ` set m \<inter> fst ` set other = {}" and r: "r = m @ other"
    by (auto simp: Merge_Inr_iff)
  have left: "relDef r ty x = relDef m ty x" if "(ty, rels) \<in> set m" for ty rels x
    using that dist by (auto simp: r relDef_append relDef_def)
  have right: "relDef r ty x = relDef other ty x" if "(ty, rels) \<in> set other" for ty rels x
  proof -
    have "map_of m ty = None" using that disj by (force simp: map_of_eq_None_iff)
    then show ?thesis by (simp add: r relDef_append)
  qed
  have "distinct (map fst rels) \<and>
      (\<forall>(rel, expr) \<in> set rels. wfExpr (\<lambda>x. relDef r ty x \<noteq> None) expr)"
    if "(ty, rels) \<in> set r" for ty rels
  proof (cases "(ty, rels) \<in> set m")
    case True
    then show ?thesis using assms(1) left [OF True] by (auto simp: wfModel_def)
  next
    case False
    then have "(ty, rels) \<in> set other" using that r by simp
    then show ?thesis using assms(2) right by (auto simp: wfModel_def)
  qed
  moreover have "distinct (map fst r)" using dist disj by (simp add: r)
  ultimately show ?thesis unfolding wfModel_def by blast
qed

end
