(* ===== verification/Engine_Eval.thy ===== *)
theory Engine_Eval
  imports Engine_Model
begin

text \<open>
  The evaluator of \<open>internal/authz/engine/eval.go\<close>. A check is a program over two services,
  the tuple table and the memo: \<open>prog\<close> is the tree of the requests it makes to them, with
  one branch per answer. A sequential \<open>Check\<close> runs the tree against a private map;
  \<open>Engine_Batch\<close> interleaves several trees over one shared memo. The goroutine's own state
  (\<open>visiting\<close>, \<open>cuts\<close>) is passed explicitly in the \<open>evalCtx\<close> record.
\<close>

section \<open>Requests to the tuple table and the memo\<close>

record tupleRow =
  subjectType :: string
  subjectID :: string
  subjectRelation :: string

text \<open>\<open>CheckError\<close> codes with the values their messages print, and the wrapped database error
  of \<open>fetchRows\<close>.\<close>

datatype CheckError =
    UNKNOWN_TYPE string
  | UNKNOWN_RELATION string string
  | DEPTH_EXCEEDED string string string
  | QueryError string

datatype 'r prog =
    Ret 'r
  | FetchRows string string string "(string, tupleRow list) result \<Rightarrow> 'r prog"
  | MemoLoad string "bool option \<Rightarrow> 'r prog"
  | MemoStore string bool "'r prog"

primrec pbind :: "'a prog \<Rightarrow> ('a \<Rightarrow> 'b prog) \<Rightarrow> 'b prog" where
  "pbind (Ret x) f = f x"
| "pbind (FetchRows ot oi rel k) f = FetchRows ot oi rel (\<lambda>a. pbind (k a) f)"
| "pbind (MemoLoad key k) f = MemoLoad key (\<lambda>v. pbind (k v) f)"
| "pbind (MemoStore key b p) f = MemoStore key b (pbind p f)"

definition fetchRows :: "string \<Rightarrow> string \<Rightarrow> string \<Rightarrow> (CheckError, tupleRow list) result prog" where
  "fetchRows objType objID rel =
     FetchRows objType objID rel
       (\<lambda>a. Ret (case a of Inl err \<Rightarrow> Inl (QueryError err) | Inr rows \<Rightarrow> Inr rows))"

definition memoKey :: "string \<Rightarrow> string \<Rightarrow> string \<Rightarrow> string" where
  "memoKey objType objID rel = objType @ [nul] @ objID @ [nul] @ rel"

definition MaxDepth :: nat where
  "MaxDepth = 32"

section \<open>The evaluation context\<close>

text \<open>\<open>evalCtx\<close> without the memo, which the program tree addresses; \<open>ecModel\<close> is the
  model of the engine the context points to. The keys with \<open>visiting[key] = true\<close> are kept
  as a set.\<close>

record evalCtx =
  ecModel :: Model
  subjType :: string
  subjID :: string
  companyID :: string
  visiting :: "string set"
  cuts :: nat

definition newEvalCtx :: "Model \<Rightarrow> string \<Rightarrow> string \<Rightarrow> evalCtx" where
  "newEvalCtx m st si =
     \<lparr>ecModel = m, subjType = st, subjID = si, companyID = [], visiting = {}, cuts = 0\<rparr>"

type_synonym checkResult = "(CheckError, bool) result \<times> evalCtx"

text \<open>The recursive call \<open>ec.check(ctx, objType, objID, rel, depth+1)\<close> as the evaluation
  functions below receive it.\<close>

type_synonym checkFn = "evalCtx \<Rightarrow> string \<Rightarrow> string \<Rightarrow> string \<Rightarrow> checkResult prog"

definition subjectInCompany :: "evalCtx \<Rightarrow> string \<Rightarrow> string \<Rightarrow> (CheckError, bool) result prog" where
  "subjectInCompany ec st si =
     (if st = ''position'' \<or> st = ''group'' then
        pbind (fetchRows st si ''company'') (\<lambda>a. Ret (rbind a (\<lambda>rows.
          Inr (list_ex (\<lambda>r. subjectType r = ''company'' \<and> subjectID r = companyID ec \<and>
                            subjectRelation r = []) rows))))
      else if st = ''member'' then
        pbind (fetchRows ''company'' (companyID ec) ''member'') (\<lambda>a. Ret (rbind a (\<lambda>rows.
          Inr (list_ex (\<lambda>r. subjectType r = ''member'' \<and> subjectID r = si \<and>
                            subjectRelation r = ''mapped_user'') rows))))
      else Ret (Inr True))"

text \<open>One recursive check inside a loop that stops at the first error or the first true.\<close>

definition orElse :: "checkResult prog \<Rightarrow> (evalCtx \<Rightarrow> checkResult prog) \<Rightarrow> checkResult prog" where
  "orElse p rest = pbind p (\<lambda>(res, ec').
     case res of Inl e \<Rightarrow> Ret (Inl e, ec')
               | Inr ok \<Rightarrow> if ok then Ret (Inr True, ec') else rest ec')"

fun evalThisRows :: "checkFn \<Rightarrow> evalCtx \<Rightarrow> tupleRow list \<Rightarrow> checkResult prog" where
  "evalThisRows chk ec [] = Ret (Inr False, ec)"
| "evalThisRows chk ec (r # rows) =
     (if subjectRelation r = [] then
        (if subjectType r = subjType ec \<and> subjectID r = subjID ec then Ret (Inr True, ec)
         else evalThisRows chk ec rows)
      else if companyID ec \<noteq> [] then
        pbind (subjectInCompany ec (subjectType r) (subjectID r)) (\<lambda>inc.
          case inc of Inl e \<Rightarrow> Ret (Inl e, ec)
                    | Inr ok \<Rightarrow>
                        if \<not> ok then evalThisRows chk ec rows
                        else orElse (chk ec (subjectType r) (subjectID r) (subjectRelation r))
                               (\<lambda>ec'. evalThisRows chk ec' rows))
      else orElse (chk ec (subjectType r) (subjectID r) (subjectRelation r))
             (\<lambda>ec'. evalThisRows chk ec' rows))"

definition evalThis :: "checkFn \<Rightarrow> evalCtx \<Rightarrow> string \<Rightarrow> string \<Rightarrow> string \<Rightarrow> checkResult prog" where
  "evalThis chk ec objType objID rel =
     pbind (fetchRows objType objID rel) (\<lambda>a.
       case a of Inl e \<Rightarrow> Ret (Inl e, ec) | Inr rows \<Rightarrow> evalThisRows chk ec rows)"

fun evalTTURows :: "checkFn \<Rightarrow> evalCtx \<Rightarrow> string \<Rightarrow> tupleRow list \<Rightarrow> checkResult prog" where
  "evalTTURows chk ec cu [] = Ret (Inr False, ec)"
| "evalTTURows chk ec cu (r # rows) =
     (if subjectRelation r \<noteq> [] then evalTTURows chk ec cu rows
      else orElse (chk ec (subjectType r) (subjectID r) cu) (\<lambda>ec'. evalTTURows chk ec' cu rows))"

definition evalTupleToUserset ::
  "checkFn \<Rightarrow> evalCtx \<Rightarrow> string \<Rightarrow> string \<Rightarrow> string \<Rightarrow> string \<Rightarrow> checkResult prog" where
  "evalTupleToUserset chk ec objType objID ts cu =
     pbind (fetchRows objType objID ts) (\<lambda>a.
       case a of Inl e \<Rightarrow> Ret (Inl e, ec) | Inr rows \<Rightarrow> evalTTURows chk ec cu rows)"

fun evalExpr :: "checkFn \<Rightarrow> evalCtx \<Rightarrow> string \<Rightarrow> string \<Rightarrow> string \<Rightarrow> Expr \<Rightarrow> checkResult prog"
and evalUnion :: "checkFn \<Rightarrow> evalCtx \<Rightarrow> string \<Rightarrow> string \<Rightarrow> string \<Rightarrow> Expr list \<Rightarrow> checkResult prog"
and evalIntersection ::
  "checkFn \<Rightarrow> evalCtx \<Rightarrow> string \<Rightarrow> string \<Rightarrow> string \<Rightarrow> Expr list \<Rightarrow> checkResult prog" where
  "evalExpr chk ec objType objID rel kindThis = evalThis chk ec objType objID rel"
| "evalExpr chk ec objType objID rel (kindComputedUserset r) = chk ec objType objID r"
| "evalExpr chk ec objType objID rel (kindTupleToUserset ts cu) =
     evalTupleToUserset chk ec objType objID ts cu"
| "evalExpr chk ec objType objID rel (kindUnion es) = evalUnion chk ec objType objID rel es"
| "evalExpr chk ec objType objID rel (kindIntersection es) =
     evalIntersection chk ec objType objID rel es"
| "evalUnion chk ec objType objID rel [] = Ret (Inr False, ec)"
| "evalUnion chk ec objType objID rel (child # es) =
     orElse (evalExpr chk ec objType objID rel child)
       (\<lambda>ec'. evalUnion chk ec' objType objID rel es)"
| "evalIntersection chk ec objType objID rel [] = Ret (Inr True, ec)"
| "evalIntersection chk ec objType objID rel (child # es) =
     pbind (evalExpr chk ec objType objID rel child) (\<lambda>(res, ec').
       case res of Inl e \<Rightarrow> Ret (Inl e, ec')
                 | Inr ok \<Rightarrow> if \<not> ok then Ret (Inr False, ec')
                            else evalIntersection chk ec' objType objID rel es)"

text \<open>\<open>ec.check\<close>: memo, cycle cut, depth fence, model lookup, evaluation under the in-progress
  marker, and the store of a definitive answer.\<close>

function check :: "evalCtx \<Rightarrow> string \<Rightarrow> string \<Rightarrow> string \<Rightarrow> nat \<Rightarrow> checkResult prog" where
  "check ec objType objID rel depth =
     MemoLoad (memoKey objType objID rel) (\<lambda>v.
       case v of
         Some b \<Rightarrow> Ret (Inr b, ec)
       | None \<Rightarrow>
           if memoKey objType objID rel \<in> visiting ec
           then Ret (Inr False, ec\<lparr>cuts := Suc (cuts ec)\<rparr>)
           else if MaxDepth < depth then Ret (Inl (DEPTH_EXCEEDED objType objID rel), ec)
           else
             case map_of (ecModel ec) objType of
               None \<Rightarrow> Ret (Inl (UNKNOWN_TYPE objType), ec)
             | Some typeDef \<Rightarrow>
                 (case map_of typeDef rel of
                    None \<Rightarrow> Ret (Inl (UNKNOWN_RELATION rel objType), ec)
                  | Some expr \<Rightarrow>
                      pbind (evalExpr (\<lambda>ec' ot oi r. check ec' ot oi r (Suc depth))
                               (ec\<lparr>visiting := insert (memoKey objType objID rel) (visiting ec)\<rparr>)
                               objType objID rel expr)
                        (\<lambda>(res, ec').
                           let ec2 = ec'\<lparr>visiting := visiting ec' - {memoKey objType objID rel}\<rparr>
                           in case res of
                                Inl e \<Rightarrow> Ret (Inl e, ec2)
                              | Inr result \<Rightarrow>
                                  if result \<or> cuts ec2 = cuts ec
                                  then MemoStore (memoKey objType objID rel) result
                                         (Ret (Inr result, ec2))
                                  else Ret (Inr result, ec2))))"
  by pat_completeness auto
termination
  by (relation "measure (\<lambda>(ec, ot, oi, r, depth). Suc MaxDepth - depth)") auto

declare check.simps [simp del]

section \<open>Running a check\<close>

text \<open>The Go interface \<open>memo\<close> as its two methods, and the two implementations: the private map
  of a single check and the \<open>sync.Map\<close> of a batch, whose \<open>LoadOrStore\<close> keeps the first
  value.\<close>

record 'm memo_ops =
  memo_load :: "'m \<Rightarrow> string \<Rightarrow> bool option"
  memo_store :: "'m \<Rightarrow> string \<Rightarrow> bool \<Rightarrow> 'm"

type_synonym memoMap = "string \<Rightarrow> bool option"

definition mapMemo_load :: "memoMap \<Rightarrow> string \<Rightarrow> bool option" where
  "mapMemo_load m key = m key"

definition mapMemo_store :: "memoMap \<Rightarrow> string \<Rightarrow> bool \<Rightarrow> memoMap" where
  "mapMemo_store m key v = m(key \<mapsto> v)"

definition mapMemo :: "memoMap memo_ops" where
  "mapMemo = \<lparr>memo_load = mapMemo_load, memo_store = mapMemo_store\<rparr>"

definition syncMapMemo_load :: "memoMap \<Rightarrow> string \<Rightarrow> bool option" where
  "syncMapMemo_load m key = m key"

definition syncMapMemo_store :: "memoMap \<Rightarrow> string \<Rightarrow> bool \<Rightarrow> memoMap" where
  "syncMapMemo_store m key v = (case m key of None \<Rightarrow> m(key \<mapsto> v) | Some _ \<Rightarrow> m)"

definition syncMapMemo :: "memoMap memo_ops" where
  "syncMapMemo = \<lparr>memo_load = syncMapMemo_load, memo_store = syncMapMemo_store\<rparr>"

text \<open>The rows the query \<open>sqlTupleRows\<close> answers, or a database error.\<close>

type_synonym tupleDB = "string \<Rightarrow> string \<Rightarrow> string \<Rightarrow> (string, tupleRow list) result"

primrec run :: "tupleDB \<Rightarrow> 'm memo_ops \<Rightarrow> 'm \<Rightarrow> 'r prog \<Rightarrow> 'r \<times> 'm" where
  "run db ops m (Ret x) = (x, m)"
| "run db ops m (FetchRows ot oi rel k) = run db ops m (k (db ot oi rel))"
| "run db ops m (MemoLoad key k) = run db ops m (k (memo_load ops m key))"
| "run db ops m (MemoStore key b p) = run db ops (memo_store ops m key b) p"

definition Check ::
  "tupleDB \<Rightarrow> Model \<Rightarrow> string \<Rightarrow> string \<Rightarrow> string \<Rightarrow> string \<Rightarrow> string \<Rightarrow> (CheckError, bool) result" where
  "Check db m objType objID rel st si =
     fst (fst (run db mapMemo Map.empty (check (newEvalCtx m st si) objType objID rel 0)))"

definition CheckInCompany ::
  "tupleDB \<Rightarrow> Model \<Rightarrow> string \<Rightarrow> string \<Rightarrow> string \<Rightarrow> string \<Rightarrow> string \<Rightarrow> string \<Rightarrow>
   (CheckError, bool) result" where
  "CheckInCompany db m objType objID rel st si company =
     fst (fst (run db mapMemo Map.empty
       (check ((newEvalCtx m st si)\<lparr>companyID := company\<rparr>) objType objID rel 0)))"

lemma run_pbind:
  "run db ops m (pbind p f) = (case run db ops m p of (x, m') \<Rightarrow> run db ops m' (f x))"
  by (induction p arbitrary: m) auto

lemma CheckInCompany_no_company: "CheckInCompany db m ot oi rel st si [] = Check db m ot oi rel st si"
  by (simp add: CheckInCompany_def Check_def newEvalCtx_def)

end
