(* ===== verification/Engine_Spec.thy ===== *)
theory Engine_Spec
  imports Engine_Eval
begin

text \<open>
  The declarative meaning of a model over a set of tuples, and the proof that the evaluator
  computes it. \<open>granted\<close> is the least relation closed under the relation definitions, which
  is what the memo, the cycle cut and the depth fence of \<open>eval.go\<close> must not change.
\<close>

section \<open>Declarative semantics\<close>

type_synonym node = "string \<times> string \<times> string"

text \<open>\<open>R ot oi rel\<close> is the set of subjects of the tuples \<open>ot:oi#rel\<close>.\<close>

type_synonym tupleRel = "string \<Rightarrow> string \<Rightarrow> string \<Rightarrow> tupleRow set"

definition inCompany :: "tupleRel \<Rightarrow> string \<Rightarrow> string \<Rightarrow> string \<Rightarrow> bool" where
  "inCompany R cid st si \<longleftrightarrow>
     (if st = ''position'' \<or> st = ''group'' then
        (\<exists>r \<in> R st si ''company''.
           subjectType r = ''company'' \<and> subjectID r = cid \<and> subjectRelation r = [])
      else if st = ''member'' then
        (\<exists>r \<in> R ''company'' cid ''member''.
           subjectType r = ''member'' \<and> subjectID r = si \<and> subjectRelation r = ''mapped_user'')
      else True)"

text \<open>A row of a direct relation supports its object when it names the subject, or a userset
  already granted; with a company, only a userset of that company counts.\<close>

definition supports ::
  "tupleRel \<Rightarrow> string \<times> string \<Rightarrow> string \<Rightarrow> (node \<Rightarrow> bool) \<Rightarrow> tupleRow \<Rightarrow> bool" where
  "supports R s cid X r \<longleftrightarrow>
     (if subjectRelation r = [] then (subjectType r, subjectID r) = s
      else (cid = [] \<or> inCompany R cid (subjectType r) (subjectID r)) \<and>
           X (subjectType r, subjectID r, subjectRelation r))"

fun sat ::
  "tupleRel \<Rightarrow> string \<times> string \<Rightarrow> string \<Rightarrow> (node \<Rightarrow> bool) \<Rightarrow> node \<Rightarrow> Expr \<Rightarrow> bool" where
  "sat R s cid X (ot, oi, rel) kindThis = (\<exists>r \<in> R ot oi rel. supports R s cid X r)"
| "sat R s cid X (ot, oi, rel) (kindComputedUserset r) = X (ot, oi, r)"
| "sat R s cid X (ot, oi, rel) (kindTupleToUserset ts cu) =
     (\<exists>r \<in> R ot oi ts. subjectRelation r = [] \<and> X (subjectType r, subjectID r, cu))"
| "sat R s cid X n (kindUnion es) = (\<exists>e \<in> set es. sat R s cid X n e)"
| "sat R s cid X n (kindIntersection es) = (\<forall>e \<in> set es. sat R s cid X n e)"

lemma supports_mono: "(\<And>n. X n \<Longrightarrow> Y n) \<Longrightarrow> supports R s cid X r \<Longrightarrow> supports R s cid Y r"
  by (auto simp: supports_def)

lemma sat_mono_rule: "(\<And>n. X n \<Longrightarrow> Y n) \<Longrightarrow> sat R s cid X n e \<Longrightarrow> sat R s cid Y n e"
proof (induction R s cid X n e rule: sat.induct)
  case (1 R s cid X ot oi rel)
  then show ?case using supports_mono [of X Y] by simp blast
qed auto

lemma sat_mono [mono]:
  "(\<And>n. X n \<longrightarrow> Y n) \<Longrightarrow> sat R s cid X n e \<longrightarrow> sat R s cid Y n e"
  using sat_mono_rule by blast

text \<open>\<open>granted R M s cid V n\<close>: subject \<open>s\<close> has the relation \<open>n\<close>, where the nodes in
  \<open>V\<close> contribute nothing. With \<open>V = {}\<close> this is the meaning of a check; a non-empty
  \<open>V\<close> is what a check under the in-progress markers \<open>V\<close> may still use.\<close>

inductive granted ::
  "tupleRel \<Rightarrow> Model \<Rightarrow> string \<times> string \<Rightarrow> string \<Rightarrow> node set \<Rightarrow> node \<Rightarrow> bool"
  for R :: tupleRel and M :: Model and s :: "string \<times> string" and cid :: string and V :: "node set"
  where
    grant: "(ot, oi, rel) \<notin> V \<Longrightarrow> relDef M ot rel = Some e \<Longrightarrow>
      sat R s cid (granted R M s cid V) (ot, oi, rel) e \<Longrightarrow> granted R M s cid V (ot, oi, rel)"

inductive_simps granted_iff: "granted R M s cid V (ot, oi, rel)"

lemma granted_antimono: "granted R M s cid V n \<Longrightarrow> V' \<subseteq> V \<Longrightarrow> granted R M s cid V' n"
proof (induction rule: granted.induct)
  case (grant ot oi rel e)
  from grant.IH have "sat R s cid (granted R M s cid V') (ot, oi, rel) e"
    by (rule sat_mono_rule [rotated]) (use grant.prems in auto)
  with grant show ?case by (auto intro: granted.grant)
qed

text \<open>A node granted at all is granted by a derivation that does not use the node itself, so the
  cycle cut loses nothing.\<close>

lemma granted_without_self:
  assumes "granted R M s cid V n" and "n = (ot, oi, rel)"
  shows "\<exists>e. relDef M ot rel = Some e \<and> sat R s cid (granted R M s cid (insert n V)) n e"
proof (rule ccontr)
  assume neg: "\<not> ?thesis"
  have "granted R M s cid (insert n V) m" if "granted R M s cid V m" for m
    using that
  proof (induction rule: granted.induct)
    case (grant ot' oi' rel' e)
    then have s: "sat R s cid (granted R M s cid (insert n V)) (ot', oi', rel') e"
      by (auto elim: sat_mono_rule [rotated])
    with neg assms(2) grant.hyps(2) have "(ot', oi', rel') \<noteq> n" by auto
    with s grant.hyps show ?case by (auto intro: granted.grant)
  qed
  then have "granted R M s cid (insert n V) n" using assms(1) .
  then show False using assms(2) by (auto simp: granted_iff)
qed

section \<open>Correctness of a program over truthful services\<close>

text \<open>\<open>progOk T A Q p\<close>: whatever admissible answers (\<open>A\<close>) the table gives and whatever
  truthful entries (\<open>T\<close>) the memo returns, each answer chosen afresh at each request,
  \<open>p\<close> stores only truthful entries and ends in a result satisfying \<open>Q\<close>.\<close>

primrec progOk ::
  "(string \<Rightarrow> bool \<Rightarrow> bool) \<Rightarrow> (string \<Rightarrow> string \<Rightarrow> string \<Rightarrow> (string, tupleRow list) result \<Rightarrow> bool) \<Rightarrow>
   ('r \<Rightarrow> bool) \<Rightarrow> 'r prog \<Rightarrow> bool" where
  "progOk T A Q (Ret x) = Q x"
| "progOk T A Q (FetchRows ot oi rel k) = (\<forall>a. A ot oi rel a \<longrightarrow> progOk T A Q (k a))"
| "progOk T A Q (MemoLoad key k) =
     (progOk T A Q (k None) \<and> (\<forall>b. T key b \<longrightarrow> progOk T A Q (k (Some b))))"
| "progOk T A Q (MemoStore key b p) = (T key b \<and> progOk T A Q p)"

lemma progOk_mono: "progOk T A Q p \<Longrightarrow> (\<And>x. Q x \<Longrightarrow> Q' x) \<Longrightarrow> progOk T A Q' p"
  by (induction p) auto

lemma progOk_pbind: "progOk T A Q (pbind p f) \<longleftrightarrow> progOk T A (\<lambda>x. progOk T A Q (f x)) p"
  by (induction p) auto

text \<open>The interface \<open>memo\<close>: what a store may change. Both implementations of \<open>eval.go\<close> and
  \<open>batch.go\<close> satisfy it, and running a correct program needs no more.\<close>

locale memo =
  fixes load :: "'m \<Rightarrow> string \<Rightarrow> bool option"
    and store :: "'m \<Rightarrow> string \<Rightarrow> bool \<Rightarrow> 'm"
    and fresh :: "'m"
  assumes load_fresh: "load fresh key = None"
    and load_store: "load m key = None \<Longrightarrow> load (store m key b) key = Some b"
    and load_store_other: "key' \<noteq> key \<Longrightarrow> load (store m key b) key' = load m key'"
    and load_store_kept: "load m key = Some c \<Longrightarrow> load (store m key b) key \<in> {Some b, Some c}"
begin

definition truthful :: "(string \<Rightarrow> bool \<Rightarrow> bool) \<Rightarrow> 'm \<Rightarrow> bool" where
  "truthful T m \<longleftrightarrow> (\<forall>key b. load m key = Some b \<longrightarrow> T key b)"

lemma truthful_fresh: "truthful T fresh"
  by (simp add: truthful_def load_fresh)

lemma truthful_store: "truthful T m \<Longrightarrow> T key b \<Longrightarrow> truthful T (store m key b)"
  unfolding truthful_def using load_store load_store_other load_store_kept
  by (metis insertE not_Some_eq option.inject singletonD)

lemma run_progOk:
  assumes "progOk T A Q p" and "truthful T m" and "\<And>ot oi rel. A ot oi rel (db ot oi rel)"
  shows "Q (fst (run db \<lparr>memo_load = load, memo_store = store\<rparr> m p)) \<and>
         truthful T (snd (run db \<lparr>memo_load = load, memo_store = store\<rparr> m p))"
  using assms(1,2)
proof (induction p arbitrary: m)
  case (MemoLoad key k)
  then have "progOk T A Q (k (load m key))"
    by (cases "load m key") (auto simp: truthful_def)
  with MemoLoad show ?case by simp
next
  case (MemoStore key b p)
  then show ?case by (auto intro: truthful_store)
qed (use assms(3) in auto)

end

interpretation mapMemo: memo mapMemo_load mapMemo_store Map.empty
  by unfold_locales (auto simp: mapMemo_load_def mapMemo_store_def)

interpretation syncMapMemo: memo syncMapMemo_load syncMapMemo_store Map.empty
  by unfold_locales (auto simp: syncMapMemo_load_def syncMapMemo_store_def split: option.splits)

section \<open>Memo keys\<close>

fun nulFreeNode :: "node \<Rightarrow> bool" where
  "nulFreeNode (ot, oi, rel) = (nul_free ot \<and> nul_free oi \<and> nul_free rel)"

fun nodeKey :: "node \<Rightarrow> string" where
  "nodeKey (ot, oi, rel) = memoKey ot oi rel"

lemma memoKey_inject:
  assumes "nul_free ot" "nul_free ot'" "nul_free oi" "nul_free oi'"
    and "memoKey ot oi rel = memoKey ot' oi' rel'"
  shows "ot = ot' \<and> oi = oi' \<and> rel = rel'"
  using append_nul_inject [of ot ot' "oi @ nul # rel" "oi' @ nul # rel'"]
    append_nul_inject [of oi oi' rel rel'] assms
  by (auto simp: memoKey_def)

lemma nodeKey_inject: "nulFreeNode n \<Longrightarrow> nulFreeNode n' \<Longrightarrow> nodeKey n = nodeKey n' \<longleftrightarrow> n = n'"
  by (cases n; cases n'; simp) (metis memoKey_inject)

lemma nodeKey_image: "nulFreeNode n \<Longrightarrow> \<forall>m \<in> V. nulFreeNode m \<Longrightarrow> nodeKey n \<in> nodeKey ` V \<longleftrightarrow> n \<in> V"
  by (auto simp: image_iff nodeKey_inject)

fun nulFreeExpr :: "Expr \<Rightarrow> bool" where
  "nulFreeExpr kindThis = True"
| "nulFreeExpr (kindComputedUserset r) = nul_free r"
| "nulFreeExpr (kindTupleToUserset ts cu) = nul_free cu"
| "nulFreeExpr (kindUnion es) = (\<forall>e \<in> set es. nulFreeExpr e)"
| "nulFreeExpr (kindIntersection es) = (\<forall>e \<in> set es. nulFreeExpr e)"

definition nulFreeModel :: "Model \<Rightarrow> bool" where
  "nulFreeModel M \<longleftrightarrow> (\<forall>(ty, rels) \<in> set M. \<forall>(rel, e) \<in> set rels. nulFreeExpr e)"

definition nulFreeRow :: "tupleRow \<Rightarrow> bool" where
  "nulFreeRow r \<longleftrightarrow> nulFreeNode (subjectType r, subjectID r, subjectRelation r)"

definition nulFreeRows :: "tupleRel \<Rightarrow> bool" where
  "nulFreeRows R \<longleftrightarrow> (\<forall>ot oi rel. \<forall>r \<in> R ot oi rel. nulFreeRow r)"

lemma nulFreeModel_relDef: "nulFreeModel M \<Longrightarrow> relDef M ty rel = Some e \<Longrightarrow> nulFreeExpr e"
  by (auto simp: nulFreeModel_def relDef_def split: option.splits dest!: map_of_SomeD)

section \<open>What one evaluation step promises\<close>

definition sameCtx :: "evalCtx \<Rightarrow> evalCtx \<Rightarrow> bool" where
  "sameCtx ec ec' \<longleftrightarrow> ecModel ec' = ecModel ec \<and> subjType ec' = subjType ec \<and>
     subjID ec' = subjID ec \<and> companyID ec' = companyID ec \<and> visiting ec' = visiting ec \<and>
     cuts ec \<le> cuts ec'"

text \<open>\<open>verdict ec P PV\<close>: a true answer establishes \<open>P\<close>; a false one refutes \<open>PV\<close>, the
  version of \<open>P\<close> under the in-progress markers, and refutes \<open>P\<close> itself when no cycle was
  cut on the way.\<close>

definition verdict :: "evalCtx \<Rightarrow> bool \<Rightarrow> bool \<Rightarrow> checkResult \<Rightarrow> bool" where
  "verdict ec P PV x \<longleftrightarrow> sameCtx ec (snd x) \<and>
     (\<forall>b. fst x = Inr b \<longrightarrow>
        (b \<longrightarrow> P) \<and> (\<not> b \<longrightarrow> \<not> PV) \<and> (\<not> b \<and> cuts (snd x) = cuts ec \<longrightarrow> \<not> P))"

lemma sameCtx_refl [simp]: "sameCtx ec ec"
  by (simp add: sameCtx_def)

lemma sameCtx_trans: "sameCtx a b \<Longrightarrow> sameCtx b c \<Longrightarrow> sameCtx a c"
  by (auto simp: sameCtx_def)

lemma verdict_Inl: "verdict ec P PV (Inl e, ec)"
  by (simp add: verdict_def)

lemma verdict_seq_false:
  assumes "verdict ec P PV (Inr False, ec')" and "verdict ec' Q QV x"
  shows "verdict ec (P \<or> Q) (PV \<or> QV) x"
  using assms by (auto simp: verdict_def sameCtx_def)

lemma verdict_seq_true:
  assumes "verdict ec P PV (Inr True, ec')" and "verdict ec' Q QV x" and "QV \<Longrightarrow> Q"
  shows "verdict ec (P \<and> Q) (PV \<and> QV) x"
  using assms by (auto simp: verdict_def sameCtx_def)

lemma orElse_ok:
  assumes "progOk T A (verdict ec P PV) p"
    and "\<And>ec'. sameCtx ec ec' \<Longrightarrow> progOk T A (verdict ec' Q QV) (rest ec')"
  shows "progOk T A (verdict ec (P \<or> Q) (PV \<or> QV)) (orElse p rest)"
  unfolding orElse_def progOk_pbind
proof (rule progOk_mono [OF assms(1)])
  fix x assume v: "verdict ec P PV x"
  obtain res ec' where x: "x = (res, ec')" by (cases x)
  show "progOk T A (verdict ec (P \<or> Q) (PV \<or> QV))
          (case x of (res, ec') \<Rightarrow> case res of Inl e \<Rightarrow> Ret (Inl e, ec')
             | Inr ok \<Rightarrow> if ok then Ret (Inr True, ec') else rest ec')"
  proof (cases res)
    case (Inl e)
    with v x show ?thesis by (auto simp: verdict_def)
  next
    case (Inr ok)
    show ?thesis
    proof (cases ok)
      case True
      with v x Inr show ?thesis by (auto simp: verdict_def)
    next
      case False
      with v x Inr have "sameCtx ec ec'" and f: "verdict ec P PV (Inr False, ec')"
        by (auto simp: verdict_def)
      from progOk_mono [OF assms(2) [OF this(1)] verdict_seq_false [OF f]]
      show ?thesis using x Inr False by simp
    qed
  qed
qed

lemma andThen_ok:
  assumes "progOk T A (verdict ec P PV) p"
    and "\<And>ec'. sameCtx ec ec' \<Longrightarrow> progOk T A (verdict ec' Q QV) (rest ec')" and "QV \<Longrightarrow> Q"
    and "PV \<Longrightarrow> P"
  shows "progOk T A (verdict ec (P \<and> Q) (PV \<and> QV))
    (pbind p (\<lambda>(res, ec'). case res of Inl e \<Rightarrow> Ret (Inl e, ec')
       | Inr ok \<Rightarrow> if \<not> ok then Ret (Inr False, ec') else rest ec'))"
  unfolding progOk_pbind
proof (rule progOk_mono [OF assms(1)])
  fix x assume v: "verdict ec P PV x"
  obtain res ec' where x: "x = (res, ec')" by (cases x)
  show "progOk T A (verdict ec (P \<and> Q) (PV \<and> QV))
          (case x of (res, ec') \<Rightarrow> case res of Inl e \<Rightarrow> Ret (Inl e, ec')
             | Inr ok \<Rightarrow> if \<not> ok then Ret (Inr False, ec') else rest ec')"
  proof (cases res)
    case (Inl e)
    with v x show ?thesis by (auto simp: verdict_def)
  next
    case (Inr ok)
    show ?thesis
    proof (cases ok)
      case True
      with v x Inr have "sameCtx ec ec'" and f: "verdict ec P PV (Inr True, ec')"
        by (auto simp: verdict_def)
      from progOk_mono [OF assms(2) [OF this(1)] verdict_seq_true [OF f _ assms(3)]]
      show ?thesis using x Inr True by simp
    next
      case False
      with v x Inr show ?thesis by (auto simp: verdict_def)
    qed
  qed
qed

section \<open>Correctness of the evaluator\<close>

text \<open>The tuple table answers a query with its rows, in any order and with any multiplicity, or
  with an error; it may answer the same query differently each time.\<close>

definition answers :: "tupleRel \<Rightarrow> string \<Rightarrow> string \<Rightarrow> string \<Rightarrow> (string, tupleRow list) result \<Rightarrow> bool" where
  "answers R ot oi rel a \<longleftrightarrow> (\<forall>rows. a = Inr rows \<longrightarrow> set rows = R ot oi rel)"

definition chkOk ::
  "(string \<Rightarrow> bool \<Rightarrow> bool) \<Rightarrow> tupleRel \<Rightarrow> Model \<Rightarrow> string \<times> string \<Rightarrow> string \<Rightarrow> node set \<Rightarrow>
   evalCtx \<Rightarrow> checkFn \<Rightarrow> bool" where
  "chkOk T R M s cid V ec chk \<longleftrightarrow>
     (subjType ec, subjID ec) = s \<and> companyID ec = cid \<and>
     (\<forall>ec' ot oi rel. sameCtx ec ec' \<longrightarrow> nulFreeNode (ot, oi, rel) \<longrightarrow>
        progOk T (answers R)
          (verdict ec' (granted R M s cid {} (ot, oi, rel)) (granted R M s cid V (ot, oi, rel)))
          (chk ec' ot oi rel))"

lemma chkOkD: "chkOk T R M s cid V ec chk \<Longrightarrow> nulFreeNode (ot, oi, rel) \<Longrightarrow>
    progOk T (answers R)
      (verdict ec (granted R M s cid {} (ot, oi, rel)) (granted R M s cid V (ot, oi, rel)))
      (chk ec ot oi rel)"
  by (auto simp: chkOk_def)

lemma chkOk_sameCtx: "chkOk T R M s cid V ec chk \<Longrightarrow> sameCtx ec ec' \<Longrightarrow> chkOk T R M s cid V ec' chk"
  unfolding chkOk_def using sameCtx_trans by (auto simp: sameCtx_def)

lemma subjectInCompany_ok:
  "progOk T (answers R) (\<lambda>res. \<forall>b. res = Inr b \<longrightarrow> b = inCompany R (companyID ec) st si)
     (subjectInCompany ec st si)"
  by (auto simp: subjectInCompany_def fetchRows_def answers_def inCompany_def list_ex_iff
      rbind_Inr_iff split: sum.splits)

lemma granted_empty: "granted R M s cid V n \<Longrightarrow> granted R M s cid {} n"
  by (rule granted_antimono) auto

lemma evalThisRows_ok:
  assumes "chkOk T R M s cid V ec chk" and "\<forall>r \<in> set rows. nulFreeRow r"
  shows "progOk T (answers R)
    (verdict ec (\<exists>r \<in> set rows. supports R s cid (granted R M s cid {}) r)
                (\<exists>r \<in> set rows. supports R s cid (granted R M s cid V) r))
    (evalThisRows chk ec rows)"
  using assms
proof (induction rows arbitrary: ec)
  case Nil
  then show ?case by (simp add: verdict_def)
next
  case (Cons r rows)
  let ?S = "supports R s cid (granted R M s cid {})"
  let ?SV = "supports R s cid (granted R M s cid V)"
  have ctx: "subjType ec = fst s" "subjID ec = snd s" "companyID ec = cid"
    using Cons.prems(1) by (auto simp: chkOk_def)
  have rest: "progOk T (answers R) (verdict ec' (\<exists>r \<in> set rows. ?S r) (\<exists>r \<in> set rows. ?SV r))
      (evalThisRows chk ec' rows)" if "sameCtx ec ec'" for ec'
    using Cons.IH [OF chkOk_sameCtx [OF Cons.prems(1) that]] Cons.prems(2) by simp
  let ?n = "(subjectType r, subjectID r, subjectRelation r)"
  have "nulFreeNode ?n" using Cons.prems(2) by (simp add: nulFreeRow_def)
  note descend = orElse_ok [OF chkOkD [OF Cons.prems(1) this] rest]
  show ?case
  proof (cases "subjectRelation r = []")
    case True
    then have sup: "supports R s cid X r \<longleftrightarrow> subjectType r = subjType ec \<and> subjectID r = subjID ec" for X
      using ctx by (cases s) (simp add: supports_def)
    show ?thesis
    proof (cases "subjectType r = subjType ec \<and> subjectID r = subjID ec")
      case True
      with sup \<open>subjectRelation r = []\<close> show ?thesis by (simp add: verdict_def)
    next
      case False
      with sup rest [of ec] \<open>subjectRelation r = []\<close> show ?thesis by auto
    qed
  next
    case userset: False
    show ?thesis
    proof (cases "cid = []")
      case True
      with userset descend ctx show ?thesis
        by (simp add: supports_def)
    next
      case False
      have "progOk T (answers R) (verdict ec (\<exists>r \<in> set (r # rows). ?S r) (\<exists>r \<in> set (r # rows). ?SV r))
        (case inc of Inl e \<Rightarrow> Ret (Inl e, ec)
           | Inr ok \<Rightarrow> if \<not> ok then evalThisRows chk ec rows
               else orElse (chk ec (subjectType r) (subjectID r) (subjectRelation r))
                 (\<lambda>ec'. evalThisRows chk ec' rows))"
        if "\<forall>b. inc = Inr b \<longrightarrow> b = inCompany R cid (subjectType r) (subjectID r)" for inc
        using that userset False descend rest [of ec]
        by (cases inc) (auto simp: supports_def verdict_Inl)
      from progOk_mono [OF subjectInCompany_ok [of T R ec "subjectType r" "subjectID r"]] this
      show ?thesis using userset False ctx by (simp add: progOk_pbind)
    qed
  qed
qed

lemma fetchRows_ok:
  assumes "\<And>rows. set rows = R ot oi rel \<Longrightarrow> progOk T (answers R) (verdict ec P PV) (f rows)"
  shows "progOk T (answers R) (verdict ec P PV)
    (pbind (fetchRows ot oi rel) (\<lambda>a. case a of Inl e \<Rightarrow> Ret (Inl e, ec) | Inr rows \<Rightarrow> f rows))"
  using assms by (auto simp: fetchRows_def answers_def verdict_Inl split: sum.splits)

lemma evalTTURows_ok:
  assumes "chkOk T R M s cid V ec chk" and "\<forall>r \<in> set rows. nulFreeRow r" and "nul_free cu"
  shows "progOk T (answers R)
    (verdict ec
       (\<exists>r \<in> set rows. subjectRelation r = [] \<and> granted R M s cid {} (subjectType r, subjectID r, cu))
       (\<exists>r \<in> set rows. subjectRelation r = [] \<and> granted R M s cid V (subjectType r, subjectID r, cu)))
    (evalTTURows chk ec cu rows)"
  using assms(1,2)
proof (induction rows arbitrary: ec)
  case Nil
  then show ?case by (simp add: verdict_def)
next
  case (Cons r rows)
  have rest: "progOk T (answers R) (verdict ec'
       (\<exists>r \<in> set rows. subjectRelation r = [] \<and> granted R M s cid {} (subjectType r, subjectID r, cu))
       (\<exists>r \<in> set rows. subjectRelation r = [] \<and> granted R M s cid V (subjectType r, subjectID r, cu)))
     (evalTTURows chk ec' cu rows)" if "sameCtx ec ec'" for ec'
    using Cons.IH [OF chkOk_sameCtx [OF Cons.prems(1) that]] Cons.prems(2) by simp
  have "nulFreeNode (subjectType r, subjectID r, cu)"
    using Cons.prems(2) assms(3) by (simp add: nulFreeRow_def)
  note descend = orElse_ok [OF chkOkD [OF Cons.prems(1) this] rest]
  show ?case
  proof (cases "subjectRelation r = []")
    case True
    with descend show ?thesis by simp
  next
    case False
    with rest [of ec] show ?thesis by simp
  qed
qed

lemma evalExpr_ok:
  assumes "nulFreeRows R" and "nul_free ot" and "nul_free oi"
  shows "chkOk T R M s cid V ec chk \<Longrightarrow> nulFreeExpr e \<Longrightarrow>
     progOk T (answers R)
       (verdict ec (sat R s cid (granted R M s cid {}) (ot, oi, rel) e)
                   (sat R s cid (granted R M s cid V) (ot, oi, rel) e))
       (evalExpr chk ec ot oi rel e)"
    and "chkOk T R M s cid V ec chk \<Longrightarrow> \<forall>e \<in> set es. nulFreeExpr e \<Longrightarrow>
     progOk T (answers R)
       (verdict ec (\<exists>e \<in> set es. sat R s cid (granted R M s cid {}) (ot, oi, rel) e)
                   (\<exists>e \<in> set es. sat R s cid (granted R M s cid V) (ot, oi, rel) e))
       (evalUnion chk ec ot oi rel es)"
    and "chkOk T R M s cid V ec chk \<Longrightarrow> \<forall>e \<in> set es. nulFreeExpr e \<Longrightarrow>
     progOk T (answers R)
       (verdict ec (\<forall>e \<in> set es. sat R s cid (granted R M s cid {}) (ot, oi, rel) e)
                   (\<forall>e \<in> set es. sat R s cid (granted R M s cid V) (ot, oi, rel) e))
       (evalIntersection chk ec ot oi rel es)"
  using assms(2,3)
proof (induction chk ec ot oi rel e and chk ec ot oi rel es and chk ec ot oi rel es
    rule: evalExpr_evalUnion_evalIntersection.induct)
  case (1 chk ec ot oi rel)
  show ?case
    unfolding evalExpr.simps evalThis_def sat.simps
  proof (rule fetchRows_ok)
    fix rows assume "set rows = R ot oi rel"
    with evalThisRows_ok [OF 1(1), of rows] assms(1)
    show "progOk T (answers R)
        (verdict ec (\<exists>r \<in> R ot oi rel. supports R s cid (granted R M s cid {}) r)
                    (\<exists>r \<in> R ot oi rel. supports R s cid (granted R M s cid V) r))
        (evalThisRows chk ec rows)"
      by (simp add: nulFreeRows_def)
  qed
next
  case (2 chk ec ot oi rel r)
  then show ?case by (simp add: chkOkD)
next
  case (3 chk ec ot oi rel ts cu)
  show ?case
    unfolding evalExpr.simps evalTupleToUserset_def sat.simps
  proof (rule fetchRows_ok)
    fix rows assume "set rows = R ot oi ts"
    with evalTTURows_ok [OF 3(1), of rows cu] assms(1) 3(2)
    show "progOk T (answers R)
        (verdict ec
          (\<exists>r \<in> R ot oi ts. subjectRelation r = [] \<and> granted R M s cid {} (subjectType r, subjectID r, cu))
          (\<exists>r \<in> R ot oi ts. subjectRelation r = [] \<and> granted R M s cid V (subjectType r, subjectID r, cu)))
        (evalTTURows chk ec cu rows)"
      by (simp add: nulFreeRows_def)
  qed
next
  case (7 chk ec ot oi rel child es)
  show ?case
    using orElse_ok [OF 7(1) [OF 7(3)] 7(2) [OF chkOk_sameCtx [OF 7(3)]]] 7(4,5,6) by simp
next
  case (9 chk ec ot oi rel child es)
  have mono: "sat R s cid (granted R M s cid V) n x \<Longrightarrow> sat R s cid (granted R M s cid {}) n x" for n x
    by (rule sat_mono_rule [OF granted_empty])
  have rest: "progOk T (answers R)
      (verdict ec' (\<forall>e \<in> set es. sat R s cid (granted R M s cid {}) (ot, oi, rel) e)
                   (\<forall>e \<in> set es. sat R s cid (granted R M s cid V) (ot, oi, rel) e))
      (evalIntersection chk ec' ot oi rel es)" if "sameCtx ec ec'" for ec'
    using 9(2) [of "Inr True" True, OF _ _ chkOk_sameCtx [OF 9(3) that]] 9(4,5,6) by simp
  show ?case
    using andThen_ok [OF 9(1) [OF 9(3)] rest] 9(4,5,6) mono by simp
qed (simp_all add: verdict_def)

definition entryTrue :: "tupleRel \<Rightarrow> Model \<Rightarrow> string \<times> string \<Rightarrow> string \<Rightarrow> string \<Rightarrow> bool \<Rightarrow> bool" where
  "entryTrue R M s cid key b \<longleftrightarrow>
     (\<forall>n. nulFreeNode n \<longrightarrow> nodeKey n = key \<longrightarrow> b = granted R M s cid {} n)"

definition ctxFor :: "Model \<Rightarrow> string \<times> string \<Rightarrow> string \<Rightarrow> node set \<Rightarrow> evalCtx \<Rightarrow> bool" where
  "ctxFor M s cid V ec \<longleftrightarrow> ecModel ec = M \<and> (subjType ec, subjID ec) = s \<and> companyID ec = cid \<and>
     visiting ec = nodeKey ` V \<and> (\<forall>n \<in> V. nulFreeNode n)"

lemma ctxFor_sameCtx: "ctxFor M s cid V ec \<Longrightarrow> sameCtx ec ec' \<Longrightarrow> ctxFor M s cid V ec'"
  by (auto simp: ctxFor_def sameCtx_def)

text \<open>After the definition of the node was evaluated under its own in-progress marker, the marker
  is removed and a definitive answer stored.\<close>

lemma finish_ok:
  assumes ctx: "ctxFor M s cid V ec" and n: "nulFreeNode n" "n \<notin> V" "n = (ot, oi, rel)"
    and e: "relDef M ot rel = Some e"
    and v: "verdict (ec\<lparr>visiting := insert (nodeKey n) (visiting ec)\<rparr>)
      (sat R s cid (granted R M s cid {}) n e)
      (sat R s cid (granted R M s cid (insert n V)) n e) (res, ec')"
  shows "progOk (entryTrue R M s cid) A (verdict ec (granted R M s cid {} n) (granted R M s cid V n))
     (let ec2 = ec'\<lparr>visiting := visiting ec' - {nodeKey n}\<rparr>
      in case res of
           Inl e \<Rightarrow> Ret (Inl e, ec2)
         | Inr result \<Rightarrow>
             if result \<or> cuts ec2 = cuts ec
             then MemoStore (nodeKey n) result (Ret (Inr result, ec2))
             else Ret (Inr result, ec2))"
proof -
  let ?ec2 = "ec'\<lparr>visiting := visiting ec' - {nodeKey n}\<rparr>"
  have "nodeKey n \<notin> visiting ec"
    using ctx n nodeKey_image [of n V] by (simp add: ctxFor_def)
  then have same: "sameCtx ec ?ec2"
    using v by (auto simp: verdict_def sameCtx_def)
  have P: "granted R M s cid {} n \<longleftrightarrow> sat R s cid (granted R M s cid {}) n e"
    using granted_iff [of R M s cid "{}" ot oi rel] e n(3) by simp
  have PV: "granted R M s cid V n \<Longrightarrow> sat R s cid (granted R M s cid (insert n V)) n e"
    using granted_without_self [of R M s cid V n, OF _ n(3)] e by simp
  have entry: "entryTrue R M s cid (nodeKey n) b \<longleftrightarrow> b = granted R M s cid {} n" for b
    using n(1) nodeKey_inject [of _ n] unfolding entryTrue_def by blast
  show ?thesis
  proof (cases res)
    case (Inl x)
    then show ?thesis using same by (simp add: verdict_def)
  next
    case (Inr b)
    then show ?thesis using v same P PV by (cases b) (auto simp: verdict_def entry Let_def)
  qed
qed

lemma check_ok:
  assumes "nulFreeRows R" and "nulFreeModel M"
  shows "ctxFor M s cid V ec \<Longrightarrow> nulFreeNode (ot, oi, rel) \<Longrightarrow>
    progOk (entryTrue R M s cid) (answers R)
      (verdict ec (granted R M s cid {} (ot, oi, rel)) (granted R M s cid V (ot, oi, rel)))
      (check ec ot oi rel depth)"
proof (induction ec ot oi rel depth arbitrary: V rule: check.induct)
  case (1 ec ot oi rel depth)
  let ?n = "(ot, oi, rel)"
  let ?V = "insert ?n V"
  let ?ec = "ec\<lparr>visiting := insert (memoKey ot oi rel) (visiting ec)\<rparr>"
  let ?Q = "verdict ec (granted R M s cid {} ?n) (granted R M s cid V ?n)"
  let ?T = "entryTrue R M s cid"
  have M: "ecModel ec = M" using "1.prems"(1) by (simp add: ctxFor_def)
  have hit: "?Q (Inr b, ec)" if "?T (memoKey ot oi rel) b" for b
    using that "1.prems"(2) granted_empty [of R M s cid V]
    by (auto simp: verdict_def entryTrue_def)
  have cut: "?Q (Inr False, ec\<lparr>cuts := Suc (cuts ec)\<rparr>)" if "memoKey ot oi rel \<in> visiting ec"
  proof -
    have "?n \<in> V" using that "1.prems" nodeKey_image [of ?n V] by (simp add: ctxFor_def)
    then have "\<not> granted R M s cid V ?n" by (subst granted_iff) simp
    then show ?thesis by (auto simp: verdict_def sameCtx_def)
  qed
  have err: "?Q (Inl x, ec)" for x by (rule verdict_Inl)
  have body: "progOk ?T (answers R) ?Q
      (pbind (evalExpr (\<lambda>ec' ot oi r. check ec' ot oi r (Suc depth)) ?ec ot oi rel e)
        (\<lambda>(res, ec'). let ec2 = ec'\<lparr>visiting := visiting ec' - {memoKey ot oi rel}\<rparr>
           in case res of Inl e \<Rightarrow> Ret (Inl e, ec2)
              | Inr result \<Rightarrow> if result \<or> cuts ec2 = cuts ec
                  then MemoStore (memoKey ot oi rel) result (Ret (Inr result, ec2))
                  else Ret (Inr result, ec2)))"
    if new: "memoKey ot oi rel \<notin> visiting ec" and depth: "\<not> MaxDepth < depth"
      and td: "map_of (ecModel ec) ot = Some td" and e: "map_of td rel = Some e" for td e
  proof -
    have rd: "relDef M ot rel = Some e" using td e M by (simp add: relDef_def)
    have nV: "?n \<notin> V" using new "1.prems"(1) by (force simp: ctxFor_def)
    have ctxV: "ctxFor M s cid ?V ?ec"
      using "1.prems" by (simp add: ctxFor_def)
    have "chkOk ?T R M s cid ?V ?ec (\<lambda>ec' ot oi r. check ec' ot oi r (Suc depth))"
      using "1.IH" [OF new depth td e ctxFor_sameCtx [OF ctxV]] ctxV
      by (auto simp: chkOk_def ctxFor_def)
    from evalExpr_ok(1) [OF assms(1) _ _ this nulFreeModel_relDef [OF assms(2) rd]] "1.prems"(2)
    have ev: "progOk ?T (answers R)
      (verdict ?ec (sat R s cid (granted R M s cid {}) ?n e) (sat R s cid (granted R M s cid ?V) ?n e))
      (evalExpr (\<lambda>ec' ot oi r. check ec' ot oi r (Suc depth)) ?ec ot oi rel e)"
      by simp
    show ?thesis
      unfolding progOk_pbind
      by (rule progOk_mono [OF ev], clarify,
          rule finish_ok [OF "1.prems" nV refl rd, unfolded nodeKey.simps])
  qed
  show ?case
    using hit cut err body "1.prems"
    by (subst check.simps) (auto split: option.splits)
qed

section \<open>A check decides the declared meaning\<close>

lemma ctxFor_new:
  "ctxFor M (st, si) cid {} ((newEvalCtx M st si)\<lparr>companyID := cid\<rparr>)"
  by (simp add: ctxFor_def newEvalCtx_def)

lemma CheckInCompany_sound:
  assumes "nulFreeRows R" "nulFreeModel M" "nulFreeNode (ot, oi, rel)"
    and db: "\<And>ot oi rel. answers R ot oi rel (db ot oi rel)"
    and res: "CheckInCompany db M ot oi rel st si cid = Inr b"
  shows "b \<longleftrightarrow> granted R M (st, si) cid {} (ot, oi, rel)"
proof -
  let ?ec = "(newEvalCtx M st si)\<lparr>companyID := cid\<rparr>"
  from mapMemo.run_progOk [OF check_ok [OF assms(1,2) ctxFor_new assms(3)] mapMemo.truthful_fresh db]
  have "verdict ?ec (granted R M (st, si) cid {} (ot, oi, rel)) (granted R M (st, si) cid {} (ot, oi, rel))
      (fst (run db mapMemo Map.empty (check ?ec ot oi rel 0)))"
    unfolding mapMemo_def by blast
  with res show ?thesis by (auto simp: verdict_def CheckInCompany_def)
qed

end
