(* ===== verification/Engine_Base.thy ===== *)
theory Engine_Base
  imports Engine_Model
begin

text \<open>
  The platform base model: the document \<open>internal/authz/engine/model.json\<close> that
  \<open>base.go\<close> embeds, and its load at package initialisation. Proved here: the embedded
  document passes the subset wall and the load-time validation (the package does not panic),
  and every \<open>tupleToUserset\<close> target of it is defined.
\<close>

abbreviation "jThis \<equiv> JObj [(''this'', JBool True)]"
abbreviation "jComputed r \<equiv> JObj [(''computedUserset'', JStr r)]"
abbreviation "jFrom ts cu \<equiv>
  JObj [(''tupleToUserset'', JObj [(''tupleset'', JStr ts), (''computedUserset'', JStr cu)])]"
abbreviation "jUnion es \<equiv> JObj [(''union'', JArr es)]"

definition modelJSON :: json where
  "modelJSON = JObj [
     (''user'', JObj []),
     (''system'', JObj [
        (''superadmin'', jThis)]),
     (''module'', JObj [
        (''system'', jThis),
        (''admin'', jUnion [jThis, jFrom ''system'' ''superadmin'']),
        (''editor'', jUnion [jThis, jComputed ''admin''])]),
     (''company'', JObj [
        (''system'', jThis),
        (''admin'', jUnion [jThis, jFrom ''system'' ''superadmin'']),
        (''viewer'', jUnion [jThis, jComputed ''admin'']),
        (''member'', jThis)]),
     (''company_module'', JObj [
        (''system'', jThis),
        (''company'', jThis),
        (''member'', jUnion [jThis, jFrom ''company'' ''member'', jComputed ''admin'']),
        (''admin'', jUnion [jThis, jFrom ''company'' ''admin'', jFrom ''system'' ''superadmin'']),
        (''editor'', jUnion [jThis, jComputed ''admin'']),
        (''submitter'', jThis),
        (''approver'', jThis),
        (''viewer'', jUnion [jThis, jComputed ''editor'', jComputed ''submitter'',
           jComputed ''approver'', jComputed ''admin''])]),
     (''module_role_binding'', JObj [
        (''system'', jThis),
        (''company_module'', jThis),
        (''member'', jThis),
        (''admin'', jUnion [jFrom ''company_module'' ''admin'', jFrom ''system'' ''superadmin''])]),
     (''access_bundle'', JObj [
        (''system'', jThis),
        (''company_module'', jThis),
        (''manager'', jThis),
        (''member'', jThis),
        (''admin'', jUnion [jFrom ''company_module'' ''admin'', jFrom ''system'' ''superadmin''])]),
     (''access_segment'', JObj [
        (''system'', jThis),
        (''company_module'', jThis),
        (''bundle'', jThis),
        (''viewer'', jThis),
        (''editor'', jThis),
        (''owner'', jThis),
        (''admin'', jUnion [jThis, jFrom ''company_module'' ''admin'',
           jFrom ''system'' ''superadmin''])]),
     (''member_directory'', JObj [
        (''system'', jThis),
        (''company_module'', jThis),
        (''admin'', jUnion [jFrom ''company_module'' ''admin'', jFrom ''system'' ''superadmin'']),
        (''owner'', jUnion [jThis, jComputed ''admin'']),
        (''editor'', jUnion [jThis, jComputed ''owner'', jComputed ''admin'',
           jFrom ''company_module'' ''editor'']),
        (''viewer'', jUnion [jThis, jComputed ''editor'', jComputed ''owner'', jComputed ''admin'']),
        (''create'', jUnion [jThis, jComputed ''admin'']),
        (''import'', jUnion [jThis, jComputed ''admin'']),
        (''export'', jUnion [jThis, jComputed ''admin''])]),
     (''member'', JObj [
        (''system'', jThis),
        (''company_module'', jThis),
        (''directory'', jThis),
        (''mapped_user'', jThis),
        (''admin'', jUnion [jFrom ''company_module'' ''admin'', jFrom ''system'' ''superadmin'']),
        (''owner'', jUnion [jThis, jFrom ''directory'' ''owner'', jComputed ''admin'']),
        (''editor'', jUnion [jThis, jComputed ''owner'', jFrom ''directory'' ''editor'',
           jComputed ''admin'', jFrom ''company_module'' ''editor'']),
        (''viewer'', jUnion [jThis, jComputed ''editor'', jComputed ''owner'',
           jFrom ''directory'' ''viewer'', jComputed ''admin''])]),
     (''project_directory'', JObj [
        (''system'', jThis),
        (''company_module'', jThis),
        (''admin'', jUnion [jFrom ''company_module'' ''admin'', jFrom ''system'' ''superadmin'']),
        (''owner'', jUnion [jThis, jComputed ''admin'']),
        (''editor'', jUnion [jThis, jComputed ''owner'', jComputed ''admin'',
           jFrom ''company_module'' ''editor'']),
        (''viewer'', jUnion [jThis, jComputed ''editor'', jComputed ''owner'', jComputed ''admin'']),
        (''create'', jUnion [jThis, jComputed ''admin'']),
        (''import'', jUnion [jThis, jComputed ''admin'']),
        (''export'', jUnion [jThis, jComputed ''admin''])]),
     (''project'', JObj [
        (''system'', jThis),
        (''company_module'', jThis),
        (''directory'', jThis),
        (''admin'', jUnion [jFrom ''company_module'' ''admin'', jFrom ''system'' ''superadmin'']),
        (''owner'', jUnion [jFrom ''directory'' ''owner'', jComputed ''admin'']),
        (''editor'', jUnion [jFrom ''directory'' ''editor'', jComputed ''owner'',
           jComputed ''admin'', jFrom ''company_module'' ''editor'']),
        (''viewer'', jUnion [jComputed ''editor'', jFrom ''directory'' ''viewer'',
           jComputed ''admin'']),
        (''can_assign'', jUnion [jComputed ''owner'', jComputed ''admin''])]),
     (''timesheet_entry'', JObj [
        (''system'', jThis),
        (''company_module'', jThis),
        (''member'', jThis),
        (''project'', jThis),
        (''admin'', jUnion [jThis, jFrom ''company_module'' ''admin'',
           jFrom ''system'' ''superadmin'']),
        (''owner'', jUnion [jThis, jFrom ''member'' ''mapped_user'', jComputed ''admin'']),
        (''viewer'', jUnion [jThis, jFrom ''member'' ''mapped_user'', jFrom ''project'' ''viewer'',
           jComputed ''admin'']),
        (''editor'', jUnion [jThis, jFrom ''member'' ''mapped_user'', jComputed ''admin'',
           jFrom ''company_module'' ''editor'']),
        (''can_edit'', jUnion [jComputed ''editor'', jComputed ''owner''])]),
     (''submission'', JObj [
        (''system'', jThis),
        (''company_module'', jThis),
        (''member'', jThis),
        (''admin'', jUnion [jThis, jFrom ''company_module'' ''admin'',
           jFrom ''system'' ''superadmin'']),
        (''owner'', jUnion [jThis, jFrom ''member'' ''mapped_user'', jComputed ''admin'']),
        (''viewer'', jUnion [jThis, jFrom ''member'' ''mapped_user'', jComputed ''admin'',
           jFrom ''company_module'' ''editor''])]),
     (''position'', JObj [
        (''company'', jThis),
        (''holder'', jThis)]),
     (''group'', JObj [
        (''company'', jThis),
        (''member'', jThis)]),
     (''document'', JObj [
        (''system'', jThis),
        (''member'', jThis),
        (''project'', jThis),
        (''timesheet_entry'', jThis),
        (''submission'', jThis),
        (''admin'', jUnion [jThis, jFrom ''member'' ''admin'', jFrom ''project'' ''admin'',
           jFrom ''timesheet_entry'' ''admin'', jFrom ''submission'' ''admin'',
           jFrom ''system'' ''superadmin'']),
        (''owner'', jUnion [jThis, jFrom ''member'' ''owner'', jFrom ''project'' ''owner'',
           jFrom ''timesheet_entry'' ''owner'', jFrom ''submission'' ''owner'',
           jComputed ''admin'']),
        (''editor'', jUnion [jThis, jFrom ''member'' ''editor'', jFrom ''project'' ''editor'',
           jFrom ''timesheet_entry'' ''editor'', jComputed ''owner'',
           jComputed ''admin'']),
        (''viewer'', jUnion [jThis, jFrom ''member'' ''viewer'', jFrom ''project'' ''viewer'',
           jFrom ''timesheet_entry'' ''viewer'', jFrom ''submission'' ''viewer'',
           jComputed ''editor'', jComputed ''owner'', jComputed ''admin'']),
        (''shared_viewer'', jThis)])]"

text \<open>\<open>mustLoadBaseModel\<close> panics on an error, which is the value \<open>None\<close> here.\<close>

definition mustLoadBaseModel :: "Model option" where
  "mustLoadBaseModel = (case LoadModel modelJSON of Inl _ \<Rightarrow> None | Inr m \<Rightarrow> Some m)"

definition BaseModel :: Model where
  "BaseModel = (case mustLoadBaseModel of None \<Rightarrow> [] | Some m \<Rightarrow> m)"

definition IsBaseType :: "string \<Rightarrow> bool" where
  "IsBaseType ty \<longleftrightarrow> map_of BaseModel ty \<noteq> None"

text \<open>The value the package variable \<open>BaseModel\<close> holds after initialisation, written out so
  that later proofs look relations up in it.\<close>

definition baseTypes :: Model where
  "baseTypes = [
     (''user'', []),
     (''system'', [
        (''superadmin'', kindThis)]),
     (''module'', [
        (''system'', kindThis),
        (''admin'', kindUnion [kindThis, kindTupleToUserset ''system'' ''superadmin'']),
        (''editor'', kindUnion [kindThis, kindComputedUserset ''admin''])]),
     (''company'', [
        (''system'', kindThis),
        (''admin'', kindUnion [kindThis, kindTupleToUserset ''system'' ''superadmin'']),
        (''viewer'', kindUnion [kindThis, kindComputedUserset ''admin'']),
        (''member'', kindThis)]),
     (''company_module'', [
        (''system'', kindThis),
        (''company'', kindThis),
        (''member'', kindUnion [kindThis, kindTupleToUserset ''company'' ''member'',
           kindComputedUserset ''admin'']),
        (''admin'', kindUnion [kindThis, kindTupleToUserset ''company'' ''admin'',
           kindTupleToUserset ''system'' ''superadmin'']),
        (''editor'', kindUnion [kindThis, kindComputedUserset ''admin'']),
        (''submitter'', kindThis),
        (''approver'', kindThis),
        (''viewer'', kindUnion [kindThis, kindComputedUserset ''editor'',
           kindComputedUserset ''submitter'', kindComputedUserset ''approver'',
           kindComputedUserset ''admin''])]),
     (''module_role_binding'', [
        (''system'', kindThis),
        (''company_module'', kindThis),
        (''member'', kindThis),
        (''admin'', kindUnion [kindTupleToUserset ''company_module'' ''admin'',
           kindTupleToUserset ''system'' ''superadmin''])]),
     (''access_bundle'', [
        (''system'', kindThis),
        (''company_module'', kindThis),
        (''manager'', kindThis),
        (''member'', kindThis),
        (''admin'', kindUnion [kindTupleToUserset ''company_module'' ''admin'',
           kindTupleToUserset ''system'' ''superadmin''])]),
     (''access_segment'', [
        (''system'', kindThis),
        (''company_module'', kindThis),
        (''bundle'', kindThis),
        (''viewer'', kindThis),
        (''editor'', kindThis),
        (''owner'', kindThis),
        (''admin'', kindUnion [kindThis, kindTupleToUserset ''company_module'' ''admin'',
           kindTupleToUserset ''system'' ''superadmin''])]),
     (''member_directory'', [
        (''system'', kindThis),
        (''company_module'', kindThis),
        (''admin'', kindUnion [kindTupleToUserset ''company_module'' ''admin'',
           kindTupleToUserset ''system'' ''superadmin'']),
        (''owner'', kindUnion [kindThis, kindComputedUserset ''admin'']),
        (''editor'', kindUnion [kindThis, kindComputedUserset ''owner'', kindComputedUserset ''admin'',
           kindTupleToUserset ''company_module'' ''editor'']),
        (''viewer'', kindUnion [kindThis, kindComputedUserset ''editor'', kindComputedUserset ''owner'',
           kindComputedUserset ''admin'']),
        (''create'', kindUnion [kindThis, kindComputedUserset ''admin'']),
        (''import'', kindUnion [kindThis, kindComputedUserset ''admin'']),
        (''export'', kindUnion [kindThis, kindComputedUserset ''admin''])]),
     (''member'', [
        (''system'', kindThis),
        (''company_module'', kindThis),
        (''directory'', kindThis),
        (''mapped_user'', kindThis),
        (''admin'', kindUnion [kindTupleToUserset ''company_module'' ''admin'',
           kindTupleToUserset ''system'' ''superadmin'']),
        (''owner'', kindUnion [kindThis, kindTupleToUserset ''directory'' ''owner'',
           kindComputedUserset ''admin'']),
        (''editor'', kindUnion [kindThis, kindComputedUserset ''owner'',
           kindTupleToUserset ''directory'' ''editor'', kindComputedUserset ''admin'',
           kindTupleToUserset ''company_module'' ''editor'']),
        (''viewer'', kindUnion [kindThis, kindComputedUserset ''editor'', kindComputedUserset ''owner'',
           kindTupleToUserset ''directory'' ''viewer'', kindComputedUserset ''admin''])]),
     (''project_directory'', [
        (''system'', kindThis),
        (''company_module'', kindThis),
        (''admin'', kindUnion [kindTupleToUserset ''company_module'' ''admin'',
           kindTupleToUserset ''system'' ''superadmin'']),
        (''owner'', kindUnion [kindThis, kindComputedUserset ''admin'']),
        (''editor'', kindUnion [kindThis, kindComputedUserset ''owner'', kindComputedUserset ''admin'',
           kindTupleToUserset ''company_module'' ''editor'']),
        (''viewer'', kindUnion [kindThis, kindComputedUserset ''editor'', kindComputedUserset ''owner'',
           kindComputedUserset ''admin'']),
        (''create'', kindUnion [kindThis, kindComputedUserset ''admin'']),
        (''import'', kindUnion [kindThis, kindComputedUserset ''admin'']),
        (''export'', kindUnion [kindThis, kindComputedUserset ''admin''])]),
     (''project'', [
        (''system'', kindThis),
        (''company_module'', kindThis),
        (''directory'', kindThis),
        (''admin'', kindUnion [kindTupleToUserset ''company_module'' ''admin'',
           kindTupleToUserset ''system'' ''superadmin'']),
        (''owner'', kindUnion [kindTupleToUserset ''directory'' ''owner'', kindComputedUserset ''admin'']),
        (''editor'', kindUnion [kindTupleToUserset ''directory'' ''editor'', kindComputedUserset ''owner'',
           kindComputedUserset ''admin'',
           kindTupleToUserset ''company_module'' ''editor'']),
        (''viewer'', kindUnion [kindComputedUserset ''editor'',
           kindTupleToUserset ''directory'' ''viewer'', kindComputedUserset ''admin'']),
        (''can_assign'', kindUnion [kindComputedUserset ''owner'', kindComputedUserset ''admin''])]),
     (''timesheet_entry'', [
        (''system'', kindThis),
        (''company_module'', kindThis),
        (''member'', kindThis),
        (''project'', kindThis),
        (''admin'', kindUnion [kindThis, kindTupleToUserset ''company_module'' ''admin'',
           kindTupleToUserset ''system'' ''superadmin'']),
        (''owner'', kindUnion [kindThis, kindTupleToUserset ''member'' ''mapped_user'',
           kindComputedUserset ''admin'']),
        (''viewer'', kindUnion [kindThis, kindTupleToUserset ''member'' ''mapped_user'',
           kindTupleToUserset ''project'' ''viewer'', kindComputedUserset ''admin'']),
        (''editor'', kindUnion [kindThis, kindTupleToUserset ''member'' ''mapped_user'',
           kindComputedUserset ''admin'',
           kindTupleToUserset ''company_module'' ''editor'']),
        (''can_edit'', kindUnion [kindComputedUserset ''editor'', kindComputedUserset ''owner''])]),
     (''submission'', [
        (''system'', kindThis),
        (''company_module'', kindThis),
        (''member'', kindThis),
        (''admin'', kindUnion [kindThis, kindTupleToUserset ''company_module'' ''admin'',
           kindTupleToUserset ''system'' ''superadmin'']),
        (''owner'', kindUnion [kindThis, kindTupleToUserset ''member'' ''mapped_user'',
           kindComputedUserset ''admin'']),
        (''viewer'', kindUnion [kindThis, kindTupleToUserset ''member'' ''mapped_user'',
           kindComputedUserset ''admin'',
           kindTupleToUserset ''company_module'' ''editor''])]),
     (''position'', [
        (''company'', kindThis),
        (''holder'', kindThis)]),
     (''group'', [
        (''company'', kindThis),
        (''member'', kindThis)]),
     (''document'', [
        (''system'', kindThis),
        (''member'', kindThis),
        (''project'', kindThis),
        (''timesheet_entry'', kindThis),
        (''submission'', kindThis),
        (''admin'', kindUnion [kindThis, kindTupleToUserset ''member'' ''admin'',
           kindTupleToUserset ''project'' ''admin'',
           kindTupleToUserset ''timesheet_entry'' ''admin'',
           kindTupleToUserset ''submission'' ''admin'',
           kindTupleToUserset ''system'' ''superadmin'']),
        (''owner'', kindUnion [kindThis, kindTupleToUserset ''member'' ''owner'',
           kindTupleToUserset ''project'' ''owner'',
           kindTupleToUserset ''timesheet_entry'' ''owner'',
           kindTupleToUserset ''submission'' ''owner'', kindComputedUserset ''admin'']),
        (''editor'', kindUnion [kindThis, kindTupleToUserset ''member'' ''editor'',
           kindTupleToUserset ''project'' ''editor'',
           kindTupleToUserset ''timesheet_entry'' ''editor'',
           kindComputedUserset ''owner'', kindComputedUserset ''admin'']),
        (''viewer'', kindUnion [kindThis, kindTupleToUserset ''member'' ''viewer'',
           kindTupleToUserset ''project'' ''viewer'',
           kindTupleToUserset ''timesheet_entry'' ''viewer'',
           kindTupleToUserset ''submission'' ''viewer'',
           kindComputedUserset ''editor'', kindComputedUserset ''owner'',
           kindComputedUserset ''admin'']),
        (''shared_viewer'', kindThis)])]"

lemma LoadModel_baseTypes: "LoadModel modelJSON = Inr baseTypes"
  by code_simp

lemma BaseModel_baseTypes [code]: "BaseModel = baseTypes"
  by (simp add: BaseModel_def mustLoadBaseModel_def LoadModel_baseTypes)

lemma LoadModel_base: "LoadModel modelJSON = Inr BaseModel"
  by (simp add: LoadModel_baseTypes BaseModel_baseTypes)

lemma mustLoadBaseModel_ok: "mustLoadBaseModel = Some BaseModel"
  by (simp add: mustLoadBaseModel_def LoadModel_base)

lemma BaseModel_wf: "wfModel BaseModel"
  by (rule LoadModel_wfModel [OF LoadModel_base])

lemma BaseModel_targets: "ValidateTupleToUsersetTargets BaseModel = Inr ()"
  unfolding BaseModel_baseTypes by code_simp

end
