(* ===== verification/Engine_Total.thy ===== *)
theory Engine_Total
  imports Engine_Spec Engine_Base
begin

text \<open>
  When a check of \<open>eval.go\<close> returns an answer at all: a set of nodes closed under the
  relation definitions, no larger than the depth fence, never errs. The company filter of
  \<open>CheckInCompany\<close> is characterised as an ordinary check over the table without the
  userset rows of other companies. The theory ends with the properties of the sequential
  engine.
\<close>

section \<open>When a check cannot fail\<close>

fun exprNodes :: "tupleRel \<Rightarrow> node \<Rightarrow> Expr \<Rightarrow> node set" where
  "exprNodes R (ot, oi, rel) kindThis =
     {(subjectType r, subjectID r, subjectRelation r) | r. r \<in> R ot oi rel \<and> subjectRelation r \<noteq> []}"
| "exprNodes R (ot, oi, rel) (kindComputedUserset r) = {(ot, oi, r)}"
| "exprNodes R (ot, oi, rel) (kindTupleToUserset ts cu) =
     {(subjectType r, subjectID r, cu) | r. r \<in> R ot oi ts \<and> subjectRelation r = []}"
| "exprNodes R n (kindUnion es) = (\<Union>e \<in> set es. exprNodes R n e)"
| "exprNodes R n (kindIntersection es) = (\<Union>e \<in> set es. exprNodes R n e)"

definition closedNodes :: "tupleRel \<Rightarrow> Model \<Rightarrow> node set \<Rightarrow> bool" where
  "closedNodes R M C \<longleftrightarrow>
     (\<forall>(ot, oi, rel) \<in> C. \<exists>e. relDef M ot rel = Some e \<and> exprNodes R (ot, oi, rel) e \<subseteq> C)"

definition delivers :: "tupleRel \<Rightarrow> string \<Rightarrow> string \<Rightarrow> string \<Rightarrow> (string, tupleRow list) result \<Rightarrow> bool" where
  "delivers R ot oi rel a \<longleftrightarrow> (\<exists>rows. a = Inr rows \<and> set rows = R ot oi rel)"

definition decided :: "evalCtx \<Rightarrow> checkResult \<Rightarrow> bool" where
  "decided ec x \<longleftrightarrow> (\<exists>b. fst x = Inr b) \<and> ecModel (snd x) = ecModel ec \<and> visiting (snd x) = visiting ec"

definition unmoved :: "evalCtx \<Rightarrow> evalCtx \<Rightarrow> bool" where
  "unmoved ec ec' \<longleftrightarrow> ecModel ec' = ecModel ec \<and> visiting ec' = visiting ec"

lemma decided_simps [simp]:
  "decided ec (Inr b, ec') \<longleftrightarrow> unmoved ec ec'" "\<not> decided ec (Inl x, ec')" "unmoved ec ec"
  by (simp_all add: decided_def unmoved_def)

lemma all_delivers [simp]:
  "(\<forall>a. delivers R ot oi rel a \<longrightarrow> P a) \<longleftrightarrow> (\<forall>rows. set rows = R ot oi rel \<longrightarrow> P (Inr rows))"
  by (auto simp: delivers_def)

abbreviation total :: "tupleRel \<Rightarrow> evalCtx \<Rightarrow> checkResult prog \<Rightarrow> bool" where
  "total R ec p \<equiv> progOk (\<lambda>_ _. True) (delivers R) (decided ec) p"

lemma orElse_total:
  assumes "total R ec p" and "\<And>ec'. unmoved ec ec' \<Longrightarrow> total R ec' (rest ec')"
  shows "total R ec (orElse p rest)"
  unfolding orElse_def progOk_pbind
proof (rule progOk_mono [OF assms(1)])
  fix x assume d: "decided ec x"
  then obtain b ec' where x: "x = (Inr b, ec')" and u: "unmoved ec ec'"
    by (cases x) (auto simp: decided_def unmoved_def)
  from progOk_mono [OF assms(2) [OF u], of "decided ec"] u d
  show "total R ec (case x of (res, ec') \<Rightarrow> case res of Inl e \<Rightarrow> Ret (Inl e, ec')
      | Inr ok \<Rightarrow> if ok then Ret (Inr True, ec') else rest ec')"
    by (auto simp: x decided_def unmoved_def)
qed

lemma andThen_total:
  assumes "total R ec p" and "\<And>ec'. unmoved ec ec' \<Longrightarrow> total R ec' (rest ec')"
  shows "total R ec (pbind p (\<lambda>(res, ec'). case res of Inl e \<Rightarrow> Ret (Inl e, ec')
      | Inr ok \<Rightarrow> if \<not> ok then Ret (Inr False, ec') else rest ec'))"
  unfolding progOk_pbind
proof (rule progOk_mono [OF assms(1)])
  fix x assume d: "decided ec x"
  then obtain b ec' where x: "x = (Inr b, ec')" and u: "unmoved ec ec'"
    by (cases x) (auto simp: decided_def unmoved_def)
  from progOk_mono [OF assms(2) [OF u], of "decided ec"] u d
  show "total R ec (case x of (res, ec') \<Rightarrow> case res of Inl e \<Rightarrow> Ret (Inl e, ec')
      | Inr ok \<Rightarrow> if \<not> ok then Ret (Inr False, ec') else rest ec')"
    by (auto simp: x decided_def unmoved_def)
qed

lemma subjectInCompany_total:
  "progOk T (delivers R) (\<lambda>res. \<exists>b. res = Inr b) (subjectInCompany ec st si)"
  by (auto simp: subjectInCompany_def fetchRows_def)

lemma evalThisRows_total:
  assumes "\<And>ec' r. unmoved ec ec' \<Longrightarrow> r \<in> set rows \<Longrightarrow> subjectRelation r \<noteq> [] \<Longrightarrow>
      total R ec' (chk ec' (subjectType r) (subjectID r) (subjectRelation r))"
  shows "total R ec (evalThisRows chk ec rows)"
  using assms
proof (induction rows arbitrary: ec)
  case (Cons r rows)
  have rest: "total R ec' (evalThisRows chk ec' rows)" if "unmoved ec ec'" for ec'
    using Cons.prems that by (intro Cons.IH) (auto simp: unmoved_def)
  have "total R ec (orElse (chk ec (subjectType r) (subjectID r) (subjectRelation r))
      (\<lambda>ec'. evalThisRows chk ec' rows))" if "subjectRelation r \<noteq> []"
    using Cons.prems that rest by (intro orElse_total) (auto simp: unmoved_def)
  moreover have "total R ec (evalThisRows chk ec rows)" using rest by (simp add: unmoved_def)
  ultimately show ?case
    by (auto simp: progOk_pbind intro!: progOk_mono [OF subjectInCompany_total])
qed simp

lemma evalTTURows_total:
  assumes "\<And>ec' r. unmoved ec ec' \<Longrightarrow> r \<in> set rows \<Longrightarrow> subjectRelation r = [] \<Longrightarrow>
      total R ec' (chk ec' (subjectType r) (subjectID r) cu)"
  shows "total R ec (evalTTURows chk ec cu rows)"
  using assms
proof (induction rows arbitrary: ec)
  case (Cons r rows)
  have rest: "total R ec' (evalTTURows chk ec' cu rows)" if "unmoved ec ec'" for ec'
    using Cons.prems that by (intro Cons.IH) (auto simp: unmoved_def)
  have "total R ec (orElse (chk ec (subjectType r) (subjectID r) cu)
      (\<lambda>ec'. evalTTURows chk ec' cu rows))" if "subjectRelation r = []"
    using Cons.prems that rest by (intro orElse_total) (auto simp: unmoved_def)
  then show ?case using rest [of ec] by (simp add: unmoved_def)
qed simp

lemma evalExpr_total:
  "(\<And>ec' ot' oi' rel'. unmoved ec ec' \<Longrightarrow> (ot', oi', rel') \<in> exprNodes R (ot, oi, rel) e \<Longrightarrow>
       total R ec' (chk ec' ot' oi' rel')) \<Longrightarrow> total R ec (evalExpr chk ec ot oi rel e)"
  "(\<And>ec' ot' oi' rel'. unmoved ec ec' \<Longrightarrow> (ot', oi', rel') \<in> (\<Union>e \<in> set es. exprNodes R (ot, oi, rel) e) \<Longrightarrow>
       total R ec' (chk ec' ot' oi' rel')) \<Longrightarrow> total R ec (evalUnion chk ec ot oi rel es)"
  "(\<And>ec' ot' oi' rel'. unmoved ec ec' \<Longrightarrow> (ot', oi', rel') \<in> (\<Union>e \<in> set es. exprNodes R (ot, oi, rel) e) \<Longrightarrow>
       total R ec' (chk ec' ot' oi' rel')) \<Longrightarrow> total R ec (evalIntersection chk ec ot oi rel es)"
proof (induction chk ec ot oi rel e and chk ec ot oi rel es and chk ec ot oi rel es
    rule: evalExpr_evalUnion_evalIntersection.induct)
  case (1 chk ec ot oi rel)
  have "total R ec (evalThisRows chk ec rows)" if "set rows = R ot oi rel" for rows
    using that by (intro evalThisRows_total 1) auto
  then show ?case by (auto simp: evalThis_def fetchRows_def)
next
  case (3 chk ec ot oi rel ts cu)
  have "total R ec (evalTTURows chk ec cu rows)" if "set rows = R ot oi ts" for rows
    using that by (intro evalTTURows_total 3) auto
  then show ?case by (auto simp: evalTupleToUserset_def fetchRows_def)
next
  case (7 chk ec ot oi rel child es)
  show ?case
    unfolding evalUnion.simps
    by (rule orElse_total, rule 7(1), rule 7(3), simp, simp, rule 7(2), rule 7(3)) (auto simp: unmoved_def)
next
  case (9 chk ec ot oi rel child es)
  show ?case
    unfolding evalIntersection.simps
    by (rule andThen_total, rule 9(1), rule 9(3), simp, simp, rule 9(2) [of "Inr True" True], simp, simp,
        rule 9(3)) (auto simp: unmoved_def)
qed (auto simp: decided_def unmoved_def)

text \<open>The nodes on the recursion path are distinct, so a closed set of at most
  \<open>MaxDepth + 1\<close> nodes never reaches the depth fence.\<close>

lemma check_total:
  assumes C: "closedNodes R M C" "finite C" "card C \<le> Suc MaxDepth" "\<forall>n \<in> C. nulFreeNode n"
  shows "ecModel ec = M \<Longrightarrow> visiting ec = nodeKey ` V \<Longrightarrow> V \<subseteq> C \<Longrightarrow> card V = depth \<Longrightarrow>
    (ot, oi, rel) \<in> C \<Longrightarrow> total R ec (check ec ot oi rel depth)"
proof (induction ec ot oi rel depth arbitrary: V rule: check.induct)
  case (1 ec ot oi rel depth)
  let ?n = "(ot, oi, rel)"
  let ?ec = "ec\<lparr>visiting := insert (memoKey ot oi rel) (visiting ec)\<rparr>"
  obtain td e where td: "map_of (ecModel ec) ot = Some td" and e: "map_of td rel = Some e"
    and sub: "exprNodes R ?n e \<subseteq> C"
    using C(1) "1.prems"(1,5) by (force simp: closedNodes_def relDef_def split: option.splits)
  show ?case
  proof (cases "memoKey ot oi rel \<in> visiting ec")
    case True
    then show ?thesis
      by (subst check.simps) (auto simp: unmoved_def)
  next
    case new: False
    have nV: "?n \<notin> V" using new "1.prems"(2) by force
    then have "card (insert ?n V) = Suc depth"
      using "1.prems"(3,4) C(2) finite_subset by (metis card_insert_disjoint)
    moreover have "card (insert ?n V) \<le> card C"
      using "1.prems"(3,5) C(2) by (intro card_mono) auto
    ultimately have depth: "\<not> MaxDepth < depth" and card: "card (insert ?n V) = Suc depth"
      using C(3) by auto
    have "total R ?ec (evalExpr (\<lambda>ec' ot oi r. check ec' ot oi r (Suc depth)) ?ec ot oi rel e)"
      by (rule evalExpr_total(1), rule "1.IH" [OF new depth td e, of _ "insert ?n V"])
        (use "1.prems" card sub in \<open>auto simp: unmoved_def\<close>)
    then have "total R ec
      (pbind (evalExpr (\<lambda>ec' ot oi r. check ec' ot oi r (Suc depth)) ?ec ot oi rel e)
        (\<lambda>(res, ec'). let ec2 = ec'\<lparr>visiting := visiting ec' - {memoKey ot oi rel}\<rparr>
           in case res of Inl e \<Rightarrow> Ret (Inl e, ec2)
              | Inr result \<Rightarrow> if result \<or> cuts ec2 = cuts ec
                  then MemoStore (memoKey ot oi rel) result (Ret (Inr result, ec2))
                  else Ret (Inr result, ec2)))"
      unfolding progOk_pbind
      by (rule progOk_mono) (use new in \<open>auto simp: decided_def Let_def\<close>)
    then show ?thesis
      using new depth td e by (subst check.simps) auto
  qed
qed

lemma CheckInCompany_total:
  assumes "closedNodes R M C" "finite C" "card C \<le> Suc MaxDepth" "\<forall>n \<in> C. nulFreeNode n"
    and "(ot, oi, rel) \<in> C" and db: "\<And>ot oi rel. delivers R ot oi rel (db ot oi rel)"
  shows "\<exists>b. CheckInCompany db M ot oi rel st si cid = Inr b"
proof -
  let ?ec = "(newEvalCtx M st si)\<lparr>companyID := cid\<rparr>"
  have "total R ?ec (check ?ec ot oi rel 0)"
    by (rule check_total [OF assms(1-4), of _ "{}"]) (use assms(5) in \<open>auto simp: newEvalCtx_def\<close>)
  from mapMemo.run_progOk [OF this, of Map.empty db] db
  show ?thesis
    by (auto simp: mapMemo.truthful_def mapMemo_def CheckInCompany_def decided_def)
qed

lemma delivers_answers: "delivers R ot oi rel a \<Longrightarrow> answers R ot oi rel a"
  by (auto simp: delivers_def answers_def)

section \<open>The company filter\<close>

text \<open>The table without the userset rows of other companies.\<close>

definition companyRows :: "tupleRel \<Rightarrow> string \<Rightarrow> tupleRel" where
  "companyRows R cid ot oi rel =
     {r \<in> R ot oi rel. subjectRelation r \<noteq> [] \<longrightarrow> inCompany R cid (subjectType r) (subjectID r)}"

lemma sat_companyRows:
  "cid \<noteq> [] \<Longrightarrow> sat (companyRows R cid) s [] X n e \<longleftrightarrow> sat R s cid X n e"
  by (induction R s cid X n e rule: sat.induct)
    (auto simp: companyRows_def supports_def)

lemma granted_companyRows:
  assumes "cid \<noteq> []"
  shows "granted R M s cid V n \<longleftrightarrow> granted (companyRows R cid) M s [] V n"
proof
  show "granted (companyRows R cid) M s [] V n" if "granted R M s cid V n"
    using that
  proof (induction rule: granted.induct)
    case (grant ot oi rel e)
    then have "sat R s cid (granted (companyRows R cid) M s [] V) (ot, oi, rel) e"
      by (auto elim: sat_mono_rule [rotated])
    with grant.hyps show ?case by (auto intro: granted.grant simp: sat_companyRows [OF assms])
  qed
  show "granted R M s cid V n" if "granted (companyRows R cid) M s [] V n"
    using that
  proof (induction rule: granted.induct)
    case (grant ot oi rel e)
    then have "sat (companyRows R cid) s [] (granted R M s cid V) (ot, oi, rel) e"
      by (auto elim: sat_mono_rule [rotated])
    with grant.hyps show ?case by (auto intro: granted.grant simp: sat_companyRows [OF assms])
  qed
qed

lemma sat_rows_mono:
  "(\<And>ot oi rel. R ot oi rel \<subseteq> R' ot oi rel) \<Longrightarrow> sat R s [] X n e \<Longrightarrow> sat R' s [] X n e"
proof (induction R s "[] :: string" X n e rule: sat.induct)
  case (1 R s X ot oi rel)
  moreover have "supports R s [] X r \<longleftrightarrow> supports R' s [] X r" for r
    by (simp add: supports_def)
  ultimately show ?case unfolding sat.simps by blast
next
  case (3 R s X ot oi rel ts cu)
  then show ?case unfolding sat.simps by blast
qed auto

lemma granted_rows_mono:
  assumes "\<And>ot oi rel. R ot oi rel \<subseteq> R' ot oi rel"
  shows "granted R M s [] V n \<Longrightarrow> granted R' M s [] V n"
proof (induction rule: granted.induct)
  case (grant ot oi rel e)
  then have "sat R s [] (granted R' M s [] V) (ot, oi, rel) e"
    by (auto elim: sat_mono_rule [rotated])
  from sat_rows_mono [OF assms this] grant.hyps show ?case by (auto intro: granted.grant)
qed

lemma granted_company_subset: "granted R M s cid V n \<Longrightarrow> granted R M s [] V n"
  using granted_companyRows [of cid R M s V n]
    granted_rows_mono [of "companyRows R cid" R M s V n]
  by (cases "cid = []") (auto simp: companyRows_def)

lemma nulFreeRows_companyRows: "nulFreeRows R \<Longrightarrow> nulFreeRows (companyRows R cid)"
  by (auto simp: nulFreeRows_def companyRows_def)

section \<open>Tables as lists\<close>

type_synonym tupleTable = "(node \<times> tupleRow) list"

definition rowsOf :: "tupleTable \<Rightarrow> tupleRel" where
  "rowsOf ts ot oi rel = {r. ((ot, oi, rel), r) \<in> set ts}"

text \<open>The database that answers the query \<open>sqlTupleRows\<close> from a table.\<close>

definition tableDB :: "tupleTable \<Rightarrow> tupleDB" where
  "tableDB ts ot oi rel = Inr (map snd (filter (\<lambda>(n, r). n = (ot, oi, rel)) ts))"

lemma tableDB_delivers: "delivers (rowsOf ts) ot oi rel (tableDB ts ot oi rel)"
  by (force simp: delivers_def tableDB_def rowsOf_def)

lemma tableDB_answers: "answers (rowsOf ts) ot oi rel (tableDB ts ot oi rel)"
  by (rule delivers_answers [OF tableDB_delivers])

lemma nulFreeRows_rowsOf: "nulFreeRows (rowsOf ts) \<longleftrightarrow> (\<forall>(n, r) \<in> set ts. nulFreeRow r)"
  by (fastforce simp: nulFreeRows_def rowsOf_def)

text \<open>Two groups that contain each other, one of company \<open>c\<close> and one of company \<open>d\<close>;
  the user is in the second, the document is shared with the first.\<close>

definition exModel :: Model where
  "exModel = [(''user'', []), (''company'', []),
     (''group'', [(''company'', kindThis), (''member'', kindThis)]),
     (''doc'', [(''viewer'', kindUnion [kindThis, kindComputedUserset ''owner'']), (''owner'', kindThis)])]"

definition exTable :: tupleTable where
  "exTable = [
     ((''doc'', ''1'', ''viewer''), \<lparr>subjectType = ''group'', subjectID = ''g'', subjectRelation = ''member''\<rparr>),
     ((''group'', ''g'', ''member''), \<lparr>subjectType = ''group'', subjectID = ''h'', subjectRelation = ''member''\<rparr>),
     ((''group'', ''h'', ''member''), \<lparr>subjectType = ''group'', subjectID = ''g'', subjectRelation = ''member''\<rparr>),
     ((''group'', ''h'', ''member''), \<lparr>subjectType = ''user'', subjectID = ''u'', subjectRelation = []\<rparr>),
     ((''group'', ''g'', ''company''), \<lparr>subjectType = ''company'', subjectID = ''c'', subjectRelation = []\<rparr>),
     ((''group'', ''h'', ''company''), \<lparr>subjectType = ''company'', subjectID = ''d'', subjectRelation = []\<rparr>)]"

definition exNodes :: "node set" where
  "exNodes = {(''doc'', ''1'', ''viewer''), (''doc'', ''1'', ''owner''),
     (''group'', ''g'', ''member''), (''group'', ''h'', ''member'')}"

definition platformTable :: tupleTable where
  "platformTable = [
     ((''system'', ''platform'', ''superadmin''), \<lparr>subjectType = ''user'', subjectID = ''root'', subjectRelation = []\<rparr>),
     ((''company'', ''c'', ''system''), \<lparr>subjectType = ''system'', subjectID = ''platform'', subjectRelation = []\<rparr>)]"

lemma exNulFree: "nulFreeRows (rowsOf exTable)" "nulFreeModel exModel" "\<forall>n \<in> exNodes. nulFreeNode n"
  by (simp_all add: nulFreeRows_rowsOf exTable_def nulFreeRow_def nulFreeModel_def exModel_def exNodes_def
      nul_free_def nul_def)

lemma exClosed: "closedNodes (rowsOf exTable) exModel exNodes" "finite exNodes"
    "card exNodes \<le> Suc MaxDepth" "(''doc'', ''1'', ''viewer'') \<in> exNodes"
  by (auto simp: closedNodes_def exNodes_def exModel_def relDef_def rowsOf_def exTable_def MaxDepth_def
      intro: order_trans [OF card_insert_le_m1])

lemma exRun: "CheckInCompany (tableDB exTable) exModel ''doc'' ''1'' ''viewer'' ''user'' ''u'' [] = Inr True"
   "CheckInCompany (tableDB exTable) exModel ''doc'' ''1'' ''viewer'' ''user'' ''u'' ''c'' = Inr False"
   "\<exists>b. Check (tableDB (filter (\<lambda>(n, r). subjectID r \<noteq> ''h'') exTable)) exModel
      ''doc'' ''1'' ''viewer'' ''user'' ''u'' = Inr b"
   "\<exists>b. Check (tableDB exTable) exModel ''group'' ''h'' ''member'' ''user'' ''u'' = Inr b"
  by code_simp+

lemma rowsOf_filter:
  assumes "\<forall>x \<in> set ts. P x \<longleftrightarrow> (subjectRelation (snd x) \<noteq> [] \<longrightarrow>
      inCompany (rowsOf ts) cid (subjectType (snd x)) (subjectID (snd x)))"
  shows "rowsOf (filter P ts) = companyRows (rowsOf ts) cid"
proof (intro ext set_eqI)
  fix ot oi rel r
  have "((ot, oi, rel), r) \<in> set ts \<Longrightarrow> P ((ot, oi, rel), r) \<longleftrightarrow> (subjectRelation r \<noteq> [] \<longrightarrow>
      inCompany (rowsOf ts) cid (subjectType r) (subjectID r))"
    using assms by (metis snd_conv)
  then show "r \<in> rowsOf (filter P ts) ot oi rel \<longleftrightarrow> r \<in> companyRows (rowsOf ts) cid ot oi rel"
    unfolding companyRows_def by (simp add: rowsOf_def [of _ ot]) blast
qed

lemma inCompany_rowsOf:
  "inCompany (rowsOf ts) cid st si \<longleftrightarrow>
     (if st = ''position'' \<or> st = ''group'' then
        ((st, si, ''company''), \<lparr>subjectType = ''company'', subjectID = cid, subjectRelation = []\<rparr>) \<in> set ts
      else if st = ''member'' then
        ((''company'', cid, ''member''),
         \<lparr>subjectType = ''member'', subjectID = si, subjectRelation = ''mapped_user''\<rparr>) \<in> set ts
      else True)"
proof -
  have "subjectType r = a \<and> subjectID r = b \<and> subjectRelation r = c \<longleftrightarrow>
      r = \<lparr>subjectType = a, subjectID = b, subjectRelation = c\<rparr>" for r :: tupleRow and a b c
    by (cases r) auto
  then show ?thesis unfolding inCompany_def rowsOf_def by auto
qed

lemma BaseModel_superadmin: "relDef BaseModel ''system'' ''superadmin'' = Some kindThis"
  unfolding BaseModel_baseTypes by code_simp

lemma BaseModel_nulFree: "nulFreeModel BaseModel" "\<forall>(ty, rels) \<in> set BaseModel. nul_free ty"
  unfolding BaseModel_baseTypes by code_simp+

lemma BaseModel_admin:
  assumes "relDef BaseModel ty ''system'' \<noteq> None"
  obtains es where "relDef BaseModel ty ''admin'' = Some (kindUnion es)"
    "kindTupleToUserset ''system'' ''superadmin'' \<in> set es"
proof -
  have "\<forall>(ty, rels) \<in> set BaseModel. relDef BaseModel ty ''system'' \<noteq> None \<longrightarrow>
     (case relDef BaseModel ty ''admin'' of
        Some (kindUnion es) \<Rightarrow> kindTupleToUserset ''system'' ''superadmin'' \<in> set es | _ \<Rightarrow> False)"
    unfolding BaseModel_baseTypes by code_simp
  moreover have "ty \<in> fst ` set BaseModel"
    using assms by (auto simp: relDef_def split: option.splits dest!: map_of_SomeD intro: rev_image_eqI)
  ultimately show ?thesis
    using that assms by (fastforce split: option.splits Expr.splits)
qed

lemma platformRun:
  "\<exists>b. Check (tableDB platformTable) BaseModel ''company'' ''c'' ''admin'' ''user'' ''root'' = Inr b"
  unfolding BaseModel_baseTypes by code_simp

section \<open>Properties of the sequential engine\<close>

text \<open>C1. A check returns the declared meaning: when the nodes reachable from the question form a
  set closed under the model's definitions of at most \<open>MaxDepth + 1\<close> nodes and the database
  answers its queries (in any order of rows), \<open>CheckInCompany\<close> returns without error exactly
  whether the subject is granted the relation, however the tuples cycle.\<close>

theorem CheckInCompany_decides:
  assumes "nulFreeRows R" "nulFreeModel M"
    and "closedNodes R M C" "finite C" "card C \<le> Suc MaxDepth" "\<forall>n \<in> C. nulFreeNode n"
    and "(ot, oi, rel) \<in> C" and "\<And>ot oi rel. delivers R ot oi rel (db ot oi rel)"
  shows "CheckInCompany db M ot oi rel st si cid = Inr (granted R M (st, si) cid {} (ot, oi, rel))"
  using CheckInCompany_total [OF assms(3-8), of st si cid]
    CheckInCompany_sound [OF assms(1,2) _ delivers_answers [OF assms(8)]] assms(6,7)
  by blast

theorem CheckInCompany_decides_witness:
  "CheckInCompany (tableDB exTable) exModel ''doc'' ''1'' ''viewer'' ''user'' ''u'' ''c''
     = Inr (granted (rowsOf exTable) exModel (''user'', ''u'') ''c'' {} (''doc'', ''1'', ''viewer''))"
  by (rule CheckInCompany_decides [OF exNulFree(1,2) exClosed(1-3) exNulFree(3) exClosed(4) tableDB_delivers])

text \<open>Fail-closed soundness: whatever the size of the graph and whatever queries fail, an answer
  that \<open>CheckInCompany\<close> does return is the declared meaning; a failure is an error, never an
  allow.\<close>

theorem CheckInCompany_answer:
  assumes "nulFreeRows R" "nulFreeModel M" "nulFreeNode (ot, oi, rel)"
    and "\<And>ot oi rel. answers R ot oi rel (db ot oi rel)"
    and "CheckInCompany db M ot oi rel st si cid = Inr b"
  shows "b \<longleftrightarrow> granted R M (st, si) cid {} (ot, oi, rel)"
  by (rule CheckInCompany_sound [OF assms])

theorem CheckInCompany_answer_witness:
  "granted (rowsOf exTable) exModel (''user'', ''u'') [] {} (''doc'', ''1'', ''viewer'') \<and>
   \<not> granted (rowsOf exTable) exModel (''user'', ''u'') ''c'' {} (''doc'', ''1'', ''viewer'')"
  using CheckInCompany_answer [OF exNulFree(1,2) _ tableDB_answers exRun(1)]
    CheckInCompany_answer [OF exNulFree(1,2) _ tableDB_answers exRun(2)] exNulFree(3) exClosed(4)
  by blast

text \<open>C2. The company binding: a check bound to a company answers what a plain check would answer
  over the table from which every position, group and member userset of other companies has been
  deleted, so a tuple that names another company's userset grants nothing.\<close>

theorem CheckInCompany_filters:
  assumes "nulFreeRows R" "nulFreeModel M" "nulFreeNode (ot, oi, rel)" "cid \<noteq> []"
    and "\<And>ot oi rel. answers R ot oi rel (db ot oi rel)"
    and "\<And>ot oi rel. answers (companyRows R cid) ot oi rel (db' ot oi rel)"
    and "CheckInCompany db M ot oi rel st si cid = Inr b"
    and "Check db' M ot oi rel st si = Inr b'"
  shows "b = b'"
  using CheckInCompany_sound [OF assms(1-3,5,7)]
    CheckInCompany_sound [OF nulFreeRows_companyRows [OF assms(1)] assms(2,3,6),
      of st si "[]" b'] assms(8) granted_companyRows [OF assms(4), of R M "(st, si)" "{}" "(ot, oi, rel)"]
  by (simp add: CheckInCompany_no_company)

theorem CheckInCompany_filters_witness:
  "CheckInCompany (tableDB exTable) exModel ''doc'' ''1'' ''viewer'' ''user'' ''u'' ''c'' = Inr False \<and>
   Check (tableDB (filter (\<lambda>(n, r). subjectID r \<noteq> ''h'') exTable)) exModel
      ''doc'' ''1'' ''viewer'' ''user'' ''u'' = Inr False"
proof -
  let ?T = "filter (\<lambda>(n, r). subjectID r \<noteq> ''h'') exTable"
  have "rowsOf ?T = companyRows (rowsOf exTable) ''c''"
    by (rule rowsOf_filter) (simp add: inCompany_rowsOf exTable_def)
  then have db: "answers (companyRows (rowsOf exTable) ''c'') ot oi rel (tableDB ?T ot oi rel)" for ot oi rel
    using tableDB_answers [of ?T] by simp
  have "nulFreeNode (''doc'', ''1'', ''viewer'')" using exNulFree(3) exClosed(4) by blast
  moreover obtain b where b: "Check (tableDB ?T) exModel ''doc'' ''1'' ''viewer'' ''user'' ''u'' = Inr b"
    using exRun(3) by blast
  ultimately have "False = b"
    by (intro CheckInCompany_filters [OF exNulFree(1,2) _ _ tableDB_answers db exRun(2) b]) simp_all
  with b exRun(2) show ?thesis by simp
qed

text \<open>Binding a check to a company only ever takes access away: what is allowed in a company is
  allowed by the plain check.\<close>

theorem CheckInCompany_restricts:
  assumes "nulFreeRows R" "nulFreeModel M" "nulFreeNode (ot, oi, rel)"
    and "\<And>ot oi rel. answers R ot oi rel (db ot oi rel)"
    and "CheckInCompany db M ot oi rel st si cid = Inr True"
    and "Check db M ot oi rel st si = Inr b"
  shows "b"
  using CheckInCompany_sound [OF assms(1-5)]
    CheckInCompany_sound [OF assms(1-4), of st si "[]" b] assms(6) granted_company_subset
  by (simp add: CheckInCompany_no_company)

theorem CheckInCompany_restricts_witness:
  "Check (tableDB exTable) exModel ''group'' ''h'' ''member'' ''user'' ''u'' = Inr True"
proof -
  obtain b where b: "Check (tableDB exTable) exModel ''group'' ''h'' ''member'' ''user'' ''u'' = Inr b"
    using exRun(4) by blast
  have *: "CheckInCompany (tableDB exTable) exModel ''group'' ''h'' ''member'' ''user'' ''u'' ''d'' = Inr True"
    by code_simp
  have "nulFreeNode (''group'', ''h'', ''member'')" using exNulFree(3) by (simp add: exNodes_def)
  from CheckInCompany_restricts [OF exNulFree(1,2) this tableDB_answers * b] b show ?thesis by simp
qed

text \<open>The superadmin chain of the base model: on every base type that carries a platform
  anchor, a holder of \<open>system:platform#superadmin\<close> is granted \<open>admin\<close> of every object
  anchored to the platform.\<close>

theorem superadmin_is_admin:
  assumes "relDef BaseModel ty ''system'' \<noteq> None"
    and "\<lparr>subjectType = ''user'', subjectID = u, subjectRelation = []\<rparr> \<in> R ''system'' ''platform'' ''superadmin''"
    and "\<lparr>subjectType = ''system'', subjectID = ''platform'', subjectRelation = []\<rparr> \<in> R ty oi ''system''"
    and "nulFreeRows R" "nul_free ty" "nul_free oi" "\<And>ot oi rel. answers R ot oi rel (db ot oi rel)"
    and "Check db BaseModel ty oi ''admin'' ''user'' u = Inr b"
  shows "b"
proof -
  let ?G = "granted R BaseModel (''user'', u) [] {}"
  have sys: "?G (''system'', ''platform'', ''superadmin'')"
    by (rule granted.grant [OF _ BaseModel_superadmin])
      (auto simp: supports_def intro!: bexI [OF _ assms(2)])
  obtain es where es: "relDef BaseModel ty ''admin'' = Some (kindUnion es)"
      "kindTupleToUserset ''system'' ''superadmin'' \<in> set es"
    using BaseModel_admin [OF assms(1)] .
  have "sat R (''user'', u) [] ?G (ty, oi, ''admin'') (kindTupleToUserset ''system'' ''superadmin'')"
    using assms(3) sys by force
  with es(2) have "sat R (''user'', u) [] ?G (ty, oi, ''admin'') (kindUnion es)"
    unfolding sat.simps(4) by blast
  with es(1) have "?G (ty, oi, ''admin'')" by (blast intro: granted.grant)
  moreover have "nulFreeNode (ty, oi, ''admin'')"
    using assms(5,6) by (simp add: nul_free_def nul_def)
  ultimately show ?thesis
    using CheckInCompany_sound [OF assms(4) BaseModel_nulFree(1) _ assms(7), of ty oi "''admin''" "''user''" u "[]" b]
      assms(8)
    by (simp add: CheckInCompany_no_company)
qed

theorem superadmin_is_admin_witness:
  "Check (tableDB platformTable) BaseModel ''company'' ''c'' ''admin'' ''user'' ''root'' = Inr True"
proof -
  obtain b where b: "Check (tableDB platformTable) BaseModel ''company'' ''c'' ''admin'' ''user'' ''root'' = Inr b"
    using platformRun by blast
  have "relDef BaseModel ''company'' ''system'' \<noteq> None" unfolding BaseModel_baseTypes by code_simp
  moreover have "nulFreeRows (rowsOf platformTable)"
    by (simp add: nulFreeRows_rowsOf platformTable_def nulFreeRow_def nul_free_def nul_def)
  moreover have "\<lparr>subjectType = ''user'', subjectID = ''root'', subjectRelation = []\<rparr>
      \<in> rowsOf platformTable ''system'' ''platform'' ''superadmin''"
    "\<lparr>subjectType = ''system'', subjectID = ''platform'', subjectRelation = []\<rparr>
      \<in> rowsOf platformTable ''company'' ''c'' ''system''"
    "nul_free ''company''" "nul_free ''c''"
    by (simp_all add: rowsOf_def platformTable_def nul_free_def nul_def)
  ultimately have "b"
    using superadmin_is_admin [where R = "rowsOf platformTable", OF _ _ _ _ _ _ tableDB_answers b] by blast
  with b show ?thesis by simp
qed

end
