(* ===== verification/Engine_Batch.thy ===== *)
theory Engine_Batch
  imports Engine_Total "HOL-Library.Multiset"
begin

text \<open>
  The concurrent batch of \<open>internal/authz/engine/batch.go\<close>: a pool of workers takes items off
  one channel and runs their checks over one shared \<open>sync.Map\<close> memo. One step of the relation
  \<open>batchStep\<close> is one interaction of one worker with the channel, the tuple table, the memo or
  the result slice, so every interleaving of the goroutines is a run of it. The properties hold
  for every run.
\<close>

section \<open>The batch as a step relation\<close>

record BatchItem =
  ObjType :: string
  ObjID :: string
  Rel :: string

record BatchResult =
  brItem :: BatchItem
  brAllowed :: bool
  brErr :: "CheckError option"

definition batchWorkers :: nat where
  "batchWorkers = 8"

text \<open>A worker waits on the channel with the evaluation context it keeps between items, evaluates
  one item, or has left its loop.\<close>

datatype worker =
    Waiting evalCtx
  | Evaluating nat BatchItem "checkResult prog"
  | Exited

record batchState =
  jobs :: "(nat \<times> BatchItem) list"
  shared :: memoMap
  workers :: "worker list"
  results :: "BatchResult list"

definition zeroResult :: BatchResult where
  "zeroResult = \<lparr>brItem = \<lparr>ObjType = [], ObjID = [], Rel = []\<rparr>, brAllowed = False, brErr = None\<rparr>"

definition batchResult :: "BatchItem \<Rightarrow> (CheckError, bool) result \<Rightarrow> BatchResult" where
  "batchResult it res = (case res of
     Inl e \<Rightarrow> \<lparr>brItem = it, brAllowed = False, brErr = Some e\<rparr>
   | Inr b \<Rightarrow> \<lparr>brItem = it, brAllowed = b, brErr = None\<rparr>)"

definition batchInit :: "Model \<Rightarrow> string \<Rightarrow> string \<Rightarrow> BatchItem list \<Rightarrow> batchState" where
  "batchInit m st si items =
     \<lparr>jobs = enumerate 0 items, shared = Map.empty,
      workers = replicate (min batchWorkers (length items)) (Waiting (newEvalCtx m st si)),
      results = replicate (length items) zeroResult\<rparr>"

inductive batchStep ::
  "(string \<Rightarrow> string \<Rightarrow> string \<Rightarrow> (string, tupleRow list) result \<Rightarrow> bool) \<Rightarrow>
   batchState \<Rightarrow> batchState \<Rightarrow> bool" for A where
  take_job: "w < length (workers s) \<Longrightarrow> workers s ! w = Waiting ec \<Longrightarrow> jobs s = (i, it) # js \<Longrightarrow>
    batchStep A s (s\<lparr>jobs := js, workers := (workers s)[w :=
      Evaluating i it (check ec (ObjType it) (ObjID it) (Rel it) 0)]\<rparr>)"
| fetch: "w < length (workers s) \<Longrightarrow> workers s ! w = Evaluating i it (FetchRows ot oi rel k) \<Longrightarrow>
    A ot oi rel a \<Longrightarrow>
    batchStep A s (s\<lparr>workers := (workers s)[w := Evaluating i it (k a)]\<rparr>)"
| load: "w < length (workers s) \<Longrightarrow> workers s ! w = Evaluating i it (MemoLoad key k) \<Longrightarrow>
    batchStep A s (s\<lparr>workers := (workers s)[w :=
      Evaluating i it (k (syncMapMemo_load (shared s) key))]\<rparr>)"
| store: "w < length (workers s) \<Longrightarrow> workers s ! w = Evaluating i it (MemoStore key b p) \<Longrightarrow>
    batchStep A s (s\<lparr>shared := syncMapMemo_store (shared s) key b,
      workers := (workers s)[w := Evaluating i it p]\<rparr>)"
| finish: "w < length (workers s) \<Longrightarrow> workers s ! w = Evaluating i it (Ret (res, ec)) \<Longrightarrow>
    batchStep A s (s\<lparr>workers := (workers s)[w := Waiting ec],
      results := (results s)[i := batchResult it res]\<rparr>)"
| leave: "w < length (workers s) \<Longrightarrow> workers s ! w = Waiting ec \<Longrightarrow> jobs s = [] \<Longrightarrow>
    batchStep A s (s\<lparr>workers := (workers s)[w := Exited]\<rparr>)"

text \<open>\<open>wg.Wait()\<close> returns when every worker has left.\<close>

definition batchDone :: "batchState \<Rightarrow> bool" where
  "batchDone s \<longleftrightarrow> (\<forall>w \<in> set (workers s). w = Exited)"

definition BatchCan ::
  "(string \<Rightarrow> string \<Rightarrow> string \<Rightarrow> (string, tupleRow list) result \<Rightarrow> bool) \<Rightarrow>
   Model \<Rightarrow> string \<Rightarrow> string \<Rightarrow> BatchItem list \<Rightarrow> BatchResult list \<Rightarrow> bool" where
  "BatchCan A m st si items rs \<longleftrightarrow>
     (\<exists>s. (batchStep A)\<^sup>*\<^sup>* (batchInit m st si items) s \<and> batchDone s \<and> rs = results s)"

section \<open>Every interleaving answers every item\<close>

text \<open>What the running program of a worker promises about the shared memo, the table and its
  result, for a condition \<open>Q\<close> on the results of item \<open>i\<close> and on the contexts.\<close>

definition workerOk ::
  "(string \<Rightarrow> bool \<Rightarrow> bool) \<Rightarrow> (string \<Rightarrow> string \<Rightarrow> string \<Rightarrow> (string, tupleRow list) result \<Rightarrow> bool) \<Rightarrow>
   (evalCtx \<Rightarrow> bool) \<Rightarrow> (BatchItem \<Rightarrow> (CheckError, bool) result \<Rightarrow> bool) \<Rightarrow> BatchItem list \<Rightarrow> worker \<Rightarrow> bool" where
  "workerOk T A I Q items w = (case w of
     Waiting ec \<Rightarrow> I ec
   | Evaluating i it p \<Rightarrow> i < length items \<and> it = items ! i \<and>
       progOk T A (\<lambda>x. Q it (fst x) \<and> I (snd x)) p
   | Exited \<Rightarrow> True)"

definition settled ::
  "(BatchItem \<Rightarrow> (CheckError, bool) result \<Rightarrow> bool) \<Rightarrow> BatchItem list \<Rightarrow> batchState \<Rightarrow> nat \<Rightarrow> bool" where
  "settled Q items s i \<longleftrightarrow> (i, items ! i) \<in> set (jobs s) \<or>
     (\<exists>w < length (workers s). \<exists>it p. workers s ! w = Evaluating i it p) \<or>
     (\<exists>res. results s ! i = batchResult (items ! i) res \<and> Q (items ! i) res)"

definition batchInv ::
  "(string \<Rightarrow> bool \<Rightarrow> bool) \<Rightarrow> (string \<Rightarrow> string \<Rightarrow> string \<Rightarrow> (string, tupleRow list) result \<Rightarrow> bool) \<Rightarrow>
   (evalCtx \<Rightarrow> bool) \<Rightarrow> (BatchItem \<Rightarrow> (CheckError, bool) result \<Rightarrow> bool) \<Rightarrow> BatchItem list \<Rightarrow> batchState \<Rightarrow> bool" where
  "batchInv T A I Q items s \<longleftrightarrow>
     (\<forall>(i, it) \<in> set (jobs s). i < length items \<and> it = items ! i) \<and>
     syncMapMemo.truthful T (shared s) \<and>
     (\<forall>w < length (workers s). workerOk T A I Q items (workers s ! w)) \<and>
     (Exited \<in> set (workers s) \<longrightarrow> jobs s = []) \<and>
     length (results s) = length items \<and>
     length (workers s) = min batchWorkers (length items) \<and>
     (\<forall>i < length items. settled Q items s i)"

lemma settled_update:
  assumes "settled Q items s i" and "w < length (workers s)" and "workers s ! w = Evaluating j it p"
  shows "settled Q items (s\<lparr>shared := m, workers := (workers s)[w := Evaluating j it' p']\<rparr>) i"
  using assms unfolding settled_def by (auto simp: nth_list_update) (metis worker.inject(2))+

lemma settled_take:
  assumes "settled Q items s i" "w < length (workers s)" "workers s ! w = Waiting ec" "jobs s = (j, it) # js"
  shows "settled Q items (s\<lparr>jobs := js, workers := (workers s)[w := Evaluating j it p]\<rparr>) i"
  using assms unfolding settled_def
  by (simp add: nth_list_update) (metis worker.distinct(1))

lemma settled_finish:
  assumes "settled Q items s i" "w < length (workers s)" "workers s ! w = Evaluating j it p"
    "Q (items ! j) res" "it = items ! j" "j < length (results s)"
  shows "settled Q items (s\<lparr>workers := (workers s)[w := Waiting ec],
      results := (results s)[j := batchResult it res]\<rparr>) i"
proof (cases "i = j")
  case True
  with assms(4-6) show ?thesis by (auto simp: settled_def)
next
  case False
  with assms(1-3) show ?thesis unfolding settled_def
    by (simp add: nth_list_update) (metis worker.inject(2))
qed

lemma settled_leave:
  assumes "settled Q items s i" "w < length (workers s)" "workers s ! w = Waiting ec"
  shows "settled Q items (s\<lparr>workers := (workers s)[w := Exited]\<rparr>) i"
  using assms unfolding settled_def
  by (simp add: nth_list_update) (metis worker.distinct(1))

lemma Exited_update: "Exited \<in> set (ws[w := x]) \<Longrightarrow> x \<noteq> Exited \<Longrightarrow> Exited \<in> set ws"
  by (metis in_set_conv_nth length_list_update nth_list_update_eq nth_list_update_neq)

lemma batchInv_update:
  assumes inv: "batchInv T A I Q items s"
    and w: "w < length (workers s)"
    and s': "workers s' = (workers s)[w := x]" "set (jobs s') \<subseteq> set (jobs s)"
      "length (results s') = length (results s)"
    and x: "workerOk T A I Q items x" "x = Exited \<Longrightarrow> jobs s' = []"
    and memo: "syncMapMemo.truthful T (shared s')"
    and settled: "\<And>i. settled Q items s i \<Longrightarrow> settled Q items s' i"
  shows "batchInv T A I Q items s'"
proof -
  have "\<forall>v < length (workers s'). workerOk T A I Q items (workers s' ! v)"
    using inv x(1) w by (simp add: s'(1) batchInv_def nth_list_update)
  moreover have "jobs s' = []" if "Exited \<in> set (workers s')"
    using Exited_update [of "workers s" w x] that x(2) s'(2) inv by (auto simp: s'(1) batchInv_def)
  moreover have "\<forall>(i, it) \<in> set (jobs s'). i < length items \<and> it = items ! i"
    using inv s'(2) unfolding batchInv_def by blast
  ultimately show ?thesis
    using inv memo settled by (simp add: batchInv_def s'(1,3))
qed

lemma batchInv_worker:
  "batchInv T A I Q items s \<Longrightarrow> w < length (workers s) \<Longrightarrow> workerOk T A I Q items (workers s ! w)"
  by (simp add: batchInv_def)

lemma batchStep_inv:
  assumes check: "\<And>ec it. it \<in> set items \<Longrightarrow> I ec \<Longrightarrow>
      progOk T A (\<lambda>x. Q it (fst x) \<and> I (snd x)) (check ec (ObjType it) (ObjID it) (Rel it) 0)"
    and "batchStep A s s'" and "batchInv T A I Q items s"
  shows "batchInv T A I Q items s'"
  using assms(2,3)
proof (induction rule: batchStep.induct)
  case (take_job w s ec i it js)
  have "i < length items" "it = items ! i" using take_job(3,4) by (auto simp: batchInv_def)
  moreover have "I ec" using batchInv_worker [OF take_job(4,1)] by (simp add: take_job(2) workerOk_def)
  ultimately have "workerOk T A I Q items (Evaluating i it (check ec (ObjType it) (ObjID it) (Rel it) 0))"
    using check by (simp add: workerOk_def)
  then show ?case
    using take_job(3,4) settled_take [OF _ take_job(1-3)]
    by (intro batchInv_update [OF take_job(4,1)]) (auto simp: batchInv_def)
next
  case (fetch w s i it ot oi rel k a)
  have "workerOk T A I Q items (Evaluating i it (k a))"
    using batchInv_worker [OF fetch(4,1)] fetch(3) by (auto simp: fetch(2) workerOk_def)
  then show ?case
    using fetch(4) settled_update [OF _ fetch(1,2), where m = "shared s"]
    by (intro batchInv_update [OF fetch(4,1)]) (auto simp: batchInv_def)
next
  case (load w s i it key k)
  have "workerOk T A I Q items (Evaluating i it (k (syncMapMemo_load (shared s) key)))"
    using batchInv_worker [OF load(3,1)] load(3)
    by (cases "syncMapMemo_load (shared s) key")
      (auto simp: load(2) workerOk_def batchInv_def syncMapMemo.truthful_def)
  then show ?case
    using load(3) settled_update [OF _ load(1,2), where m = "shared s"]
    by (intro batchInv_update [OF load(3,1)]) (auto simp: batchInv_def)
next
  case (store w s i it key b p)
  have "workerOk T A I Q items (Evaluating i it p) \<and> T key b"
    using batchInv_worker [OF store(3,1)] by (auto simp: store(2) workerOk_def)
  then show ?case
    using store(3) settled_update [OF _ store(1,2)]
    by (intro batchInv_update [OF store(3,1)]) (auto simp: batchInv_def syncMapMemo.truthful_store)
next
  case (finish w s i it res ec)
  have "workerOk T A I Q items (Waiting ec)" "Q (items ! i) res" "it = items ! i" "i < length (results s)"
    using batchInv_worker [OF finish(3,1)] finish(3) by (auto simp: finish(2) workerOk_def batchInv_def)
  then show ?case
    using finish(3) settled_finish [OF _ finish(1,2)]
    by (intro batchInv_update [OF finish(3,1)]) (auto simp: batchInv_def)
next
  case (leave w s ec)
  then show ?case
    using settled_leave [OF _ leave(1,2)]
    by (intro batchInv_update [OF leave(4,1)]) (auto simp: batchInv_def workerOk_def)
qed

lemma batchInit_inv:
  assumes "I (newEvalCtx m st si)"
  shows "batchInv T A I Q items (batchInit m st si items)"
  using assms
  by (auto simp: batchInv_def batchInit_def workerOk_def settled_def in_set_enumerate_eq
      syncMapMemo.truthful_fresh)

lemma BatchCan_inv:
  assumes check: "\<And>ec it. it \<in> set items \<Longrightarrow> I ec \<Longrightarrow>
      progOk T A (\<lambda>x. Q it (fst x) \<and> I (snd x)) (check ec (ObjType it) (ObjID it) (Rel it) 0)"
    and "I (newEvalCtx m st si)" and "BatchCan A m st si items rs"
  shows "length rs = length items"
    and "i < length items \<Longrightarrow> \<exists>res. rs ! i = batchResult (items ! i) res \<and> Q (items ! i) res"
proof -
  obtain s where steps: "(batchStep A)\<^sup>*\<^sup>* (batchInit m st si items) s" and "done": "batchDone s"
    and rs: "rs = results s" using assms(3) by (auto simp: BatchCan_def)
  from steps have inv: "batchInv T A I Q items s"
    by (induction rule: rtranclp_induct) (auto intro: batchInit_inv assms(2) batchStep_inv [OF check])
  then show "length rs = length items" by (simp add: batchInv_def rs)
  show "\<exists>res. rs ! i = batchResult (items ! i) res \<and> Q (items ! i) res" if "i < length items"
  proof -
    have all: "workers s ! w = Exited" if "w < length (workers s)" for w
      using "done" that by (simp add: batchDone_def)
    have "0 < length (workers s)"
      using inv \<open>i < length items\<close> by (auto simp: batchInv_def batchWorkers_def)
    then have "Exited \<in> set (workers s)" using all nth_mem by metis
    with inv have "jobs s = []" by (simp add: batchInv_def)
    moreover have "settled Q items s i" using inv that by (simp add: batchInv_def)
    ultimately show ?thesis using all by (auto simp: settled_def rs)
  qed
qed

section \<open>Progress and termination\<close>

lemma batch_progress_step:
  assumes "\<And>ot oi rel. \<exists>a. A ot oi rel a" and "\<not> batchDone s"
  shows "\<exists>s'. batchStep A s s'"
proof -
  obtain w where w: "w < length (workers s)" "workers s ! w \<noteq> Exited"
    using assms(2) by (auto simp: batchDone_def in_set_conv_nth)
  show ?thesis
  proof (cases "workers s ! w")
    case (Waiting ec)
    show ?thesis
    proof (cases "jobs s")
      case Nil
      from batchStep.leave [OF w(1) Waiting Nil] show ?thesis by blast
    next
      case (Cons j js)
      obtain i it where "j = (i, it)" by (cases j)
      with Cons batchStep.take_job [OF w(1) Waiting] show ?thesis by blast
    qed
  next
    case (Evaluating i it p)
    show ?thesis
    proof (cases p)
      case (Ret x)
      with Evaluating w(1) show ?thesis by (cases x) (blast intro: batchStep.finish)
    next
      case (FetchRows ot oi rel k)
      with Evaluating w(1) assms(1) [of ot oi rel] show ?thesis by (blast intro: batchStep.fetch)
    next
      case (MemoLoad key k)
      with Evaluating w(1) show ?thesis by (blast intro: batchStep.load)
    next
      case (MemoStore key b q)
      with Evaluating w(1) show ?thesis by (blast intro: batchStep.store)
    qed
  qed (use w(2) in simp)
qed

inductive_set workerLess :: "(worker \<times> worker) set" where
  "(Exited, Waiting ec) \<in> workerLess"
| "(Waiting ec, Evaluating i it (Ret (res, ec))) \<in> workerLess"
| "(Evaluating i it (k a), Evaluating i it (FetchRows ot oi rel k)) \<in> workerLess"
| "(Evaluating i it (k v), Evaluating i it (MemoLoad key k)) \<in> workerLess"
| "(Evaluating i it p, Evaluating i it (MemoStore key b p)) \<in> workerLess"

inductive_cases workerLess_elims:
  "(y, Exited) \<in> workerLess" "(y, Waiting ec) \<in> workerLess" "(y, Evaluating i it (Ret x)) \<in> workerLess"
  "(y, Evaluating i it (FetchRows ot oi rel k)) \<in> workerLess"
  "(y, Evaluating i it (MemoLoad key k)) \<in> workerLess"
  "(y, Evaluating i it (MemoStore key b p)) \<in> workerLess"

lemma wf_workerLess: "wf workerLess"
  unfolding wf_iff_acc
proof
  fix x
  have e: "Exited \<in> Wellfounded.acc workerLess"
    by (rule accI, erule workerLess_elims)
  have w: "Waiting ec \<in> Wellfounded.acc workerLess" for ec
    by (rule accI, erule workerLess_elims) (simp add: e)
  have "Evaluating i it p \<in> Wellfounded.acc workerLess" for i it p
  proof (induction p)
    case (Ret x)
    show ?case by (rule accI, erule workerLess_elims) (simp add: w)
  next
    case (FetchRows ot oi rel k)
    show ?case
      by (rule accI, erule workerLess_elims) (use FetchRows in auto)
  next
    case (MemoLoad key k)
    show ?case
      by (rule accI, erule workerLess_elims) (use MemoLoad in auto)
  next
    case (MemoStore key b p)
    show ?case
      by (rule accI, erule workerLess_elims) (use MemoStore in auto)
  qed
  with e w show "x \<in> Wellfounded.acc workerLess" by (cases x) auto
qed

definition batchOrder :: "(batchState \<times> batchState) set" where
  "batchOrder = inv_image (less_than <*lex*> mult workerLess) (\<lambda>s. (length (jobs s), mset (workers s)))"

lemma wf_batchOrder: "wf batchOrder"
  unfolding batchOrder_def by (intro wf_inv_image wf_lex_prod wf_less_than wf_mult wf_workerLess)

lemma mult_update:
  assumes "w < length ws" and "(x, ws ! w) \<in> workerLess"
  shows "(mset (ws[w := x]), mset ws) \<in> mult workerLess"
proof -
  have "mset ws = (mset ws - {#ws ! w#}) + {#ws ! w#}" using assms(1) by simp
  moreover have "mset (ws[w := x]) = (mset ws - {#ws ! w#}) + {#x#}"
    using assms(1) by (simp add: mset_update)
  ultimately show ?thesis
    using one_step_implies_mult [of "{#ws ! w#}" "{#x#}" workerLess "mset ws - {#ws ! w#}"] assms(2)
    by simp
qed

lemma batchStep_order: "batchStep A s s' \<Longrightarrow> (s', s) \<in> batchOrder"
proof (induction rule: batchStep.induct)
  case (fetch w s i it ot oi rel k a)
  then show ?case using mult_update [OF fetch(1)] by (simp add: batchOrder_def workerLess.intros(3))
next
  case (load w s i it key k)
  then show ?case using mult_update [OF load(1)] by (simp add: batchOrder_def workerLess.intros(4))
next
  case (store w s i it key b p)
  then show ?case using mult_update [OF store(1)] by (simp add: batchOrder_def workerLess.intros(5))
next
  case (finish w s i it res ec)
  then show ?case using mult_update [OF finish(1)] by (simp add: batchOrder_def workerLess.intros(2))
next
  case (leave w s ec)
  then show ?case using mult_update [OF leave(1)] by (simp add: batchOrder_def workerLess.intros(1))
qed (simp add: batchOrder_def)

lemma BatchCan_exists:
  assumes "\<And>ot oi rel. \<exists>a. A ot oi rel a"
  shows "\<exists>rs. BatchCan A m st si items rs"
proof -
  have "\<exists>s'. (batchStep A)\<^sup>*\<^sup>* s s' \<and> batchDone s'" for s
    using wf_batchOrder
  proof (induction s rule: wf_induct_rule)
    case (less s)
    show ?case
    proof (cases "batchDone s")
      case False
      then obtain t where t: "batchStep A s t" using batch_progress_step assms by blast
      with less batchStep_order obtain s' where "(batchStep A)\<^sup>*\<^sup>* t s'" "batchDone s'" by blast
      with t show ?thesis by (blast intro: converse_rtranclp_into_rtranclp)
    qed blast
  qed
  then show ?thesis unfolding BatchCan_def by blast
qed

definition itemNode :: "BatchItem \<Rightarrow> node" where
  "itemNode it = (ObjType it, ObjID it, Rel it)"

text \<open>A closed node set within the depth fence that holds the item.\<close>

definition withinFence :: "tupleRel \<Rightarrow> Model \<Rightarrow> node set \<Rightarrow> node \<Rightarrow> bool" where
  "withinFence R M C n \<longleftrightarrow> closedNodes R M C \<and> finite C \<and> card C \<le> Suc MaxDepth \<and>
     (\<forall>n \<in> C. nulFreeNode n) \<and> n \<in> C"

lemma batch_check_ok:
  assumes "nulFreeRows R" "nulFreeModel M" "nulFreeNode (itemNode it)" "ctxFor M (st, si) [] {} ec"
  shows "progOk (entryTrue R M (st, si) []) (answers R)
    (\<lambda>x. (\<forall>b. fst x = Inr b \<longrightarrow> b = granted R M (st, si) [] {} (itemNode it)) \<and>
         ctxFor M (st, si) [] {} (snd x))
    (check ec (ObjType it) (ObjID it) (Rel it) 0)"
  by (rule progOk_mono [OF check_ok [OF assms(1,2,4)]])
    (use assms(3,4) in \<open>auto simp: itemNode_def verdict_def intro: ctxFor_sameCtx\<close>)

lemma batch_check_total:
  assumes "withinFence R M C (itemNode it)" "ecModel ec = M \<and> visiting ec = {}"
  shows "progOk (\<lambda>_ _. True) (delivers R)
    (\<lambda>x. (\<exists>b. fst x = Inr b) \<and> ecModel (snd x) = M \<and> visiting (snd x) = {})
    (check ec (ObjType it) (ObjID it) (Rel it) 0)"
  by (rule progOk_mono [OF check_total [of R M C ec "{}"]])
    (use assms in \<open>auto simp: withinFence_def itemNode_def decided_def\<close>)

lemma answers_weaken: "progOk T (answers R) Q p \<Longrightarrow> progOk T (delivers R) Q p"
  by (induction p) (auto simp: delivers_answers)

lemma batchResult_fail_closed:
  "r = batchResult it res \<and> (\<forall>b. res = Inr b \<longrightarrow> b = g) \<Longrightarrow>
   brItem r = it \<and> (if brErr r = None then brAllowed r = g else \<not> brAllowed r)"
  by (cases res) (simp_all add: batchResult_def)

section \<open>Properties of the batch\<close>

text \<open>C3. Every interleaving of the workers gives the same, right answer: over a table that answers
  its queries, and for items whose reachable nodes stay within the depth fence, whenever
  \<open>BatchCan\<close> returns, its results are in request order and carry exactly
  the declared meaning of each item for the batch's subject, although the workers share one memo
  and each keeps its own in-progress marks.\<close>

theorem BatchCan_correct:
  assumes "nulFreeRows R" "nulFreeModel M" "\<forall>it \<in> set items. withinFence R M (C it) (itemNode it)"
    and "BatchCan (delivers R) M st si items rs"
  shows "rs = map (\<lambda>it. \<lparr>brItem = it, brAllowed = granted R M (st, si) [] {} (itemNode it),
    brErr = None\<rparr>) items"
proof -
  let ?T = "entryTrue R M (st, si) []"
  have nf: "nulFreeNode (itemNode it)" if "it \<in> set items" for it
    using assms(3) that by (auto simp: withinFence_def)
  note sound = BatchCan_inv [where I = "ctxFor M (st, si) [] {}" and T = ?T
      and Q = "\<lambda>it res. \<forall>b. res = Inr b \<longrightarrow> b = granted R M (st, si) [] {} (itemNode it)",
      OF answers_weaken [OF batch_check_ok [OF assms(1,2) nf]] _ assms(4)]
  note total = BatchCan_inv [where I = "\<lambda>ec. ecModel ec = M \<and> visiting ec = {}" and T = "\<lambda>_ _. True"
      and Q = "\<lambda>it res. \<exists>b. res = Inr b",
      OF batch_check_total [OF assms(3) [rule_format]] _ assms(4)]
  have ctx: "ctxFor M (st, si) [] {} (newEvalCtx M st si)"
    "ecModel (newEvalCtx M st si) = M \<and> visiting (newEvalCtx M st si) = {}"
    by (simp_all add: ctxFor_def newEvalCtx_def)
  show ?thesis
  proof (rule nth_equalityI)
    show "length rs = length (map (\<lambda>it. \<lparr>brItem = it, brAllowed = granted R M (st, si) [] {} (itemNode it),
       brErr = None\<rparr>) items)" using sound(1) ctx(1) by simp
    fix i assume "i < length rs"
    then have i: "i < length items" using sound(1) ctx(1) by simp
    obtain res where res: "rs ! i = batchResult (items ! i) res"
        "\<forall>b. res = Inr b \<longrightarrow> b = granted R M (st, si) [] {} (itemNode (items ! i))"
      using sound(2) [OF _ _ _ i] ctx(1) by blast
    moreover obtain b where "rs ! i = batchResult (items ! i) (Inr b)"
      using total(2) [OF _ _ _ i] ctx(2) by blast
    ultimately show "rs ! i = map (\<lambda>it. \<lparr>brItem = it, brAllowed = granted R M (st, si) [] {} (itemNode it),
       brErr = None\<rparr>) items ! i"
      using i by (cases res) (auto simp: batchResult_def)
  qed
qed

theorem BatchCan_correct_witness:
  "\<exists>rs. BatchCan (delivers (rowsOf exTable)) exModel ''user'' ''u''
      [\<lparr>ObjType = ''doc'', ObjID = ''1'', Rel = ''viewer''\<rparr>, \<lparr>ObjType = ''group'', ObjID = ''g'', Rel = ''member''\<rparr>] rs \<and>
    rs = map (\<lambda>it. \<lparr>brItem = it,
        brAllowed = granted (rowsOf exTable) exModel (''user'', ''u'') [] {} (itemNode it), brErr = None\<rparr>)
      [\<lparr>ObjType = ''doc'', ObjID = ''1'', Rel = ''viewer''\<rparr>, \<lparr>ObjType = ''group'', ObjID = ''g'', Rel = ''member''\<rparr>]"
proof -
  let ?items = "[\<lparr>ObjType = ''doc'', ObjID = ''1'', Rel = ''viewer''\<rparr>, \<lparr>ObjType = ''group'', ObjID = ''g'', Rel = ''member''\<rparr>]"
  have fence: "\<forall>it \<in> set ?items. withinFence (rowsOf exTable) exModel exNodes (itemNode it)"
    using exClosed exNulFree by (simp add: withinFence_def itemNode_def) (simp add: exNodes_def)
  obtain rs where rs: "BatchCan (delivers (rowsOf exTable)) exModel ''user'' ''u'' ?items rs"
    using BatchCan_exists [of "delivers (rowsOf exTable)"] tableDB_delivers by blast
  from BatchCan_correct [OF exNulFree(1,2) fence this] rs show ?thesis by blast
qed

text \<open>C4. Under failing queries the batch stays fail-closed item by item: results come in request
  order, an item without an error carries its declared meaning, and an item with an error is not
  allowed.\<close>

theorem BatchCan_fail_closed:
  assumes "nulFreeRows R" "nulFreeModel M" "\<forall>it \<in> set items. nulFreeNode (itemNode it)"
    and "BatchCan (answers R) M st si items rs"
  shows "list_all2 (\<lambda>it r. brItem r = it \<and>
     (if brErr r = None then brAllowed r = granted R M (st, si) [] {} (itemNode it)
      else \<not> brAllowed r)) items rs"
proof -
  note inv = BatchCan_inv [where I = "ctxFor M (st, si) [] {}" and T = "entryTrue R M (st, si) []"
      and Q = "\<lambda>it res. \<forall>b. res = Inr b \<longrightarrow> b = granted R M (st, si) [] {} (itemNode it)",
      OF batch_check_ok [OF assms(1,2) assms(3) [rule_format]] _ assms(4)]
  have ctx: "ctxFor M (st, si) [] {} (newEvalCtx M st si)"
    by (simp add: ctxFor_def newEvalCtx_def)
  have "brItem (rs ! i) = items ! i \<and> (if brErr (rs ! i) = None
      then brAllowed (rs ! i) = granted R M (st, si) [] {} (itemNode (items ! i))
      else \<not> brAllowed (rs ! i))" if i: "i < length items" for i
  proof -
    obtain res where "rs ! i = batchResult (items ! i) res \<and>
      (\<forall>b. res = Inr b \<longrightarrow> b = granted R M (st, si) [] {} (itemNode (items ! i)))"
      using inv(2) [OF _ _ _ i] ctx by blast
    from batchResult_fail_closed [OF this] show ?thesis .
  qed
  moreover have "length rs = length items" using inv(1) ctx by blast
  ultimately show ?thesis by (simp add: list_all2_conv_all_nth)
qed

theorem BatchCan_fail_closed_witness:
  "\<exists>rs. BatchCan (answers (rowsOf exTable)) exModel ''user'' ''u''
      [\<lparr>ObjType = ''doc'', ObjID = ''1'', Rel = ''viewer''\<rparr>] rs \<and>
    list_all2 (\<lambda>it r. brItem r = it \<and>
     (if brErr r = None then brAllowed r = granted (rowsOf exTable) exModel (''user'', ''u'') [] {} (itemNode it)
      else \<not> brAllowed r)) [\<lparr>ObjType = ''doc'', ObjID = ''1'', Rel = ''viewer''\<rparr>] rs"
proof -
  let ?items = "[\<lparr>ObjType = ''doc'', ObjID = ''1'', Rel = ''viewer''\<rparr>]"
  have nf: "\<forall>it \<in> set ?items. nulFreeNode (itemNode it)"
    using exNulFree(3) by (simp add: itemNode_def exNodes_def)
  obtain rs where rs: "BatchCan (answers (rowsOf exTable)) exModel ''user'' ''u'' ?items rs"
    using BatchCan_exists [of "answers (rowsOf exTable)"] tableDB_answers by blast
  from BatchCan_fail_closed [OF exNulFree(1,2) nf this] rs show ?thesis by blast
qed

text \<open>C5. The batch always ends: no schedule of the workers runs forever, no state before the end
  is stuck, and so \<open>BatchCan\<close> returns results.\<close>

theorem BatchCan_terminates:
  assumes "\<And>ot oi rel. \<exists>a. A ot oi rel a"
  shows "wf {(s', s). batchStep A s s'} \<and> (\<forall>s. batchDone s \<or> (\<exists>s'. batchStep A s s')) \<and>
    (\<exists>rs. BatchCan A M st si items rs)"
proof -
  have "wf {(s', s). batchStep A s s'}"
    by (rule wf_subset [OF wf_batchOrder]) (auto simp: batchStep_order)
  then show ?thesis using batch_progress_step BatchCan_exists assms by blast
qed

theorem BatchCan_terminates_witness:
  "\<exists>rs. BatchCan (delivers (rowsOf exTable)) exModel ''user'' ''u''
      [\<lparr>ObjType = ''doc'', ObjID = ''1'', Rel = ''viewer''\<rparr>] rs"
  using BatchCan_terminates [of "delivers (rowsOf exTable)"] tableDB_delivers by blast

end
