(* ===== verification/Tuple_Store.thy ===== *)
theory Tuple_Store
  imports Engine_Batch
begin

text \<open>
  The tuple store of \<open>internal/authz/store\<close> with the tables and constraints of
  \<open>migrations/authz\<close>: the tuples, the grant ledger and the default-grant claims. Each
  operation runs inside its caller's transaction and returns the changed tables or an error; on
  an error the caller rolls back, so an error changes nothing. The lemmas show the invariants of
  the tables, what each operation changes, and what revoking an anchor means for later checks.
\<close>

section \<open>Tables\<close>

record Tuple =
  ObjectType :: string
  ObjectID :: string
  Relation :: string
  SubjectType :: string
  SubjectID :: string
  SubjectRelation :: string

datatype ledgerOp = OpGrant | OpRevoke

record LedgerRow =
  lrActor :: string
  lrTuple :: Tuple
  lrOp :: ledgerOp
  lrCorrelation :: "string option"

record authzDB =
  tupleTab :: "Tuple list"
  grantLedger :: "LedgerRow list"
  defaultGrants :: "(string \<times> string) list"

definition emptyDB :: authzDB where
  "emptyDB = \<lparr>tupleTab = [], grantLedger = [], defaultGrants = []\<rparr>"

datatype StoreError =
    NoTuples ledgerOp
  | EmptyField Tuple
  | AnchorConflictError Tuple
  | ShapeNotPermitted Tuple
  | DefaultGrantKeys

text \<open>The rows the partial unique index \<open>tuple_one_anchor_per_object\<close> ranges over.\<close>

definition isAnchor :: "Tuple \<Rightarrow> bool" where
  "isAnchor t \<longleftrightarrow> Relation t = ''company_module'' \<and> SubjectType t = ''company_module''"

definition sameObject :: "Tuple \<Rightarrow> Tuple \<Rightarrow> bool" where
  "sameObject t u \<longleftrightarrow> ObjectType t = ObjectType u \<and> ObjectID t = ObjectID u"

section \<open>Statements\<close>

text \<open>Each returns the table and the number of affected rows. The insert does nothing on a
  primary-key conflict and raises on a second anchor.\<close>

definition insertTupleSQL :: "Tuple list \<Rightarrow> Tuple \<Rightarrow> (StoreError, Tuple list \<times> nat) result" where
  "insertTupleSQL tab t =
     (if t \<in> set tab then Inr (tab, 0)
      else if isAnchor t \<and> (\<exists>u \<in> set tab. isAnchor u \<and> sameObject u t) then Inl (AnchorConflictError t)
      else Inr (tab @ [t], 1))"

definition deleteTupleSQL :: "Tuple list \<Rightarrow> Tuple \<Rightarrow> Tuple list \<times> nat" where
  "deleteTupleSQL tab t = (filter (\<lambda>u. u \<noteq> t) tab, length (filter (\<lambda>u. u = t) tab))"

definition deleteObjectTuplesSQL :: "Tuple list \<Rightarrow> string \<Rightarrow> string \<Rightarrow> Tuple list \<times> Tuple list" where
  "deleteObjectTuplesSQL tab ot oi =
     (filter (\<lambda>u. \<not> (ObjectType u = ot \<and> ObjectID u = oi)) tab,
      filter (\<lambda>u. ObjectType u = ot \<and> ObjectID u = oi) tab)"

definition insertLedgerSQL ::
  "authzDB \<Rightarrow> string \<Rightarrow> Tuple \<Rightarrow> ledgerOp \<Rightarrow> string option \<Rightarrow> authzDB" where
  "insertLedgerSQL db actor t op corr =
     db\<lparr>grantLedger := grantLedger db @
       [\<lparr>lrActor = actor, lrTuple = t, lrOp = op, lrCorrelation = corr\<rparr>]\<rparr>"

section \<open>Grant and revoke\<close>

definition revokeObjectRest ::
  "authzDB \<Rightarrow> string \<Rightarrow> string option \<Rightarrow> string \<Rightarrow> string \<Rightarrow> authzDB" where
  "revokeObjectRest db actor corr ot oi =
     (case deleteObjectTuplesSQL (tupleTab db) ot oi of (rest, gone) \<Rightarrow>
        foldl (\<lambda>d t. insertLedgerSQL d actor t OpRevoke corr) (db\<lparr>tupleTab := rest\<rparr>) gone)"

definition missingField :: "Tuple \<Rightarrow> bool" where
  "missingField t \<longleftrightarrow> ObjectType t = [] \<or> ObjectID t = [] \<or> Relation t = [] \<or>
     SubjectType t = [] \<or> SubjectID t = []"

definition applyStmt :: "ledgerOp \<Rightarrow> Tuple list \<Rightarrow> Tuple \<Rightarrow> (StoreError, Tuple list \<times> nat) result" where
  "applyStmt op tab t =
     (case op of OpGrant \<Rightarrow> insertTupleSQL tab t | OpRevoke \<Rightarrow> Inr (deleteTupleSQL tab t))"

fun writeEach ::
  "authzDB \<Rightarrow> string \<Rightarrow> string option \<Rightarrow> ledgerOp \<Rightarrow> Tuple list \<Rightarrow> (StoreError, authzDB) result" where
  "writeEach db actor corr op [] = Inr db"
| "writeEach db actor corr op (tp # tuples) =
     (if missingField tp then Inl (EmptyField tp)
      else rbind (applyStmt op (tupleTab db) tp) (\<lambda>(tab, rows).
        let db1 = db\<lparr>tupleTab := tab\<rparr> in
        if rows = 0 then writeEach db1 actor corr op tuples
        else
          let db2 = insertLedgerSQL db1 actor tp op corr;
              db3 = (if op = OpRevoke \<and> Relation tp = ''company_module'' \<and>
                        SubjectType tp = ''company_module''
                     then revokeObjectRest db2 actor corr (ObjectType tp) (ObjectID tp) else db2)
          in writeEach db3 actor corr op tuples))"

definition writeTuples ::
  "authzDB \<Rightarrow> string \<Rightarrow> string \<Rightarrow> ledgerOp \<Rightarrow> Tuple list \<Rightarrow> (StoreError, authzDB) result" where
  "writeTuples db actor correlationID op tuples =
     (if tuples = [] then Inl (NoTuples op)
      else writeEach db actor (if correlationID = [] then None else Some correlationID) op tuples)"

definition Grant :: "authzDB \<Rightarrow> string \<Rightarrow> string \<Rightarrow> Tuple list \<Rightarrow> (StoreError, authzDB) result" where
  "Grant db actor correlationID tuples = writeTuples db actor correlationID OpGrant tuples"

definition Revoke :: "authzDB \<Rightarrow> string \<Rightarrow> string \<Rightarrow> Tuple list \<Rightarrow> (StoreError, authzDB) result" where
  "Revoke db actor correlationID tuples = writeTuples db actor correlationID OpRevoke tuples"

section \<open>Reads\<close>

definition SystemPlatformID :: string where
  "SystemPlatformID = ''platform''"

definition PlatformRoleSuperadmin :: string where
  "PlatformRoleSuperadmin = ''kiban-superadmin''"

definition SuperadminTuple :: "string \<Rightarrow> Tuple" where
  "SuperadminTuple subject = \<lparr>ObjectType = ''system'', ObjectID = SystemPlatformID,
     Relation = ''superadmin'', SubjectType = ''user'', SubjectID = subject, SubjectRelation = []\<rparr>"

definition CountSuperadmins :: "authzDB \<Rightarrow> nat" where
  "CountSuperadmins db = length (filter (\<lambda>t. ObjectType t = ''system'' \<and> ObjectID t = SystemPlatformID \<and>
     Relation t = ''superadmin'' \<and> SubjectType t = ''user'' \<and> SubjectRelation t = []) (tupleTab db))"

definition AnchorOf :: "authzDB \<Rightarrow> string \<Rightarrow> string \<Rightarrow> string" where
  "AnchorOf db ot oi =
     (case filter (\<lambda>t. ObjectType t = ot \<and> ObjectID t = oi \<and> Relation t = ''company_module'' \<and>
                      SubjectType t = ''company_module'') (tupleTab db) of
        [] \<Rightarrow> [] | t # _ \<Rightarrow> SubjectID t)"

definition MemberOfCompany :: "authzDB \<Rightarrow> string \<Rightarrow> string \<Rightarrow> bool" where
  "MemberOfCompany db company member \<longleftrightarrow>
     0 < length (filter (\<lambda>t. ObjectType t = ''company'' \<and> ObjectID t = company \<and> Relation t = ''member'' \<and>
       SubjectType t = ''member'' \<and> SubjectID t = member \<and> SubjectRelation t = ''mapped_user'') (tupleTab db))"

text \<open>The database sorts the rows by object type, object id and relation under its own collation:
  \<open>orderBy\<close> is that sort.\<close>

type_synonym ObjectRelation = "string \<times> string \<times> string"

definition ListDirectTuplesForSubject ::
  "(ObjectRelation list \<Rightarrow> ObjectRelation list) \<Rightarrow> authzDB \<Rightarrow> string \<Rightarrow> string \<Rightarrow> ObjectRelation list" where
  "ListDirectTuplesForSubject orderBy db st si =
     orderBy (map (\<lambda>t. (ObjectType t, ObjectID t, Relation t))
       (filter (\<lambda>t. SubjectType t = st \<and> SubjectID t = si \<and> SubjectRelation t = []) (tupleTab db)))"

section \<open>Default grants and anchors\<close>

definition companyModuleID :: "string \<Rightarrow> string \<Rightarrow> string" where
  "companyModuleID company module = company @ ''/'' @ module"

definition companyAnchorTuple :: "string \<Rightarrow> string \<Rightarrow> Tuple" where
  "companyAnchorTuple company module = \<lparr>ObjectType = ''company_module'',
     ObjectID = companyModuleID company module, Relation = ''company'', SubjectType = ''company'',
     SubjectID = company, SubjectRelation = []\<rparr>"

definition defaultGrantTuple :: "string \<Rightarrow> string \<Rightarrow> Tuple" where
  "defaultGrantTuple company module = \<lparr>ObjectType = ''company_module'',
     ObjectID = companyModuleID company module, Relation = ''system'', SubjectType = ''system'',
     SubjectID = SystemPlatformID, SubjectRelation = []\<rparr>"

definition EnsureCompanyModuleAnchor ::
  "authzDB \<Rightarrow> string \<Rightarrow> string \<Rightarrow> string \<Rightarrow> string \<Rightarrow> (StoreError, authzDB) result" where
  "EnsureCompanyModuleAnchor db actor correlationID company module =
     (if 0 < length (filter (\<lambda>t. t = companyAnchorTuple company module) (tupleTab db)) then Inr db
      else Grant db actor correlationID [companyAnchorTuple company module])"

definition EnsureDefaultGrant ::
  "authzDB \<Rightarrow> string \<Rightarrow> string \<Rightarrow> string \<Rightarrow> string \<Rightarrow> (StoreError, bool \<times> authzDB) result" where
  "EnsureDefaultGrant db actor correlationID company module =
     (if company = [] \<or> module = [] then Inl DefaultGrantKeys
      else
        rbind (EnsureCompanyModuleAnchor db actor correlationID company module) (\<lambda>db1.
        if (company, module) \<in> set (defaultGrants db1) then Inr (False, db1)
        else
          let db2 = db1\<lparr>defaultGrants := defaultGrants db1 @ [(company, module)]\<rparr> in
          rbind (Grant db2 actor correlationID [defaultGrantTuple company module]) (\<lambda>db3.
            Inr (True, db3))))"

section \<open>The owner-rights revocation function\<close>

definition permittedShape :: "Tuple \<Rightarrow> bool" where
  "permittedShape t \<longleftrightarrow>
     (ObjectType t = ''position'' \<and> Relation t = ''holder'' \<and> SubjectType t = ''member'' \<and>
        SubjectRelation t = ''mapped_user'') \<or>
     (ObjectType t = ''member'' \<and> Relation t = ''mapped_user'' \<and> SubjectType t = ''user'' \<and>
        SubjectRelation t = []) \<or>
     (ObjectType t = ''group'' \<and> Relation t = ''member'' \<and> SubjectType t = ''member'' \<and>
        SubjectRelation t = ''mapped_user'') \<or>
     (ObjectType t = ''company'' \<and> Relation t = ''member'' \<and> SubjectType t = ''member'' \<and>
        SubjectRelation t = ''mapped_user'') \<or>
     (ObjectType t = ''position'' \<and> Relation t = ''company'' \<and> SubjectType t = ''company'' \<and>
        SubjectRelation t = []) \<or>
     (ObjectType t = ''group'' \<and> Relation t = ''company'' \<and> SubjectType t = ''company'' \<and>
        SubjectRelation t = [])"

definition revoke_position_or_member_tuple ::
  "authzDB \<Rightarrow> string \<Rightarrow> string \<Rightarrow> Tuple \<Rightarrow> (StoreError, authzDB) result" where
  "revoke_position_or_member_tuple db actor correlationID t =
     (if \<not> permittedShape t then Inl (ShapeNotPermitted t)
      else Inr (insertLedgerSQL (db\<lparr>tupleTab := fst (deleteTupleSQL (tupleTab db) t)\<rparr>) actor t OpRevoke
             (if correlationID = [] then None else Some correlationID)))"

definition RevokePositionOrMemberTuple ::
  "authzDB \<Rightarrow> string \<Rightarrow> string \<Rightarrow> Tuple \<Rightarrow> (StoreError, authzDB) result" where
  "RevokePositionOrMemberTuple db actor correlationID t =
     (if missingField t then Inl (EmptyField t)
      else revoke_position_or_member_tuple db actor correlationID t)"

section \<open>Effects of the operations\<close>

definition ledgerRow :: "string \<Rightarrow> string option \<Rightarrow> ledgerOp \<Rightarrow> Tuple \<Rightarrow> LedgerRow" where
  "ledgerRow actor corr op t = \<lparr>lrActor = actor, lrTuple = t, lrOp = op, lrCorrelation = corr\<rparr>"

lemma insertLedgerSQL_simps [simp]:
  "tupleTab (insertLedgerSQL db actor t op corr) = tupleTab db"
  "defaultGrants (insertLedgerSQL db actor t op corr) = defaultGrants db"
  "grantLedger (insertLedgerSQL db actor t op corr) = grantLedger db @ [ledgerRow actor corr op t]"
  by (simp_all add: insertLedgerSQL_def ledgerRow_def)

lemma foldl_ledger [simp]:
  "tupleTab (foldl (\<lambda>d t. insertLedgerSQL d actor t op corr) db ts) = tupleTab db"
  "defaultGrants (foldl (\<lambda>d t. insertLedgerSQL d actor t op corr) db ts) = defaultGrants db"
  "grantLedger (foldl (\<lambda>d t. insertLedgerSQL d actor t op corr) db ts) =
     grantLedger db @ map (ledgerRow actor corr op) ts"
  by (induction ts arbitrary: db) simp_all

lemma revokeObjectRest_simps [simp]:
  "tupleTab (revokeObjectRest db actor corr ot oi) =
     filter (\<lambda>u. \<not> (ObjectType u = ot \<and> ObjectID u = oi)) (tupleTab db)"
  "defaultGrants (revokeObjectRest db actor corr ot oi) = defaultGrants db"
  "grantLedger (revokeObjectRest db actor corr ot oi) = grantLedger db @
     map (ledgerRow actor corr OpRevoke) (filter (\<lambda>u. ObjectType u = ot \<and> ObjectID u = oi) (tupleTab db))"
  by (simp_all add: revokeObjectRest_def deleteObjectTuplesSQL_def)

text \<open>A grant appends exactly the tuples that were absent, each with one ledger row.\<close>

lemma writeEach_grant:
  "writeEach db actor corr OpGrant ts = Inr db' \<Longrightarrow>
   defaultGrants db' = defaultGrants db \<and> (\<forall>t \<in> set ts. \<not> missingField t) \<and>
   (\<exists>new. tupleTab db' = tupleTab db @ new \<and> set new = set ts - set (tupleTab db) \<and> distinct new \<and>
     grantLedger db' = grantLedger db @ map (ledgerRow actor corr OpGrant) new)"
proof (induction ts arbitrary: db)
  case (Cons t ts)
  have ok: "\<not> missingField t" using Cons.prems by (simp split: if_splits)
  show ?case
  proof (cases "t \<in> set (tupleTab db)")
    case True
    with Cons.prems ok have "writeEach (db\<lparr>tupleTab := tupleTab db\<rparr>) actor corr OpGrant ts = Inr db'"
      by (simp add: applyStmt_def insertTupleSQL_def rbind_def)
    from Cons.IH [OF this] True ok show ?thesis by auto
  next
    case False
    let ?db = "insertLedgerSQL (db\<lparr>tupleTab := tupleTab db @ [t]\<rparr>) actor t OpGrant corr"
    have "writeEach ?db actor corr OpGrant ts = Inr db'"
      using Cons.prems ok False
      by (auto simp: applyStmt_def insertTupleSQL_def rbind_def split: if_splits)
    from Cons.IH [OF this] obtain new where new: "tupleTab db' = tupleTab db @ t # new"
        "set new = set ts - set (tupleTab db @ [t])" "distinct new"
        "grantLedger db' = grantLedger db @ map (ledgerRow actor corr OpGrant) (t # new)"
        "defaultGrants db' = defaultGrants db" "\<forall>t \<in> set ts. \<not> missingField t" by auto
    with ok False show ?thesis by (auto intro!: exI [of _ "t # new"])
  qed
qed simp

text \<open>What revoking a list of tuples removes: the tuples themselves, and everything on the object of
  an anchor that was present.\<close>

definition revoked :: "Tuple set \<Rightarrow> Tuple set \<Rightarrow> Tuple set" where
  "revoked tab ts = {u \<in> tab. u \<in> ts \<or> (\<exists>t \<in> ts \<inter> tab. isAnchor t \<and> sameObject u t)}"

lemma writeEach_revoke:
  "writeEach db actor corr OpRevoke ts = Inr db' \<Longrightarrow>
   defaultGrants db' = defaultGrants db \<and>
   (\<exists>P. tupleTab db' = filter P (tupleTab db)) \<and>
   set (tupleTab db') = set (tupleTab db) - revoked (set (tupleTab db)) (set ts) \<and>
   (\<exists>gone. set gone = revoked (set (tupleTab db)) (set ts) \<and>
     grantLedger db' = grantLedger db @ map (ledgerRow actor corr OpRevoke) gone)"
proof (induction ts arbitrary: db)
  case Nil
  then show ?case by (auto simp: revoked_def intro: exI [of _ "\<lambda>_. True"])
next
  case (Cons t ts)
  let ?tab = "filter (\<lambda>u. u \<noteq> t) (tupleTab db)"
  have ok: "\<not> missingField t" using Cons.prems by (simp split: if_splits)
  define db3 where "db3 = (if t \<in> set (tupleTab db) then
      (if isAnchor t then revokeObjectRest (insertLedgerSQL (db\<lparr>tupleTab := ?tab\<rparr>) actor t OpRevoke corr)
         actor corr (ObjectType t) (ObjectID t)
       else insertLedgerSQL (db\<lparr>tupleTab := ?tab\<rparr>) actor t OpRevoke corr)
      else db\<lparr>tupleTab := ?tab\<rparr>)"
  have "(length (filter (\<lambda>u. u = t) (tupleTab db)) = 0) = (t \<notin> set (tupleTab db))"
    by (auto simp: filter_empty_conv)
  then have w: "writeEach db3 actor corr OpRevoke ts = Inr db'"
    using Cons.prems ok
    by (auto simp: db3_def applyStmt_def deleteTupleSQL_def rbind_def isAnchor_def Let_def split: if_splits)
  have tab3: "tupleTab db3 = filter (\<lambda>u. u \<noteq> t \<and>
      \<not> (t \<in> set (tupleTab db) \<and> isAnchor t \<and> sameObject u t)) (tupleTab db)"
    by (auto simp: db3_def sameObject_def intro!: filter_cong)
  have dg3: "defaultGrants db3 = defaultGrants db" by (simp add: db3_def)
  have set3: "set (tupleTab db3) = set (tupleTab db) - revoked (set (tupleTab db)) {t}"
    by (auto simp: tab3 revoked_def)
  have led3: "\<exists>gone. set gone = revoked (set (tupleTab db)) {t} \<and>
     grantLedger db3 = grantLedger db @ map (ledgerRow actor corr OpRevoke) gone"
  proof -
    let ?rest = "filter (\<lambda>u. ObjectType u = ObjectType t \<and> ObjectID u = ObjectID t) ?tab"
    consider "t \<notin> set (tupleTab db)" | "t \<in> set (tupleTab db)" "isAnchor t"
      | "t \<in> set (tupleTab db)" "\<not> isAnchor t" by blast
    then show ?thesis
    proof cases
      case 1
      then show ?thesis by (auto simp: db3_def revoked_def intro!: exI [of _ "[]"])
    next
      case 2
      then show ?thesis
        by (auto simp: db3_def revoked_def sameObject_def intro!: exI [of _ "t # ?rest"])
    next
      case 3
      then show ?thesis by (auto simp: db3_def revoked_def intro!: exI [of _ "[t]"])
    qed
  qed
  have comp: "revoked (set (tupleTab db)) (set (t # ts)) =
      revoked (set (tupleTab db)) {t} \<union> revoked (set (tupleTab db3)) (set ts)"
    unfolding set3 by (auto simp: revoked_def sameObject_def)
  obtain gone1 where g1: "set gone1 = revoked (set (tupleTab db)) {t}"
     "grantLedger db3 = grantLedger db @ map (ledgerRow actor corr OpRevoke) gone1" using led3 by blast
  from Cons.IH [OF w] obtain P gone2 where g2: "defaultGrants db' = defaultGrants db3"
      "tupleTab db' = filter P (tupleTab db3)"
      "set (tupleTab db') = set (tupleTab db3) - revoked (set (tupleTab db3)) (set ts)"
      "set gone2 = revoked (set (tupleTab db3)) (set ts)"
      "grantLedger db' = grantLedger db3 @ map (ledgerRow actor corr OpRevoke) gone2" by blast
  have "set (gone1 @ gone2) = revoked (set (tupleTab db)) (set (t # ts))"
    "grantLedger db' = grantLedger db @ map (ledgerRow actor corr OpRevoke) (gone1 @ gone2)"
    using g1 g2 comp by auto
  moreover have "\<exists>P. tupleTab db' = filter P (tupleTab db)" using g2(2) tab3 by auto
  moreover have "set (tupleTab db') = set (tupleTab db) - revoked (set (tupleTab db)) (set (t # ts))"
    unfolding comp g2(3) set3 by blast
  ultimately show ?case using g2(1) dg3 by metis
qed

section \<open>Invariants of the tables\<close>

definition replayRow :: "Tuple set \<Rightarrow> LedgerRow \<Rightarrow> Tuple set" where
  "replayRow S r = (case lrOp r of OpGrant \<Rightarrow> insert (lrTuple r) S | OpRevoke \<Rightarrow> S - {lrTuple r})"

text \<open>The tuples a reader of the ledger alone would reconstruct.\<close>

definition replay :: "LedgerRow list \<Rightarrow> Tuple set" where
  "replay rows = foldl replayRow {} rows"

lemma replay_grants: "foldl replayRow S (map (ledgerRow actor corr OpGrant) ts) = S \<union> set ts"
  by (induction ts arbitrary: S) (auto simp: replayRow_def ledgerRow_def)

lemma replay_revokes: "foldl replayRow S (map (ledgerRow actor corr OpRevoke) ts) = S - set ts"
  by (induction ts arbitrary: S) (auto simp: replayRow_def ledgerRow_def)

lemma replay_append_grants: "replay (rows @ map (ledgerRow actor corr OpGrant) ts) = replay rows \<union> set ts"
  by (simp add: replay_def replay_grants)

lemma replay_append_revokes: "replay (rows @ map (ledgerRow actor corr OpRevoke) ts) = replay rows - set ts"
  by (simp add: replay_def replay_revokes)

definition oneAnchor :: "Tuple set \<Rightarrow> bool" where
  "oneAnchor S \<longleftrightarrow> (\<forall>t \<in> S. \<forall>u \<in> S. isAnchor t \<and> isAnchor u \<and> sameObject t u \<longrightarrow> t = u)"

definition storeInv :: "authzDB \<Rightarrow> bool" where
  "storeInv db \<longleftrightarrow> distinct (tupleTab db) \<and> oneAnchor (set (tupleTab db)) \<and>
     (\<forall>t \<in> set (tupleTab db). \<not> missingField t) \<and>
     set (tupleTab db) = replay (grantLedger db) \<and> distinct (defaultGrants db)"

lemma oneAnchor_subset: "oneAnchor S \<Longrightarrow> S' \<subseteq> S \<Longrightarrow> oneAnchor S'"
  by (auto simp: oneAnchor_def)

lemma writeEach_grant_oneAnchor:
  "writeEach db actor corr OpGrant ts = Inr db' \<Longrightarrow> oneAnchor (set (tupleTab db)) \<Longrightarrow>
   oneAnchor (set (tupleTab db'))"
proof (induction ts arbitrary: db)
  case (Cons t ts)
  have ok: "\<not> missingField t" using Cons.prems by (simp split: if_splits)
  show ?case
  proof (cases "t \<in> set (tupleTab db)")
    case True
    with Cons.prems ok have "writeEach (db\<lparr>tupleTab := tupleTab db\<rparr>) actor corr OpGrant ts = Inr db'"
      by (simp add: applyStmt_def insertTupleSQL_def rbind_def)
    from Cons.IH [OF this] Cons.prems(2) show ?thesis by simp
  next
    case False
    let ?db = "insertLedgerSQL (db\<lparr>tupleTab := tupleTab db @ [t]\<rparr>) actor t OpGrant corr"
    have w: "writeEach ?db actor corr OpGrant ts = Inr db'"
      and "\<not> (isAnchor t \<and> (\<exists>u \<in> set (tupleTab db). isAnchor u \<and> sameObject u t))"
      using Cons.prems(1) ok False
      by (auto simp: applyStmt_def insertTupleSQL_def rbind_def split: if_splits)
    with Cons.prems(2) have "oneAnchor (set (tupleTab ?db))"
      by (auto simp: oneAnchor_def sameObject_def)
    from Cons.IH [OF w this] show ?thesis .
  qed
qed simp

lemma writeTuples_Inr:
  assumes "writeTuples db actor corr op ts = Inr db'"
  shows "\<exists>c. writeEach db actor c op ts = Inr db'"
  using assms by (auto simp: writeTuples_def split: if_splits)

lemma Grant_inv: "Grant db actor corr ts = Inr db' \<Longrightarrow> storeInv db \<Longrightarrow> storeInv db'"
proof -
  assume "Grant db actor corr ts = Inr db'" and inv: "storeInv db"
  then obtain c where w: "writeEach db actor c OpGrant ts = Inr db'"
    unfolding Grant_def by (blast dest: writeTuples_Inr)
  from writeEach_grant [OF w] obtain new where "tupleTab db' = tupleTab db @ new"
      "set new = set ts - set (tupleTab db)" "distinct new"
      "grantLedger db' = grantLedger db @ map (ledgerRow actor c OpGrant) new"
      "defaultGrants db' = defaultGrants db" "\<forall>t \<in> set ts. \<not> missingField t" by blast
  with inv writeEach_grant_oneAnchor [OF w] show ?thesis
    by (auto simp: storeInv_def replay_append_grants)
qed

lemma Revoke_inv: "Revoke db actor corr ts = Inr db' \<Longrightarrow> storeInv db \<Longrightarrow> storeInv db'"
proof -
  assume "Revoke db actor corr ts = Inr db'" and inv: "storeInv db"
  then obtain c where w: "writeEach db actor c OpRevoke ts = Inr db'"
    unfolding Revoke_def by (blast dest: writeTuples_Inr)
  from writeEach_revoke [OF w] obtain P gone where "tupleTab db' = filter P (tupleTab db)"
      "set (tupleTab db') = set (tupleTab db) - revoked (set (tupleTab db)) (set ts)"
      "set gone = revoked (set (tupleTab db)) (set ts)"
      "grantLedger db' = grantLedger db @ map (ledgerRow actor c OpRevoke) gone"
      "defaultGrants db' = defaultGrants db" by blast
  with inv oneAnchor_subset [of "set (tupleTab db)" "set (tupleTab db')"] show ?thesis
    by (auto simp: storeInv_def replay_append_revokes)
qed

lemma EnsureCompanyModuleAnchor_inv:
  "EnsureCompanyModuleAnchor db actor corr company module = Inr db' \<Longrightarrow> storeInv db \<Longrightarrow> storeInv db'"
  by (auto simp: EnsureCompanyModuleAnchor_def Grant_inv split: if_splits)

lemma EnsureDefaultGrant_inv:
  "EnsureDefaultGrant db actor corr company module = Inr (b, db') \<Longrightarrow> storeInv db \<Longrightarrow> storeInv db'"
proof -
  assume e: "EnsureDefaultGrant db actor corr company module = Inr (b, db')" and inv: "storeInv db"
  then obtain db1 where 1: "EnsureCompanyModuleAnchor db actor corr company module = Inr db1"
      and r: "(if (company, module) \<in> set (defaultGrants db1) then Inr (False, db1)
        else rbind (Grant (db1\<lparr>defaultGrants := defaultGrants db1 @ [(company, module)]\<rparr>) actor corr
               [defaultGrantTuple company module]) (\<lambda>db3. Inr (True, db3))) = Inr (b, db')"
    by (auto simp: EnsureDefaultGrant_def rbind_Inr_iff Let_def split: if_splits)
  have "storeInv db1" using EnsureCompanyModuleAnchor_inv [OF 1 inv] .
  moreover from this have "storeInv (db1\<lparr>defaultGrants := defaultGrants db1 @ [(company, module)]\<rparr>)"
    if "(company, module) \<notin> set (defaultGrants db1)"
    using that unfolding storeInv_def by auto
  ultimately show ?thesis using r Grant_inv by (auto simp: rbind_Inr_iff split: if_splits)
qed

lemma RevokePositionOrMemberTuple_inv:
  assumes "RevokePositionOrMemberTuple db actor corr t = Inr db'" and "storeInv db"
  shows "storeInv db'"
proof -
  obtain c where db': "db' = insertLedgerSQL (db\<lparr>tupleTab := filter (\<lambda>u. u \<noteq> t) (tupleTab db)\<rparr>) actor t OpRevoke c"
    using assms(1)
    by (auto simp: RevokePositionOrMemberTuple_def revoke_position_or_member_tuple_def deleteTupleSQL_def
        split: if_splits)
  have "replay (grantLedger db') = replay (grantLedger db) - {t}"
    using replay_append_revokes [of "grantLedger db" actor c "[t]"] by (simp add: db')
  with assms(2) oneAnchor_subset [of "set (tupleTab db)" "set (tupleTab db')"] show ?thesis
    by (auto simp: storeInv_def db')
qed

section \<open>Histories of the store\<close>

text \<open>One committed transaction of a caller; an operation that errs is rolled back and leaves no
  step.\<close>

inductive storeStep :: "authzDB \<Rightarrow> authzDB \<Rightarrow> bool" where
  "Grant db actor corr ts = Inr db' \<Longrightarrow> storeStep db db'"
| "Revoke db actor corr ts = Inr db' \<Longrightarrow> storeStep db db'"
| "EnsureCompanyModuleAnchor db actor corr company module = Inr db' \<Longrightarrow> storeStep db db'"
| "EnsureDefaultGrant db actor corr company module = Inr (b, db') \<Longrightarrow> storeStep db db'"
| "RevokePositionOrMemberTuple db actor corr t = Inr db' \<Longrightarrow> storeStep db db'"

lemma storeStep_inv: "storeStep db db' \<Longrightarrow> storeInv db \<Longrightarrow> storeInv db'"
  by (erule storeStep.cases)
    (simp_all only: Grant_inv Revoke_inv EnsureCompanyModuleAnchor_inv EnsureDefaultGrant_inv
      RevokePositionOrMemberTuple_inv)

lemma Grant_effect:
  assumes "Grant db actor corr ts = Inr db'"
  shows "set (tupleTab db') = set (tupleTab db) \<union> set ts" and "defaultGrants db' = defaultGrants db"
proof -
  obtain c where "writeEach db actor c OpGrant ts = Inr db'"
    using assms unfolding Grant_def by (blast dest: writeTuples_Inr)
  from writeEach_grant [OF this] show "set (tupleTab db') = set (tupleTab db) \<union> set ts"
      "defaultGrants db' = defaultGrants db" by auto
qed

lemma Revoke_effect:
  assumes "Revoke db actor corr ts = Inr db'"
  shows "set (tupleTab db') = set (tupleTab db) - revoked (set (tupleTab db)) (set ts)"
    and "defaultGrants db' = defaultGrants db"
proof -
  obtain c where "writeEach db actor c OpRevoke ts = Inr db'"
    using assms unfolding Revoke_def by (blast dest: writeTuples_Inr)
  from writeEach_revoke [OF this]
  show "set (tupleTab db') = set (tupleTab db) - revoked (set (tupleTab db)) (set ts)"
      "defaultGrants db' = defaultGrants db" by auto
qed

lemma EnsureCompanyModuleAnchor_effect:
  assumes "EnsureCompanyModuleAnchor db actor corr company module = Inr db'"
  shows "set (tupleTab db') = insert (companyAnchorTuple company module) (set (tupleTab db))"
    and "defaultGrants db' = defaultGrants db"
  using assms Grant_effect [of db actor corr "[companyAnchorTuple company module]" db']
  by (auto simp: EnsureCompanyModuleAnchor_def filter_empty_conv split: if_splits)

lemma EnsureDefaultGrant_effect:
  assumes "EnsureDefaultGrant db actor corr company module = Inr (b, db')"
  shows "b \<longleftrightarrow> (company, module) \<notin> set (defaultGrants db)"
    and "set (defaultGrants db') = insert (company, module) (set (defaultGrants db))"
    and "set (tupleTab db') = insert (companyAnchorTuple company module)
      (set (tupleTab db) \<union> (if b then {defaultGrantTuple company module} else {}))"
proof -
  obtain db1 where 1: "EnsureCompanyModuleAnchor db actor corr company module = Inr db1"
      and r: "(if (company, module) \<in> set (defaultGrants db1) then Inr (False, db1)
        else rbind (Grant (db1\<lparr>defaultGrants := defaultGrants db1 @ [(company, module)]\<rparr>) actor corr
               [defaultGrantTuple company module]) (\<lambda>db3. Inr (True, db3))) = Inr (b, db')"
    using assms by (auto simp: EnsureDefaultGrant_def rbind_Inr_iff Let_def split: if_splits)
  note eff = EnsureCompanyModuleAnchor_effect [OF 1]
  have "(b \<longleftrightarrow> (company, module) \<notin> set (defaultGrants db)) \<and>
     set (defaultGrants db') = insert (company, module) (set (defaultGrants db)) \<and>
     set (tupleTab db') = insert (companyAnchorTuple company module)
      (set (tupleTab db) \<union> (if b then {defaultGrantTuple company module} else {}))"
  proof (cases "(company, module) \<in> set (defaultGrants db1)")
    case True
    with r eff show ?thesis by auto
  next
    case False
    let ?db2 = "db1\<lparr>defaultGrants := defaultGrants db1 @ [(company, module)]\<rparr>"
    have b: "b" and g: "Grant ?db2 actor corr [defaultGrantTuple company module] = Inr db'"
      using r False by (auto simp: rbind_Inr_iff)
    from Grant_effect [OF g] b eff False show ?thesis by auto
  qed
  then show "b \<longleftrightarrow> (company, module) \<notin> set (defaultGrants db)"
    and "set (defaultGrants db') = insert (company, module) (set (defaultGrants db))"
    and "set (tupleTab db') = insert (companyAnchorTuple company module)
      (set (tupleTab db) \<union> (if b then {defaultGrantTuple company module} else {}))"
    by blast+
qed

lemma storeStep_defaultGrants: "storeStep db db' \<Longrightarrow> set (defaultGrants db) \<subseteq> set (defaultGrants db')"
  by (induction rule: storeStep.induct)
    (auto simp: Grant_effect Revoke_effect EnsureCompanyModuleAnchor_effect EnsureDefaultGrant_effect
      RevokePositionOrMemberTuple_def revoke_position_or_member_tuple_def split: if_splits)

lemma storeSteps_defaultGrants: "storeStep\<^sup>*\<^sup>* db db' \<Longrightarrow> set (defaultGrants db) \<subseteq> set (defaultGrants db')"
  by (induction rule: rtranclp_induct) (use storeStep_defaultGrants in blast)+

section \<open>The store as the engine reads it\<close>

definition storeRows :: "authzDB \<Rightarrow> tupleTable" where
  "storeRows db = map (\<lambda>t. ((ObjectType t, ObjectID t, Relation t),
     \<lparr>subjectType = SubjectType t, subjectID = SubjectID t, subjectRelation = SubjectRelation t\<rparr>)) (tupleTab db)"

lemma rowsOf_storeRows:
  "r \<in> rowsOf (storeRows db) ot oi rel \<longleftrightarrow>
   \<lparr>ObjectType = ot, ObjectID = oi, Relation = rel, SubjectType = subjectType r, SubjectID = subjectID r,
     SubjectRelation = subjectRelation r\<rparr> \<in> set (tupleTab db)"
proof -
  have "(((ot, oi, rel), r) = ((ObjectType t, ObjectID t, Relation t),
     \<lparr>subjectType = SubjectType t, subjectID = SubjectID t, subjectRelation = SubjectRelation t\<rparr>)) \<longleftrightarrow>
    t = \<lparr>ObjectType = ot, ObjectID = oi, Relation = rel, SubjectType = subjectType r,
     SubjectID = subjectID r, SubjectRelation = subjectRelation r\<rparr>" for t
    by (cases t; cases r) auto
  then show ?thesis unfolding rowsOf_def storeRows_def set_map image_iff mem_Collect_eq by simp
qed

lemma sat_no_rows:
  assumes "\<And>rel. R ot oi rel = {}" "\<And>rel. \<not> X (ot, oi, rel)" "wfExpr d e"
  shows "\<not> sat R s cid X (ot, oi, rel) e"
  using assms(3)
proof (induction d e rule: wfExpr.induct)
  case (5 d es)
  then have "es ! 0 \<in> set es" by (intro nth_mem) auto
  with 5 show ?case by auto
qed (use assms(1,2) in auto)

lemma granted_no_rows:
  assumes "\<And>rel. R ot oi rel = {}" "wfModel M"
  shows "\<not> granted R M s cid V (ot, oi, rel)"
proof
  assume "granted R M s cid V (ot, oi, rel)"
  then show False
  proof (induction "(ot, oi, rel)" arbitrary: rel rule: granted.induct)
    case (grant rel e)
    let ?X = "\<lambda>n. granted R M s cid V n \<and> (\<forall>rel. n = (ot, oi, rel) \<longrightarrow> False)"
    have "sat R s cid ?X (ot, oi, rel) e"
      using grant(3) by (rule sat_mono_rule [rotated]) auto
    moreover have "wfExpr (\<lambda>r. relDef M ot r \<noteq> None) e"
      using wfModel_relDef [OF assms(2) grant(2)] .
    ultimately show False using sat_no_rows [of R ot oi ?X] assms(1) by blast
  qed
qed

definition exAnchor :: Tuple where
  "exAnchor = \<lparr>ObjectType = ''doc'', ObjectID = ''1'', Relation = ''company_module'',
     SubjectType = ''company_module'', SubjectID = ''c/docs'', SubjectRelation = []\<rparr>"

definition exViewer :: Tuple where
  "exViewer = \<lparr>ObjectType = ''doc'', ObjectID = ''1'', Relation = ''viewer'',
     SubjectType = ''user'', SubjectID = ''u'', SubjectRelation = []\<rparr>"

definition exDB :: authzDB where
  "exDB = \<lparr>tupleTab = [exAnchor, exViewer],
     grantLedger = [ledgerRow ''root'' None OpGrant exAnchor, ledgerRow ''root'' None OpGrant exViewer],
     defaultGrants = []\<rparr>"

definition exDocModel :: Model where
  "exDocModel = [(''user'', []), (''company_module'', []),
     (''doc'', [(''company_module'', kindThis), (''viewer'', kindThis)])]"

lemma exDB_Grant: "Grant emptyDB ''root'' [] [exAnchor, exViewer] = Inr exDB"
  by (simp add: Grant_def writeTuples_def exDB_def emptyDB_def exAnchor_def exViewer_def missingField_def
      applyStmt_def insertTupleSQL_def rbind_def insertLedgerSQL_def ledgerRow_def isAnchor_def)

lemma exDB_reachable: "storeStep\<^sup>*\<^sup>* emptyDB exDB"
  using storeStep.intros(1) [OF exDB_Grant] by blast

lemma storeInv_reachable: "storeStep\<^sup>*\<^sup>* emptyDB db \<Longrightarrow> storeInv db"
proof (induction rule: rtranclp_induct)
  case base
  then show ?case by (simp add: storeInv_def emptyDB_def oneAnchor_def replay_def)
qed (use storeStep_inv in blast)

section \<open>Properties of the tuple store\<close>

text \<open>C7. In every state the store can reach, the tuple table has no duplicate rows, no object has
  two company anchors, every tuple is complete, a module is defaulted at most once per company,
  and the grant ledger replays to exactly the tuples of the table.\<close>

theorem store_reachable:
  assumes "storeStep\<^sup>*\<^sup>* emptyDB db"
  shows "distinct (tupleTab db) \<and> oneAnchor (set (tupleTab db)) \<and>
     (\<forall>t \<in> set (tupleTab db). \<not> missingField t) \<and> distinct (defaultGrants db) \<and>
     set (tupleTab db) = replay (grantLedger db)"
  using storeInv_reachable [OF assms] unfolding storeInv_def by blast

theorem store_reachable_witness:
  "storeStep\<^sup>*\<^sup>* emptyDB exDB \<and> set (tupleTab exDB) = replay (grantLedger exDB)"
  using store_reachable [OF exDB_reachable] exDB_reachable by blast

text \<open>C8. A grant that succeeds adds exactly the requested tuples that were absent and ledgers exactly
  those, once each and in order; repeated tuples change nothing.\<close>

theorem Grant_exact:
  assumes "Grant db actor corr ts = Inr db'"
  shows "\<exists>new. tupleTab db' = tupleTab db @ new \<and> set new = set ts - set (tupleTab db) \<and> distinct new \<and>
     grantLedger db' = grantLedger db @
       map (ledgerRow actor (if corr = [] then None else Some corr) OpGrant) new \<and>
     defaultGrants db' = defaultGrants db"
proof -
  have "writeEach db actor (if corr = [] then None else Some corr) OpGrant ts = Inr db'"
    using assms by (auto simp: Grant_def writeTuples_def split: if_splits)
  from writeEach_grant [OF this] show ?thesis by blast
qed

theorem Grant_exact_witness:
  "\<exists>new. tupleTab exDB = tupleTab emptyDB @ new \<and>
     set new = set [exAnchor, exViewer] - set (tupleTab emptyDB) \<and> distinct new"
  using Grant_exact [OF exDB_Grant] by blast

text \<open>A second company anchor is never written: granting an anchor for an object that already
  carries a different one fails, in every reachable state and anywhere in the list of tuples.\<close>

theorem Grant_second_anchor:
  assumes "storeStep\<^sup>*\<^sup>* emptyDB db" and "u \<in> set (tupleTab db)" "t \<in> set ts" "t \<noteq> u"
    and "isAnchor t" "isAnchor u" "sameObject t u"
  shows "\<exists>e. Grant db actor corr ts = Inl e"
proof (rule ccontr)
  assume "\<not> ?thesis"
  then obtain db' where g: "Grant db actor corr ts = Inr db'"
    by (cases "Grant db actor corr ts") auto
  have "oneAnchor (set (tupleTab db'))"
    using Grant_inv [OF g storeInv_reachable [OF assms(1)]] unfolding storeInv_def by blast
  then show False using Grant_effect(1) [OF g] assms(2-7) by (auto simp: oneAnchor_def)
qed

theorem Grant_second_anchor_witness:
  "\<exists>e. Grant exDB ''eve'' [] [exAnchor\<lparr>SubjectID := ''d/docs''\<rparr>] = Inl e"
  by (rule Grant_second_anchor [OF exDB_reachable, of exAnchor "exAnchor\<lparr>SubjectID := ''d/docs''\<rparr>"])
    (simp_all add: exDB_def exAnchor_def isAnchor_def sameObject_def)

text \<open>C9. A revoke removes exactly the named tuples that are present and, with an anchor, everything
  on its object; each removed tuple gets a revoke row in the ledger, and a revoke of absent tuples
  changes neither table nor ledger.\<close>

theorem Revoke_exact:
  assumes "Revoke db actor corr ts = Inr db'"
  shows "set (tupleTab db') = set (tupleTab db) - revoked (set (tupleTab db)) (set ts) \<and>
     (\<exists>gone. set gone = revoked (set (tupleTab db)) (set ts) \<and> grantLedger db' = grantLedger db @
       map (ledgerRow actor (if corr = [] then None else Some corr) OpRevoke) gone)"
proof -
  have "writeEach db actor (if corr = [] then None else Some corr) OpRevoke ts = Inr db'"
    using assms by (auto simp: Revoke_def writeTuples_def split: if_splits)
  from writeEach_revoke [OF this] show ?thesis by blast
qed

lemma exDB_Revoke: "\<exists>db. Revoke exDB ''root'' [] [exAnchor] = Inr db \<and> tupleTab db = []"
  by (simp add: Revoke_def writeTuples_def exDB_def exAnchor_def exViewer_def missingField_def
      applyStmt_def deleteTupleSQL_def rbind_def)

theorem Revoke_exact_witness:
  "\<exists>db. Revoke exDB ''root'' [] [exAnchor] = Inr db \<and>
     set (tupleTab db) = set (tupleTab exDB) - revoked (set (tupleTab exDB)) (set [exAnchor])"
  using exDB_Revoke Revoke_exact [of exDB "''root''" "[]" "[exAnchor]"] by blast

text \<open>C10. Revoking an object's anchor ends all access to it: afterwards every check on the object,
  for any relation, subject and company and under any well-formed model, is answered false, so a
  later anchor on the same id revives nothing.\<close>

theorem Revoke_anchor_ends_access:
  assumes "Revoke db actor corr ts = Inr db'" and "t \<in> set ts" "t \<in> set (tupleTab db)" "isAnchor t"
    and "wfModel M" "nulFreeModel M" "nulFreeRows (rowsOf (storeRows db'))"
    and "nulFreeNode (ObjectType t, ObjectID t, rel)"
    and "CheckInCompany (tableDB (storeRows db')) M (ObjectType t) (ObjectID t) rel st si cid = Inr b"
  shows "\<not> b"
proof -
  have gone: "\<not> sameObject u t" if "u \<in> set (tupleTab db')" for u
    using Revoke_effect(1) [OF assms(1)] assms(2-4) that by (auto simp: revoked_def)
  have "rowsOf (storeRows db') (ObjectType t) (ObjectID t) rel = {}" for rel
    using gone rowsOf_storeRows [of _ db' "ObjectType t" "ObjectID t" rel]
    by (fastforce simp: sameObject_def)
  then have "\<not> granted (rowsOf (storeRows db')) M (st, si) cid {} (ObjectType t, ObjectID t, rel)"
    by (intro granted_no_rows assms(5))
  then show ?thesis
    using CheckInCompany_sound [OF assms(7,6,8) tableDB_answers assms(9)] by blast
qed

theorem Revoke_anchor_ends_access_witness:
  "\<exists>db. Revoke exDB ''root'' [] [exAnchor] = Inr db \<and>
     CheckInCompany (tableDB (storeRows db)) exDocModel ''doc'' ''1'' ''viewer'' ''user'' ''u'' [] = Inr False"
proof -
  obtain db where db: "Revoke exDB ''root'' [] [exAnchor] = Inr db" "tupleTab db = []"
    using exDB_Revoke by blast
  have rows: "storeRows db = []" using db(2) by (simp add: storeRows_def)
  have "\<exists>b. CheckInCompany (tableDB []) exDocModel ''doc'' ''1'' ''viewer'' ''user'' ''u'' [] = Inr b"
    by code_simp
  then obtain b where b: "CheckInCompany (tableDB (storeRows db)) exDocModel
      (ObjectType exAnchor) (ObjectID exAnchor) ''viewer'' ''user'' ''u'' [] = Inr b"
    by (auto simp: rows exAnchor_def)
  have "\<not> b"
    by (rule Revoke_anchor_ends_access [OF db(1) _ _ _ _ _ _ _ b])
      (simp_all add: exDB_def rows nulFreeRows_rowsOf exAnchor_def isAnchor_def exDocModel_def wfModel_def
        nulFreeModel_def nul_free_def nul_def)
  with b db(1) show ?thesis by (auto simp: exAnchor_def)
qed

text \<open>The default module grant is made at most once, ever: once \<open>EnsureDefaultGrant\<close> has
  run for a company and module, no later run of it, after any history of grants and revokes,
  grants the default tuple again.\<close>

theorem EnsureDefaultGrant_once:
  assumes "EnsureDefaultGrant db actor corr company module = Inr (b, db1)"
    and "storeStep\<^sup>*\<^sup>* db1 db2"
    and "EnsureDefaultGrant db2 actor' corr' company module = Inr (b', db3)"
  shows "\<not> b' \<and> (defaultGrantTuple company module \<in> set (tupleTab db3) \<longleftrightarrow>
     defaultGrantTuple company module \<in> set (tupleTab db2))"
proof -
  have "(company, module) \<in> set (defaultGrants db2)"
    using EnsureDefaultGrant_effect(2) [OF assms(1)] storeSteps_defaultGrants [OF assms(2)] by blast
  with EnsureDefaultGrant_effect [OF assms(3)]
  show ?thesis by (simp add: companyAnchorTuple_def defaultGrantTuple_def)
qed

theorem EnsureDefaultGrant_once_witness:
  "\<exists>db1 db2 db3. EnsureDefaultGrant emptyDB ''root'' [] ''c'' ''docs'' = Inr (True, db1) \<and>
     Revoke db1 ''root'' [] [defaultGrantTuple ''c'' ''docs''] = Inr db2 \<and>
     EnsureDefaultGrant db2 ''root'' [] ''c'' ''docs'' = Inr (False, db3) \<and>
     defaultGrantTuple ''c'' ''docs'' \<notin> set (tupleTab db3)"
proof -
  note defs = EnsureDefaultGrant_def EnsureCompanyModuleAnchor_def Grant_def Revoke_def writeTuples_def
    emptyDB_def missingField_def applyStmt_def insertTupleSQL_def deleteTupleSQL_def rbind_def Let_def
    insertLedgerSQL_def isAnchor_def companyAnchorTuple_def defaultGrantTuple_def companyModuleID_def
    SystemPlatformID_def
  obtain db1 where 1: "EnsureDefaultGrant emptyDB ''root'' [] ''c'' ''docs'' = Inr (True, db1)"
    by (simp add: defs)
  then obtain db2 where 2: "Revoke db1 ''root'' [] [defaultGrantTuple ''c'' ''docs''] = Inr db2"
    "defaultGrantTuple ''c'' ''docs'' \<notin> set (tupleTab db2)"
    by (auto simp: defs)
  have "\<exists>x. EnsureDefaultGrant db2 ''root'' [] ''c'' ''docs'' = Inr x"
    using 1 2 by (auto simp: defs)
  then obtain b db3 where 3: "EnsureDefaultGrant db2 ''root'' [] ''c'' ''docs'' = Inr (b, db3)" by auto
  have "storeStep\<^sup>*\<^sup>* db1 db2" using storeStep.intros(2) [OF 2(1)] by blast
  from EnsureDefaultGrant_once [OF 1 this 3] 2(2)
  have "\<not> b" and n: "defaultGrantTuple ''c'' ''docs'' \<notin> set (tupleTab db3)" by auto
  with 3 have "EnsureDefaultGrant db2 ''root'' [] ''c'' ''docs'' = Inr (False, db3)" by simp
  with 1 2 n show ?thesis by blast
qed

end
