(* ===== verification/Fragment_Load.thy ===== *)
theory Fragment_Load
  imports Engine_Batch
begin

text \<open>
  The effective model of \<open>internal/authz/fragment\<close>: the platform base model merged with the
  stored fragments of the modules the registry knows and has enabled. \<open>Load\<close> folds the
  rows of \<open>authz.model_fragment\<close> into the merged model, the set of type names any fragment
  mentions, and the owner of every effective type; \<open>fragment_Check\<close> and
  \<open>fragment_CheckInCompany\<close> answer false for the types of inert modules.
\<close>

section \<open>Loading the effective model\<close>

record Row =
  ModuleKey :: string
  Fragment :: json
  Active :: bool

record Loaded =
  lModel :: Model
  AllowedTypes :: "string set"
  TypeOwner :: "string \<Rightarrow> string option"
  KnownEnabled :: "string \<Rightarrow> bool option"

datatype LoadError =
    FragmentQuery string
  | SubsetWall string ModelError
  | BaseTypeRedefined string string
  | TypeOwnedTwice string string string
  | AnchorRule string ModelError
  | MergeFailed string ModelError
  | EffectiveModel ModelError

text \<open>\<open>json.Unmarshal\<close> into a map: an object gives its keys, \<open>null\<close> the empty map,
  anything else an error.\<close>

definition harvestTypeNames :: "json \<Rightarrow> string list option" where
  "harvestTypeNames j = (case j of
     JObj kvs \<Rightarrow> Some (map fst (go_map kvs)) | JNull \<Rightarrow> Some [] | _ \<Rightarrow> None)"

text \<open>The loop over the types of one fragment: refuse a base type and a type another module owns,
  otherwise record the owner.\<close>

fun claimTypes ::
  "string \<Rightarrow> (string \<Rightarrow> string option) \<Rightarrow> string list \<Rightarrow> (LoadError, string \<Rightarrow> string option) result" where
  "claimTypes mk owner [] = Inr owner"
| "claimTypes mk owner (t # ts) =
     (if IsBaseType t then Inl (BaseTypeRedefined mk t)
      else case owner t of
             Some prev \<Rightarrow> Inl (TypeOwnedTwice mk t prev)
           | None \<Rightarrow> claimTypes mk (owner(t \<mapsto> mk)) ts)"

definition mapErr :: "('e \<Rightarrow> 'f) \<Rightarrow> ('e, 'a) result \<Rightarrow> ('f, 'a) result" where
  "mapErr f x = (case x of Inl e \<Rightarrow> Inl (f e) | Inr a \<Rightarrow> Inr a)"

fun loadRows ::
  "(string \<Rightarrow> bool option) \<Rightarrow> Model \<Rightarrow> string set \<Rightarrow> (string \<Rightarrow> string option) \<Rightarrow> Row list \<Rightarrow>
   (LoadError, Model \<times> string set \<times> (string \<Rightarrow> string option)) result" where
  "loadRows known merged allowed owner [] = Inr (merged, allowed, owner)"
| "loadRows known merged allowed owner (r # rows) =
     (let allowed' = (case harvestTypeNames (Fragment r) of
                        Some types \<Rightarrow> allowed \<union> set types | None \<Rightarrow> allowed)
      in if known (ModuleKey r) \<noteq> Some True \<or> \<not> Active r then loadRows known merged allowed' owner rows
         else
           rbind (mapErr (SubsetWall (ModuleKey r)) (LoadModel (Fragment r))) (\<lambda>m.
           rbind (claimTypes (ModuleKey r) owner (map fst m)) (\<lambda>owner'.
           rbind (mapErr (AnchorRule (ModuleKey r)) (ValidateCompanyModuleAnchor m)) (\<lambda>_.
           rbind (mapErr (MergeFailed (ModuleKey r)) (Merge merged m)) (\<lambda>merged'.
             loadRows known merged' allowed' owner' rows)))))"

definition Load :: "(string, Row list) result \<Rightarrow> (string \<Rightarrow> bool option) \<Rightarrow> (LoadError, Loaded) result" where
  "Load fetched knownEnabled =
     rbind (mapErr FragmentQuery fetched) (\<lambda>rows.
     rbind (loadRows knownEnabled BaseModel (set (map fst BaseModel)) Map.empty rows)
       (\<lambda>(merged, allowed, owner).
     rbind (mapErr EffectiveModel (ValidateTupleToUsersetTargets merged)) (\<lambda>_.
       Inr \<lparr>lModel = merged, AllowedTypes = allowed, TypeOwner = owner,
            KnownEnabled = knownEnabled\<rparr>)))"

section \<open>Checking against the effective model\<close>

definition fragment_Check ::
  "tupleDB \<Rightarrow> Loaded \<Rightarrow> string \<Rightarrow> string \<Rightarrow> string \<Rightarrow> string \<Rightarrow> string \<Rightarrow> (CheckError, bool) result" where
  "fragment_Check db l objType objID rel st si =
     (if map_of (lModel l) objType = None \<and> objType \<in> AllowedTypes l then Inr False
      else Check db (lModel l) objType objID rel st si)"

definition fragment_CheckInCompany ::
  "tupleDB \<Rightarrow> Loaded \<Rightarrow> string \<Rightarrow> string \<Rightarrow> string \<Rightarrow> string \<Rightarrow> string \<Rightarrow> string \<Rightarrow>
   (CheckError, bool) result" where
  "fragment_CheckInCompany db l objType objID rel st si company =
     (if map_of (lModel l) objType = None \<and> objType \<in> AllowedTypes l then Inr False
      else CheckInCompany db (lModel l) objType objID rel st si company)"

section \<open>What the effective model contains\<close>

definition effective :: "(string \<Rightarrow> bool option) \<Rightarrow> Row \<Rightarrow> bool" where
  "effective known r \<longleftrightarrow> known (ModuleKey r) = Some True \<and> Active r"

lemma mapErr_Inr_iff [simp]: "mapErr f x = Inr a \<longleftrightarrow> x = Inr a"
  by (auto simp: mapErr_def split: sum.splits)

lemma claimTypes_Inr:
  "claimTypes mk owner ts = Inr owner' \<Longrightarrow>
     owner' = (\<lambda>t. if t \<in> set ts then Some mk else owner t) \<and>
     (\<forall>t \<in> set ts. \<not> IsBaseType t \<and> owner t = None)"
proof (induction mk owner ts rule: claimTypes.induct)
  case (2 mk owner t ts)
  then have t: "\<not> IsBaseType t" "owner t = None"
    and rec: "claimTypes mk (owner(t \<mapsto> mk)) ts = Inr owner'"
    by (auto split: if_splits option.splits)
  from "2.IH" [OF t rec] t show ?case by (auto simp: fun_eq_iff split: if_splits)
qed simp

text \<open>The invariant of the loop: the model is the base model followed by the models of effective
  fragments; every further type has exactly one owner, an effective module.\<close>

definition loadInv :: "(string \<Rightarrow> bool option) \<Rightarrow> Row set \<Rightarrow> Model \<Rightarrow> (string \<Rightarrow> string option) \<Rightarrow> bool" where
  "loadInv known S merged owner \<longleftrightarrow>
     wfModel merged \<and> (\<exists>ext. merged = BaseModel @ ext \<and>
       (\<forall>(t, rels) \<in> set ext. \<not> IsBaseType t \<and>
          (\<exists>r \<in> S. effective known r \<and> owner t = Some (ModuleKey r) \<and>
             (\<exists>m. LoadModel (Fragment r) = Inr m \<and> (t, rels) \<in> set m)))) \<and>
     dom owner = fst ` set merged - fst ` set BaseModel"

lemma IsBaseType_iff: "IsBaseType t \<longleftrightarrow> t \<in> fst ` set BaseModel"
  by (auto simp: IsBaseType_def map_of_eq_None_iff)

lemma loadInv_step:
  assumes inv: "loadInv known S merged owner" and r: "r \<in> S'" "effective known r" "S \<subseteq> S'"
    and m: "LoadModel (Fragment r) = Inr m" and claim: "claimTypes (ModuleKey r) owner (map fst m) = Inr owner'"
    and merge: "Merge merged m = Inr merged'"
  shows "loadInv known S' merged' owner'"
proof -
  note wfm = LoadModel_wfModel [OF m]
  have dist: "distinct (map fst m)" using wfm by (simp add: wfModel_def)
  have merged': "merged' = merged @ m" using merge Merge_Inr_iff [OF dist] by blast
  have owner': "owner' = (\<lambda>t. if t \<in> set (map fst m) then Some (ModuleKey r) else owner t)"
    and new: "\<forall>t \<in> set (map fst m). \<not> IsBaseType t \<and> owner t = None"
    using claimTypes_Inr [OF claim] by blast+
  obtain ext where ext: "merged = BaseModel @ ext"
      "\<forall>(t, rels) \<in> set ext. \<not> IsBaseType t \<and>
          (\<exists>r \<in> S. effective known r \<and> owner t = Some (ModuleKey r) \<and>
             (\<exists>m. LoadModel (Fragment r) = Inr m \<and> (t, rels) \<in> set m))"
    and dom: "dom owner = fst ` set merged - fst ` set BaseModel" and wf: "wfModel merged"
    using inv by (auto simp: loadInv_def)
  have "\<not> IsBaseType t \<and> (\<exists>r \<in> S'. effective known r \<and> owner' t = Some (ModuleKey r) \<and>
             (\<exists>m. LoadModel (Fragment r) = Inr m \<and> (t, rels) \<in> set m))" if "(t, rels) \<in> set (ext @ m)" for t rels
  proof (cases "(t, rels) \<in> set m")
    case True
    then have "t \<in> set (map fst m)" by force
    with True m r new show ?thesis by (auto simp: owner')
  next
    case False
    with that have "(t, rels) \<in> set ext" by simp
    with ext(2) obtain r' m' where r': "\<not> IsBaseType t" "r' \<in> S" "effective known r'"
        "owner t = Some (ModuleKey r')" "LoadModel (Fragment r') = Inr m'" "(t, rels) \<in> set m'"
      by blast
    with new have "t \<notin> set (map fst m)" by fastforce
    with r' r(3) show ?thesis by (auto simp: owner')
  qed
  moreover have "dom owner' = fst ` set merged' - fst ` set BaseModel"
  proof -
    have "t \<in> dom owner' \<longleftrightarrow> t \<in> dom owner \<union> fst ` set m" for t
      by (cases "t \<in> fst ` set m") (simp_all add: owner' domIff)
    then have dom': "dom owner' = dom owner \<union> fst ` set m" by (rule set_eqI)
    have "fst ` set m \<inter> fst ` set BaseModel = {}"
      using new by (simp add: IsBaseType_iff) blast
    then show ?thesis unfolding merged' dom' dom set_append image_Un by blast
  qed
  moreover have "wfModel merged'" using Merge_wfModel [OF wf wfm merge] .
  ultimately show ?thesis
    unfolding loadInv_def merged' ext(1) by auto
qed

lemma loadInv_mono: "loadInv known S merged owner \<Longrightarrow> S \<subseteq> S' \<Longrightarrow> loadInv known S' merged owner"
  unfolding loadInv_def by fast

lemma loadRows_inv:
  assumes "loadRows known merged allowed owner rows = Inr (merged', allowed', owner')"
    and "loadInv known S merged owner"
  shows "loadInv known (S \<union> set rows) merged' owner'"
  using assms
proof (induction rows arbitrary: merged allowed owner S)
  case (Cons r rows)
  have S: "insert r S \<union> set rows = S \<union> set (r # rows)" by simp
  show ?case
  proof (cases "effective known r")
    case False
    then obtain al where "loadRows known merged al owner rows = Inr (merged', allowed', owner')"
      using Cons.prems(1) by (auto simp: effective_def Let_def)
    from Cons.IH [OF this loadInv_mono [OF Cons.prems(2), of "insert r S"]] S show ?thesis by auto
  next
    case True
    then obtain al m ow me where m: "LoadModel (Fragment r) = Inr m"
        "claimTypes (ModuleKey r) owner (map fst m) = Inr ow" "Merge merged m = Inr me"
        "loadRows known me al ow rows = Inr (merged', allowed', owner')"
      using Cons.prems(1) by (auto simp: effective_def Let_def rbind_Inr_iff)
    from Cons.IH [OF m(4) loadInv_step [OF Cons.prems(2) _ True _ m(1-3), of "insert r S"]] S
    show ?thesis by auto
  qed
qed (simp add: loadInv_mono)

lemma loadInv_base: "loadInv known {} BaseModel Map.empty"
  using BaseModel_wf by (simp add: loadInv_def)

lemma Load_Inr:
  assumes "Load (Inr rows) known = Inr l"
  shows "loadRows known BaseModel (set (map fst BaseModel)) Map.empty rows =
      Inr (lModel l, AllowedTypes l, TypeOwner l)"
    and "ValidateTupleToUsersetTargets (lModel l) = Inr ()" and "loadInv known (set rows) (lModel l) (TypeOwner l)"
    and "KnownEnabled l = known"
proof -
  show rows: "loadRows known BaseModel (set (map fst BaseModel)) Map.empty rows =
      Inr (lModel l, AllowedTypes l, TypeOwner l)"
    and "ValidateTupleToUsersetTargets (lModel l) = Inr ()" "KnownEnabled l = known"
    using assms by (auto simp: Load_def rbind_Inr_iff)
  from loadRows_inv [OF rows loadInv_base]
  show "loadInv known (set rows) (lModel l) (TypeOwner l)" by simp
qed

lemma loadRows_allowed:
  assumes "loadRows known merged allowed owner rows = Inr (merged', allowed', owner')"
  shows "allowed' = allowed \<union> (\<Union>r \<in> set rows. case harvestTypeNames (Fragment r) of
     Some types \<Rightarrow> set types | None \<Rightarrow> {})"
  using assms
  by (induction rows arbitrary: merged allowed owner)
    (auto simp: Let_def rbind_Inr_iff split: if_splits option.splits)

lemma rbind_assoc: "rbind (rbind x f) g = rbind x (\<lambda>a. rbind (f a) g)"
  by (cases x) (simp_all add: rbind_def)

lemma loadRows_filter:
  "rbind (loadRows known merged allowed owner rows) (\<lambda>(me, _, ow). Inr (me, ow)) =
   rbind (loadRows known merged allowed0 owner (filter (effective known) rows)) (\<lambda>(me, _, ow). Inr (me, ow))"
proof (induction rows arbitrary: merged allowed allowed0 owner)
  case (Cons r rows)
  show ?case
  proof (cases "effective known r")
    case False
    with Cons.IH [where ?allowed0.0 = allowed0] show ?thesis
      by (auto simp: Let_def effective_def [of known r])
  next
    case True
    then show ?thesis
      using Cons.IH [where ?allowed0.0 = "case harvestTypeNames (Fragment r) of
         Some types \<Rightarrow> allowed0 \<union> set types | None \<Rightarrow> allowed0"]
      by (auto simp: Let_def rbind_assoc effective_def [of known r])
  qed
qed (simp add: rbind_def)

lemma map_of_not_base:
  assumes "loadInv known S merged owner" "map_of merged ty = Some rels" "\<not> IsBaseType ty"
  shows "\<exists>r \<in> S. effective known r \<and> owner ty = Some (ModuleKey r) \<and>
    (\<exists>m. LoadModel (Fragment r) = Inr m \<and> map_of m ty = Some rels)"
proof -
  obtain ext where ext: "merged = BaseModel @ ext"
      "\<forall>(t, rels) \<in> set ext. \<not> IsBaseType t \<and>
          (\<exists>r \<in> S. effective known r \<and> owner t = Some (ModuleKey r) \<and>
             (\<exists>m. LoadModel (Fragment r) = Inr m \<and> (t, rels) \<in> set m))"
    using assms(1) unfolding loadInv_def by blast
  have "map_of BaseModel ty = None"
    using assms(3) by (simp add: IsBaseType_iff map_of_eq_None_iff)
  with assms(2) ext(1) have "(ty, rels) \<in> set ext"
    by (auto simp: map_add_def split: option.splits dest: map_of_SomeD)
  with ext(2) obtain r m where "r \<in> S" "effective known r" "owner ty = Some (ModuleKey r)"
      "LoadModel (Fragment r) = Inr m" "(ty, rels) \<in> set m" by blast
  moreover have "distinct (map fst m)"
    using LoadModel_wfModel [OF calculation(4)] by (simp add: wfModel_def)
  ultimately show ?thesis by (auto simp: map_of_eq_Some_iff)
qed

lemma map_of_base:
  assumes "loadInv known S merged owner" "IsBaseType ty"
  shows "map_of merged ty = map_of BaseModel ty"
proof -
  obtain ext where ext: "merged = BaseModel @ ext"
      "\<forall>(t, rels) \<in> set ext. \<not> IsBaseType t \<and>
          (\<exists>r \<in> S. effective known r \<and> owner t = Some (ModuleKey r) \<and>
             (\<exists>m. LoadModel (Fragment r) = Inr m \<and> (t, rels) \<in> set m))"
    using assms(1) unfolding loadInv_def by blast
  have "(ty, rels) \<notin> set ext" for rels using ext(2) assms(2) by blast
  then have "map_of ext ty = None" using map_of_SomeD by (metis not_None_eq)
  with ext(1) show ?thesis by (simp add: map_add_def split: option.splits)
qed

text \<open>A fragment row names a type when its document has it as a key.\<close>

definition names :: "Row \<Rightarrow> string \<Rightarrow> bool" where
  "names r ty \<longleftrightarrow> (case harvestTypeNames (Fragment r) of Some types \<Rightarrow> ty \<in> set types | None \<Rightarrow> False)"

lemma LoadModel_names:
  assumes "LoadModel (Fragment r) = Inr m" "map_of m ty = Some rels"
  shows "names r ty"
  using LoadModel_Inr(2) [OF assms(1)]
proof (cases rule: decodeModel_cases)
  case (2 kvs ys)
  have "(ty, rels) \<in> set ys"
    using 2(2) assms(2) go_map_subset map_of_SomeD by fastforce
  from traverse_set [OF 2(3) this] have "ty \<in> fst ` set kvs"
    by (force simp: rbind_Inr_iff)
  with 2(1) show ?thesis by (simp add: names_def harvestTypeNames_def go_map_keys)
qed (use assms(2) in simp)

text \<open>One enabled and one disabled module.\<close>

definition exRows :: "Row list" where
  "exRows = [
     \<lparr>ModuleKey = ''docs'', Fragment = JObj [(''doc'', JObj [
        (''company_module'', JObj [(''this'', JBool True)]),
        (''owner'', JObj [(''this'', JBool True)]),
        (''viewer'', JObj [(''union'', JArr [JObj [(''this'', JBool True)],
           JObj [(''computedUserset'', JStr ''owner'')]])])])], Active = True\<rparr>,
     \<lparr>ModuleKey = ''helpdesk'', Fragment = JObj [(''ticket'', JObj [
        (''company_module'', JObj [(''this'', JBool True)])])], Active = True\<rparr>]"

definition exKnown :: "string \<Rightarrow> bool option" where
  "exKnown = [''docs'' \<mapsto> True, ''helpdesk'' \<mapsto> False]"

lemma exLoad: "\<exists>l. Load (Inr exRows) exKnown = Inr l"
proof -
  have "case Load (Inr exRows) exKnown of Inr l \<Rightarrow> True | Inl e \<Rightarrow> False"
    by code_simp
  then show ?thesis by (auto split: sum.splits)
qed

section \<open>Properties of the effective model\<close>

text \<open>C6. A loaded effective model is well formed with resolvable tuple-to-userset targets, keeps
  every base type exactly as the platform declares it, and takes every other type from a fragment
  of a module that is registry-known, enabled and active, which it records as the type's owner.\<close>

theorem Load_effective:
  assumes "Load (Inr rows) known = Inr l"
  shows "wfModel (lModel l) \<and> ValidateTupleToUsersetTargets (lModel l) = Inr () \<and>
    (\<forall>ty. IsBaseType ty \<longrightarrow> map_of (lModel l) ty = map_of BaseModel ty) \<and>
    (\<forall>ty rels. map_of (lModel l) ty = Some rels \<and> \<not> IsBaseType ty \<longrightarrow>
       (\<exists>r \<in> set rows. known (ModuleKey r) = Some True \<and> Active r \<and> TypeOwner l ty = Some (ModuleKey r) \<and>
          (\<exists>m. LoadModel (Fragment r) = Inr m \<and> map_of m ty = Some rels)))"
  using Load_Inr(2,3) [OF assms] map_of_base [OF Load_Inr(3) [OF assms]]
    map_of_not_base [OF Load_Inr(3) [OF assms]]
  by (auto simp: loadInv_def effective_def)

theorem Load_effective_witness:
  "\<exists>l. Load (Inr exRows) exKnown = Inr l \<and> wfModel (lModel l) \<and>
     map_of (lModel l) ''company'' = map_of BaseModel ''company''"
proof -
  obtain l where l: "Load (Inr exRows) exKnown = Inr l" using exLoad by blast
  have "IsBaseType ''company''" by code_simp
  with Load_effective [OF l] l show ?thesis by blast
qed

text \<open>Inertness: a type that only fragments of unknown, disabled or inactive modules name is
  answered false by every check, plain or bound to a company, whatever the tuple table holds or
  however it fails; it is never an error and never an allow.\<close>

theorem Load_inert:
  assumes "Load (Inr rows) known = Inr l" and "\<not> IsBaseType ty"
    and "r \<in> set rows" "names r ty" and "\<forall>r \<in> set rows. names r ty \<longrightarrow> known (ModuleKey r) \<noteq> Some True \<or> \<not> Active r"
  shows "fragment_Check db l ty oi rel st si = Inr False \<and>
         fragment_CheckInCompany db l ty oi rel st si cid = Inr False"
proof -
  have "map_of (lModel l) ty = None"
  proof (rule ccontr)
    assume "map_of (lModel l) ty \<noteq> None"
    then obtain rels where "map_of (lModel l) ty = Some rels" by blast
    from map_of_not_base [OF Load_Inr(3) [OF assms(1)] this assms(2)]
    show False using LoadModel_names assms(5) by (metis effective_def)
  qed
  moreover have "ty \<in> AllowedTypes l"
    using loadRows_allowed [OF Load_Inr(1) [OF assms(1)]] assms(3,4)
    by (auto simp: names_def split: option.splits)
  ultimately show ?thesis by (simp add: fragment_Check_def fragment_CheckInCompany_def)
qed

theorem Load_inert_witness:
  "\<exists>l. Load (Inr exRows) exKnown = Inr l \<and>
     fragment_Check (\<lambda>_ _ _. Inl ''connection refused'') l ''ticket'' ''7'' ''viewer'' ''user'' ''u'' = Inr False"
proof -
  obtain l where l: "Load (Inr exRows) exKnown = Inr l" using exLoad by blast
  have base: "\<not> IsBaseType ''ticket''" by code_simp
  have "exRows ! 1 \<in> set exRows" "names (exRows ! 1) ''ticket''"
    "\<forall>r \<in> set exRows. names r ''ticket'' \<longrightarrow> exKnown (ModuleKey r) \<noteq> Some True \<or> \<not> Active r"
    by (simp_all add: exRows_def names_def harvestTypeNames_def exKnown_def)
  from Load_inert [OF l base this] l show ?thesis by blast
qed

text \<open>Disabled fragments have no influence on the effective model: loading with and without the
  rows of unknown, disabled or inactive modules gives the same model and the same type owners, or
  the same failure.\<close>

theorem Load_ignores_inert_rows:
  "rbind (Load (Inr rows) known) (\<lambda>l. Inr (lModel l, TypeOwner l)) =
   rbind (Load (Inr (filter (\<lambda>r. known (ModuleKey r) = Some True \<and> Active r) rows)) known)
     (\<lambda>l. Inr (lModel l, TypeOwner l))"
proof -
  have eff: "filter (\<lambda>r. known (ModuleKey r) = Some True \<and> Active r) rows = filter (effective known) rows"
    by (rule filter_cong) (simp_all add: effective_def)
  have step: "rbind (Load (Inr rs) known) (\<lambda>l. Inr (lModel l, TypeOwner l)) =
     rbind (rbind (loadRows known BaseModel (set (map fst BaseModel)) Map.empty rs)
         (\<lambda>(me, _, ow). Inr (me, ow)))
       (\<lambda>(me, ow). rbind (mapErr EffectiveModel (ValidateTupleToUsersetTargets me)) (\<lambda>_. Inr (me, ow)))" for rs
    unfolding Load_def
    by (cases "loadRows known BaseModel (set (map fst BaseModel)) Map.empty rs")
      (auto simp: rbind_def mapErr_def split: sum.splits)
  show ?thesis unfolding step eff by (subst loadRows_filter) (rule refl)
qed

end
