(* ===== verification/Decision_Core.thy ===== *)
theory Decision_Core
  imports Tuple_Store Fragment_Load
begin

text \<open>
  The effective-access decision of \<open>internal/authz/decision\<close>: the ordered eight-step
  evaluation with its evidence, the batch over one shared prefix, and the dependencies it
  consults as a record of functions that answer or err. The lemmas characterise when a request is
  allowed, which step decides a refusal, and how batch and single decisions relate.
\<close>

section \<open>Data\<close>

datatype Reason =
    ReasonAllowed
  | ReasonAuthUserNotFound
  | ReasonKeycloakDisabled
  | ReasonUserLifecycleDisabled
  | ReasonCompanyInactive
  | ReasonCompanyMembershipRequired
  | ReasonCompanyAccessBlocked
  | ReasonModuleDisabled
  | ReasonPlatformRoleRequired
  | ReasonCompanyRoleRequired
  | ReasonEngineDenied
  | ReasonBusinessEligibilityDenied
  | ReasonDependencyUnavailable

type_synonym Evidence = "string \<times> string"

record Decision =
  Allowed :: bool
  dReason :: Reason
  dEvidence :: "Evidence list"
  Dependency :: string
  Step :: string

definition deny :: "Reason \<Rightarrow> Evidence list \<Rightarrow> Evidence list \<Rightarrow> Decision" where
  "deny reason ev kv =
     \<lparr>Allowed = False, dReason = reason, dEvidence = ev @ kv, Dependency = [], Step = []\<rparr>"

definition unavailable :: "string \<Rightarrow> string \<Rightarrow> Evidence list \<Rightarrow> Decision" where
  "unavailable dependency step ev =
     \<lparr>Allowed = False, dReason = ReasonDependencyUnavailable,
      dEvidence = ev @ [(''dependency'', dependency), (''step'', step)],
      Dependency = dependency, Step = step\<rparr>"

definition allow :: "Evidence list \<Rightarrow> Evidence list \<Rightarrow> Decision" where
  "allow ev kv =
     \<lparr>Allowed = True, dReason = ReasonAllowed, dEvidence = ev @ kv, Dependency = [], Step = []\<rparr>"

record SubjectResult =
  Found :: bool
  LifecycleActive :: bool

record CompanyState =
  csExists :: bool
  csActive :: bool

record MembershipState =
  IsMember :: bool
  Blocked :: bool

datatype EligibilityOutcome = EligibilityAllow | EligibilityDenial | EligibilityError

record ObjectRef =
  orType :: string
  orID :: string

text \<open>\<open>Scope\<close> and \<open>KCState\<close> are Go strings; their constants are the ones the code
  compares with, and any other value takes the branches the code gives it.\<close>

abbreviation (input) ScopeGlobal :: string where "ScopeGlobal \<equiv> ''global''"
abbreviation (input) ScopeCompany :: string where "ScopeCompany \<equiv> ''company''"
abbreviation (input) KCTrue :: string where "KCTrue \<equiv> ''true''"
abbreviation (input) KCFalse :: string where "KCFalse \<equiv> ''false''"
abbreviation (input) KCUnknown :: string where "KCUnknown \<equiv> ''unknown''"

definition FoundationModuleKey :: string where
  "FoundationModuleKey = ''auth''"

record Request =
  rqSubjectID :: string
  rqFeatureKey :: string
  rqModuleKey :: string
  rqScope :: string
  rqCompanyID :: string
  rqRequiredPlatformRole :: string
  rqAllowPlatformOperatorCompanyScope :: bool
  rqRequiredCompanyRole :: string
  rqObject :: ObjectRef
  rqRelation :: string
  rqRequiresEligibility :: bool

section \<open>Dependencies\<close>

text \<open>The engine interface, with the company-bound check when the implementation offers it.\<close>

type_synonym checkCall = "string \<Rightarrow> string \<Rightarrow> string \<Rightarrow> string \<Rightarrow> string \<Rightarrow> (CheckError, bool) result"

record EngineChecker =
  engCheck :: checkCall
  engCheckInCompany :: "(string \<Rightarrow> checkCall) option"

text \<open>The eligibility callback answers with its outcome or an error, and the flag tells whether the
  timeout fired first.\<close>

record Deps =
  dpSubject :: "string \<Rightarrow> (string, SubjectResult) result"
  dpKeycloak :: "string \<Rightarrow> (string, string) result"
  dpPlatformRole :: "string \<Rightarrow> string \<Rightarrow> (CheckError, bool) result"
  dpCompany :: "string \<Rightarrow> (string, CompanyState) result"
  dpMembership :: "string \<Rightarrow> string \<Rightarrow> (string, MembershipState) result"
  dpCompanyRole :: "string \<Rightarrow> string \<Rightarrow> string \<Rightarrow> (CheckError, bool) result"
  dpModuleState :: "string \<Rightarrow> (string, bool) result"
  dpEngine :: EngineChecker
  dpModel :: "(string \<Rightarrow> string \<Rightarrow> bool) option"
  dpEligibility :: "(Request \<Rightarrow> (string, EligibilityOutcome) result \<times> bool) option"

section \<open>Steps 7 and 8\<close>

text \<open>A step ends the evaluation with a decision (\<open>Inl\<close>, the Go \<open>stop\<close> flag) or
  continues with the evidence gathered so far.\<close>

definition modelDefines :: "Deps \<Rightarrow> string \<Rightarrow> string \<Rightarrow> bool" where
  "modelDefines d ty rel = (case dpModel d of None \<Rightarrow> False | Some f \<Rightarrow> f ty rel)"

definition bindObject :: "Deps \<Rightarrow> Request \<Rightarrow> ObjectRef \<Rightarrow> (CheckError, bool) result" where
  "bindObject d req obj =
     (let moduleObjectID = rqCompanyID req @ ''/'' @ rqModuleKey req in
      if orType obj = ''company'' then Inr (orID obj = rqCompanyID req)
      else if orType obj = ''company_module'' then Inr (orID obj = moduleObjectID)
      else if modelDefines d (orType obj) ''company'' then
        engCheck (dpEngine d) (orType obj) (orID obj) ''company'' ''company'' (rqCompanyID req)
      else if modelDefines d (orType obj) ''company_module'' then
        engCheck (dpEngine d) (orType obj) (orID obj) ''company_module'' ''company_module'' moduleObjectID
      else Inr False)"

definition relationAnswer :: "Deps \<Rightarrow> Request \<Rightarrow> ObjectRef \<Rightarrow> string \<Rightarrow> (CheckError, bool) result" where
  "relationAnswer d req obj relation =
     (case engCheckInCompany (dpEngine d) of
        Some scoped \<Rightarrow>
          if rqScope req = ScopeCompany
          then scoped (rqCompanyID req) (orType obj) (orID obj) relation ''user'' (rqSubjectID req)
          else engCheck (dpEngine d) (orType obj) (orID obj) relation ''user'' (rqSubjectID req)
      | None \<Rightarrow> engCheck (dpEngine d) (orType obj) (orID obj) relation ''user'' (rqSubjectID req))"

definition relationCheck ::
  "Deps \<Rightarrow> Request \<Rightarrow> ObjectRef \<Rightarrow> string \<Rightarrow> Evidence list \<Rightarrow> (Decision, Evidence list) result" where
  "relationCheck d req obj relation ev =
     (let objectLabel = orType obj @ '':'' @ orID obj in
      rbind
        (if rqScope req = ScopeCompany then
           (case bindObject d req obj of
              Inl _ \<Rightarrow> Inl (unavailable ''engine'' ''relation_check'' ev)
            | Inr bound \<Rightarrow>
                if \<not> bound then
                  Inl (deny ReasonEngineDenied ev [(''objectCompany'', ''false''), (''object'', objectLabel)])
                else Inr (ev @ [(''objectCompany'', ''true'')]))
         else Inr ev)
        (\<lambda>ev.
           case relationAnswer d req obj relation of
             Inl _ \<Rightarrow> Inl (unavailable ''engine'' ''relation_check'' ev)
           | Inr allowed \<Rightarrow>
               if \<not> allowed then
                 Inl (deny ReasonEngineDenied ev [(''relation'', relation), (''object'', objectLabel)])
               else Inr (ev @ [(''relation'', relation)])))"

definition eligibility ::
  "Deps \<Rightarrow> Request \<Rightarrow> Evidence list \<Rightarrow> (Decision, Evidence list) result" where
  "eligibility d req ev =
     (case dpEligibility d of
        None \<Rightarrow> Inl (unavailable ''module-eligibility'' ''business_eligibility'' ev)
      | Some callback \<Rightarrow>
          (case callback req of
             (Inl _, _) \<Rightarrow> Inl (unavailable ''module-eligibility'' ''business_eligibility'' ev)
           | (Inr outcome, timedOut) \<Rightarrow>
               if timedOut then Inl (unavailable ''module-eligibility'' ''business_eligibility'' ev)
               else (case outcome of
                       EligibilityDenial \<Rightarrow>
                         Inl (deny ReasonBusinessEligibilityDenied ev [(''eligible'', ''false'')])
                     | EligibilityError \<Rightarrow>
                         Inl (unavailable ''module-eligibility'' ''business_eligibility'' ev)
                     | EligibilityAllow \<Rightarrow> Inr (ev @ [(''eligible'', ''true'')]))))"

section \<open>The decision\<close>

text \<open>Steps 1 to 3.\<close>

definition subjectSteps :: "Deps \<Rightarrow> Request \<Rightarrow> Evidence list \<Rightarrow> (Decision, Evidence list) result" where
  "subjectSteps d req ev =
     (case dpSubject d (rqSubjectID req) of
        Inl _ \<Rightarrow> Inl (unavailable ''identity'' ''subject_lookup'' ev)
      | Inr subj \<Rightarrow>
          if \<not> Found subj then Inl (deny ReasonAuthUserNotFound ev [(''subjectFound'', ''false'')])
          else
            (case dpKeycloak d (rqSubjectID req) of
               Inl _ \<Rightarrow> Inl (unavailable ''keycloak'' ''keycloak_enabled'' ev)
             | Inr kc \<Rightarrow>
                 if kc = KCUnknown then Inl (unavailable ''keycloak'' ''keycloak_enabled'' ev)
                 else if kc = KCFalse then Inl (deny ReasonKeycloakDisabled ev [(''kcEnabled'', ''false'')])
                 else
                   let ev = ev @ [(''kcEnabled'', ''true'')] in
                   if \<not> LifecycleActive subj then
                     Inl (deny ReasonUserLifecycleDisabled ev [(''lifecycleActive'', ''false'')])
                   else Inr (ev @ [(''lifecycleActive'', ''true'')])))"

text \<open>Step 5, company scope.\<close>

definition operatorStep :: "Deps \<Rightarrow> Request \<Rightarrow> Evidence list \<Rightarrow> (Decision, bool \<times> Evidence list) result" where
  "operatorStep d req ev =
     (if rqAllowPlatformOperatorCompanyScope req then
        (case dpPlatformRole d (rqSubjectID req) (rqRequiredPlatformRole req) of
           Inl _ \<Rightarrow> Inl (unavailable ''engine'' ''platform_operator_exception'' ev)
         | Inr opOK \<Rightarrow>
             if opOK then Inr (True, ev @ [(''platformOperatorException'', ''true'')])
             else Inr (False, ev))
      else Inr (False, ev))"

definition membershipStep ::
  "Deps \<Rightarrow> Request \<Rightarrow> bool \<Rightarrow> Evidence list \<Rightarrow> (Decision, Evidence list) result" where
  "membershipStep d req operatorException ev =
     (if operatorException then Inr ev
      else
        (case dpMembership d (rqCompanyID req) (rqSubjectID req) of
           Inl _ \<Rightarrow> Inl (unavailable ''org'' ''company_membership'' ev)
         | Inr ms \<Rightarrow>
             if \<not> IsMember ms then
               Inl (deny ReasonCompanyMembershipRequired ev [(''isMember'', ''false'')])
             else if Blocked ms then
               Inl (deny ReasonCompanyAccessBlocked ev [(''accessBlocked'', ''true'')])
             else Inr (ev @ [(''isMember'', ''true'')])))"

definition companyRoleStep ::
  "Deps \<Rightarrow> Request \<Rightarrow> bool \<Rightarrow> Evidence list \<Rightarrow> (Decision, Evidence list) result" where
  "companyRoleStep d req operatorException ev =
     (if rqRequiredCompanyRole req \<noteq> [] \<and> \<not> operatorException then
        (case dpCompanyRole d (rqCompanyID req) (rqSubjectID req) (rqRequiredCompanyRole req) of
           Inl _ \<Rightarrow> Inl (unavailable ''org'' ''company_role'' ev)
         | Inr ok \<Rightarrow>
             if \<not> ok then
               Inl (deny ReasonCompanyRoleRequired ev [(''requiredCompanyRole'', rqRequiredCompanyRole req)])
             else Inr (ev @ [(''companyRole'', rqRequiredCompanyRole req)]))
      else Inr ev)"

definition companySteps :: "Deps \<Rightarrow> Request \<Rightarrow> Evidence list \<Rightarrow> (Decision, Evidence list) result" where
  "companySteps d req ev =
     (case dpCompany d (rqCompanyID req) of
        Inl _ \<Rightarrow> Inl (unavailable ''org'' ''company_state'' ev)
      | Inr cs \<Rightarrow>
          if \<not> csExists cs \<or> \<not> csActive cs then
            Inl (deny ReasonCompanyInactive ev [(''companyActive'', ''false'')])
          else
            rbind (operatorStep d req (ev @ [(''companyActive'', ''true'')])) (\<lambda>(operatorException, ev).
            rbind (membershipStep d req operatorException ev) (\<lambda>ev.
              companyRoleStep d req operatorException ev)))"

text \<open>Step 4, global scope: the platform role is the whole decision.\<close>

definition globalStep :: "Deps \<Rightarrow> Request \<Rightarrow> Evidence list \<Rightarrow> Decision" where
  "globalStep d req ev =
     (case dpPlatformRole d (rqSubjectID req) (rqRequiredPlatformRole req) of
        Inl _ \<Rightarrow> unavailable ''engine'' ''platform_role'' ev
      | Inr ok \<Rightarrow>
          if \<not> ok then
            deny ReasonPlatformRoleRequired ev [(''requiredPlatformRole'', rqRequiredPlatformRole req)]
          else allow ev [(''scope'', ''global''), (''platformRole'', rqRequiredPlatformRole req)])"

text \<open>Step 6.\<close>

definition moduleStep :: "Deps \<Rightarrow> Request \<Rightarrow> Evidence list \<Rightarrow> (Decision, Evidence list) result" where
  "moduleStep d req ev =
     (case (if rqModuleKey req = FoundationModuleKey then Inr True else dpModuleState d (rqModuleKey req)) of
        Inl _ \<Rightarrow> Inl (unavailable ''registry'' ''module_state'' ev)
      | Inr moduleEnabled \<Rightarrow>
          if \<not> moduleEnabled then Inl (deny ReasonModuleDisabled ev [(''moduleEnabled'', ''false'')])
          else Inr (ev @ [(''moduleEnabled'', ''true'')]))"

definition relationStep :: "Deps \<Rightarrow> Request \<Rightarrow> Evidence list \<Rightarrow> (Decision, Evidence list) result" where
  "relationStep d req ev =
     (if rqRelation req \<noteq> [] then relationCheck d req (rqObject req) (rqRelation req) ev else Inr ev)"

definition eligibilityStep :: "Deps \<Rightarrow> Request \<Rightarrow> Evidence list \<Rightarrow> (Decision, Evidence list) result" where
  "eligibilityStep d req ev = (if rqRequiresEligibility req then eligibility d req ev else Inr ev)"

definition conclude :: "(Decision, Decision) result \<Rightarrow> Decision" where
  "conclude r = (case r of Inl dec \<Rightarrow> dec | Inr dec \<Rightarrow> dec)"

definition Evaluate :: "Deps \<Rightarrow> Request \<Rightarrow> Decision" where
  "Evaluate d req = conclude (
     rbind (subjectSteps d req [(''featureKey'', rqFeatureKey req), (''subjectId'', rqSubjectID req)]) (\<lambda>ev.
     rbind (if rqScope req = ScopeGlobal then Inl (globalStep d req ev)
            else if rqScope req = ScopeCompany then companySteps d req ev
            else Inr ev) (\<lambda>ev.
     rbind (moduleStep d req ev) (\<lambda>ev.
     rbind (relationStep d req ev) (\<lambda>ev.
     rbind (eligibilityStep d req ev) (\<lambda>ev.
       Inr (allow ev [(''scope'', ''company'')])))))))"

section \<open>The batch\<close>

record decBatchItem =
  biObject :: ObjectRef
  biRelation :: string

definition evaluateSteps7And8 :: "Deps \<Rightarrow> Request \<Rightarrow> decBatchItem \<Rightarrow> Evidence list \<Rightarrow> Decision" where
  "evaluateSteps7And8 d base it ev = conclude (
     rbind (if biRelation it \<noteq> [] then relationCheck d base (biObject it) (biRelation it) ev else Inr ev) (\<lambda>ev.
     rbind (if rqRequiresEligibility base
            then eligibility d (base\<lparr>rqObject := biObject it, rqRelation := biRelation it\<rparr>) ev
            else Inr ev) (\<lambda>ev.
       Inr (allow ev []))))"

definition EvaluateBatch ::
  "Deps \<Rightarrow> Request \<Rightarrow> decBatchItem list \<Rightarrow> (decBatchItem \<times> Decision) list" where
  "EvaluateBatch d base items =
     (let prefixDecision = Evaluate d (base\<lparr>rqRelation := [], rqRequiresEligibility := False\<rparr>) in
      if dReason prefixDecision \<noteq> ReasonAllowed then map (\<lambda>it. (it, prefixDecision)) items
      else map (\<lambda>it. (it, evaluateSteps7And8 d base it (dEvidence prefixDecision))) items)"

section \<open>The decision as ordered gates\<close>

text \<open>The contract of the decision without its evidence: a list of gates, each open (\<open>None\<close>)
  or closed with a reason; the first closed gate decides.\<close>

type_synonym gate = "Reason option"

fun firstClosed :: "gate list \<Rightarrow> Reason" where
  "firstClosed [] = ReasonAllowed"
| "firstClosed (None # gs) = firstClosed gs"
| "firstClosed (Some r # gs) = r"

definition ask :: "('e, 'a) result \<Rightarrow> ('a \<Rightarrow> gate) \<Rightarrow> gate" where
  "ask answer f = (case answer of Inl _ \<Rightarrow> Some ReasonDependencyUnavailable | Inr a \<Rightarrow> f a)"

definition require :: "Reason \<Rightarrow> bool \<Rightarrow> gate" where
  "require r ok = (if ok then None else Some r)"

definition subjectGates :: "Deps \<Rightarrow> Request \<Rightarrow> gate list" where
  "subjectGates d req =
     [ask (dpSubject d (rqSubjectID req)) (\<lambda>s. require ReasonAuthUserNotFound (Found s)),
      ask (dpKeycloak d (rqSubjectID req)) (\<lambda>kc.
        if kc = KCUnknown then Some ReasonDependencyUnavailable
        else require ReasonKeycloakDisabled (kc \<noteq> KCFalse)),
      ask (dpSubject d (rqSubjectID req)) (\<lambda>s. require ReasonUserLifecycleDisabled (LifecycleActive s))]"

definition isOperator :: "Deps \<Rightarrow> Request \<Rightarrow> bool" where
  "isOperator d req \<longleftrightarrow> rqAllowPlatformOperatorCompanyScope req \<and>
     dpPlatformRole d (rqSubjectID req) (rqRequiredPlatformRole req) = Inr True"

definition companyGates :: "Deps \<Rightarrow> Request \<Rightarrow> gate list" where
  "companyGates d req =
     [ask (dpCompany d (rqCompanyID req)) (\<lambda>cs. require ReasonCompanyInactive (csExists cs \<and> csActive cs)),
      if rqAllowPlatformOperatorCompanyScope req
      then ask (dpPlatformRole d (rqSubjectID req) (rqRequiredPlatformRole req)) (\<lambda>_. None) else None,
      if isOperator d req then None
      else ask (dpMembership d (rqCompanyID req) (rqSubjectID req)) (\<lambda>ms.
        if \<not> IsMember ms then Some ReasonCompanyMembershipRequired
        else require ReasonCompanyAccessBlocked (\<not> Blocked ms)),
      if isOperator d req \<or> rqRequiredCompanyRole req = [] then None
      else ask (dpCompanyRole d (rqCompanyID req) (rqSubjectID req) (rqRequiredCompanyRole req))
        (require ReasonCompanyRoleRequired)]"

definition moduleGate :: "Deps \<Rightarrow> Request \<Rightarrow> gate" where
  "moduleGate d req = (if rqModuleKey req = FoundationModuleKey then None
     else ask (dpModuleState d (rqModuleKey req)) (require ReasonModuleDisabled))"

definition relationGates :: "Deps \<Rightarrow> Request \<Rightarrow> ObjectRef \<Rightarrow> string \<Rightarrow> gate list" where
  "relationGates d req obj relation =
     (if relation = [] then []
      else [if rqScope req = ScopeCompany then ask (bindObject d req obj) (require ReasonEngineDenied) else None,
            ask (relationAnswer d req obj relation) (require ReasonEngineDenied)])"

definition eligibilityGate :: "Deps \<Rightarrow> Request \<Rightarrow> gate" where
  "eligibilityGate d req =
     (if \<not> rqRequiresEligibility req then None
      else case dpEligibility d of
        None \<Rightarrow> Some ReasonDependencyUnavailable
      | Some callback \<Rightarrow>
          (case callback req of
             (Inr EligibilityAllow, False) \<Rightarrow> None
           | (Inr EligibilityDenial, False) \<Rightarrow> Some ReasonBusinessEligibilityDenied
           | _ \<Rightarrow> Some ReasonDependencyUnavailable))"

definition requestGates :: "Deps \<Rightarrow> Request \<Rightarrow> gate list" where
  "requestGates d req = subjectGates d req @
     (if rqScope req = ScopeGlobal
      then [ask (dpPlatformRole d (rqSubjectID req) (rqRequiredPlatformRole req))
              (require ReasonPlatformRoleRequired)]
      else (if rqScope req = ScopeCompany then companyGates d req else []) @
           [moduleGate d req] @ relationGates d req (rqObject req) (rqRelation req) @
           [eligibilityGate d req])"

definition decide :: "Deps \<Rightarrow> Request \<Rightarrow> Reason" where
  "decide d req = firstClosed (requestGates d req)"

text \<open>Each gate asks one dependency in one step of the protocol. A refusal names both when the
  first closed gate closed because the dependency did not answer, and neither otherwise.\<close>

type_synonym blame = "string \<times> string"

fun firstBlame :: "gate list \<Rightarrow> blame list \<Rightarrow> blame" where
  "firstBlame (None # gs) (b # bs) = firstBlame gs bs"
| "firstBlame (Some r # gs) (b # bs) = (if r = ReasonDependencyUnavailable then b else ([], []))"
| "firstBlame _ _ = ([], [])"

definition subjectBlames :: "blame list" where
  "subjectBlames = [(''identity'', ''subject_lookup''), (''keycloak'', ''keycloak_enabled''),
     (''identity'', ''subject_lookup'')]"

definition companyBlames :: "blame list" where
  "companyBlames = [(''org'', ''company_state''), (''engine'', ''platform_operator_exception''),
     (''org'', ''company_membership''), (''org'', ''company_role'')]"

definition relationBlames :: "string \<Rightarrow> blame list" where
  "relationBlames relation = (if relation = [] then []
     else [(''engine'', ''relation_check''), (''engine'', ''relation_check'')])"

definition requestBlames :: "Request \<Rightarrow> blame list" where
  "requestBlames req = subjectBlames @
     (if rqScope req = ScopeGlobal then [(''engine'', ''platform_role'')]
      else (if rqScope req = ScopeCompany then companyBlames else []) @
           [(''registry'', ''module_state'')] @ relationBlames (rqRelation req) @
           [(''module-eligibility'', ''business_eligibility'')])"

section \<open>The evaluation implements the gates\<close>

text \<open>\<open>passes gs x\<close>: the step \<open>x\<close> continues exactly when all gates are open, and
  otherwise refuses with the reason of the first closed one.\<close>

definition refusal :: "Reason \<Rightarrow> Decision \<Rightarrow> bool" where
  "refusal r dec \<longleftrightarrow> \<not> Allowed dec \<and> dReason dec = r"

definition passes :: "gate list \<Rightarrow> (Decision, 'a) result \<Rightarrow> bool" where
  "passes gs x \<longleftrightarrow> (case x of
     Inl dec \<Rightarrow> (\<exists>g \<in> set gs. g \<noteq> None) \<and> refusal (firstClosed gs) dec
   | Inr _ \<Rightarrow> \<forall>g \<in> set gs. g = None)"

lemma firstClosed_append:
  "firstClosed (gs @ hs) = (if \<exists>g \<in> set gs. g \<noteq> None then firstClosed gs else firstClosed hs)"
  by (induction gs rule: firstClosed.induct) auto

lemma passes_bind:
  "passes gs x \<Longrightarrow> (\<And>a. x = Inr a \<Longrightarrow> passes hs (f a)) \<Longrightarrow> passes (gs @ hs) (rbind x f)"
  by (cases x) (auto simp: passes_def firstClosed_append split: sum.splits)

lemma passes_nil [simp]: "passes [] (Inr a)"
  by (simp add: passes_def)

lemmas refusals = deny_def unavailable_def refusal_def passes_def ask_def require_def

lemma subjectSteps_passes: "passes (subjectGates d req) (subjectSteps d req ev)"
  by (auto simp: subjectSteps_def subjectGates_def refusals Let_def split: sum.splits)

lemma relationCheck_passes:
  assumes "relation \<noteq> []"
  shows "passes (relationGates d req obj relation) (relationCheck d req obj relation ev)"
  using assms
  by (auto simp: relationCheck_def relationGates_def refusals Let_def rbind_def split: sum.splits)

lemma eligibility_passes:
  "rqRequiresEligibility req \<Longrightarrow> passes [eligibilityGate d req] (eligibility d req ev)"
  by (auto simp: eligibility_def eligibilityGate_def refusals
      split: sum.splits option.splits prod.splits EligibilityOutcome.splits bool.splits)

lemma moduleStep_passes: "passes [moduleGate d req] (moduleStep d req ev)"
  by (auto simp: moduleStep_def moduleGate_def refusals split: sum.splits)

lemma relationStep_passes:
  "passes (relationGates d req (rqObject req) (rqRelation req)) (relationStep d req ev)"
  using relationCheck_passes [of "rqRelation req"]
  by (simp add: relationStep_def) (simp add: relationGates_def)

lemma eligibilityStep_passes: "passes [eligibilityGate d req] (eligibilityStep d req ev)"
  using eligibility_passes [of req]
  by (simp add: eligibilityStep_def) (simp add: passes_def eligibilityGate_def)

lemma companySteps_passes: "passes (companyGates d req) (companySteps d req ev)"
  by (auto simp: companySteps_def operatorStep_def membershipStep_def companyRoleStep_def companyGates_def
      isOperator_def refusals rbind_def split: sum.splits)

text \<open>No gate closes with the reason of an allow.\<close>

lemma firstClosed_open: "\<forall>g \<in> set gs. g = None \<Longrightarrow> firstClosed gs = ReasonAllowed"
  by (induction gs rule: firstClosed.induct) auto

definition honest :: "gate list \<Rightarrow> bool" where
  "honest gs \<longleftrightarrow> Some ReasonAllowed \<notin> set gs"

lemma honest_firstClosed: "honest gs \<Longrightarrow> firstClosed gs = ReasonAllowed \<longleftrightarrow> (\<forall>g \<in> set gs. g = None)"
  by (induction gs rule: firstClosed.induct) (auto simp: honest_def)

lemma honest_gates:
  "honest (subjectGates d req)" "honest (companyGates d req)" "honest [moduleGate d req]"
  "honest (relationGates d req obj rel)" "honest [eligibilityGate d req]"
  "honest [ask x (require ReasonPlatformRoleRequired)]"
  by (auto simp: honest_def subjectGates_def companyGates_def moduleGate_def relationGates_def
      eligibilityGate_def ask_def require_def
      split: sum.splits if_splits option.splits prod.splits EligibilityOutcome.splits bool.splits)

lemma honest_append: "honest (gs @ hs) \<longleftrightarrow> honest gs \<and> honest hs"
  by (auto simp: honest_def)

definition wellMade :: "Reason \<Rightarrow> Decision \<Rightarrow> bool" where
  "wellMade r dec \<longleftrightarrow> dReason dec = r \<and> (Allowed dec \<longleftrightarrow> r = ReasonAllowed)"

lemma conclude_passes:
  assumes "passes gs x" "honest gs" "\<And>a. x = Inr a \<Longrightarrow> wellMade ReasonAllowed a"
  shows "wellMade (firstClosed gs) (conclude x)"
  using assms honest_firstClosed [OF assms(2)]
  by (cases x) (auto simp: conclude_def passes_def refusal_def wellMade_def)

lemma globalStep_wellMade:
  "wellMade (firstClosed [ask (dpPlatformRole d (rqSubjectID req) (rqRequiredPlatformRole req))
     (require ReasonPlatformRoleRequired)]) (globalStep d req ev)"
  by (auto simp: globalStep_def wellMade_def ask_def require_def deny_def unavailable_def allow_def split: sum.splits)

lemma Evaluate_wellMade: "wellMade (decide d req) (Evaluate d req)"
proof -
  let ?ev = "[(''featureKey'', rqFeatureKey req), (''subjectId'', rqSubjectID req)]"
  show ?thesis
  proof (cases "rqScope req = ScopeGlobal")
    case True
    let ?g = "ask (dpPlatformRole d (rqSubjectID req) (rqRequiredPlatformRole req)) (require ReasonPlatformRoleRequired)"
    have E: "Evaluate d req = conclude (rbind (subjectSteps d req ?ev) (\<lambda>ev. Inl (globalStep d req ev)))"
      using True by (simp add: Evaluate_def rbind_def split: sum.splits)
    have D: "decide d req = firstClosed (subjectGates d req @ [?g])"
      using True by (simp add: decide_def requestGates_def)
    show ?thesis
    proof (cases "subjectSteps d req ?ev")
      case (Inl dec)
      with subjectSteps_passes [of d req ?ev] show ?thesis
        using honest_firstClosed [OF honest_gates(1), of d req]
        by (auto simp: E D rbind_def conclude_def passes_def refusal_def wellMade_def firstClosed_append)
    next
      case (Inr ev)
      with subjectSteps_passes [of d req ?ev] globalStep_wellMade [of d req ev] show ?thesis
        by (auto simp: E D rbind_def conclude_def passes_def firstClosed_append)
    qed
  next
    case False
    let ?gs = "subjectGates d req @ (if rqScope req = ScopeCompany then companyGates d req else []) @
       [moduleGate d req] @ relationGates d req (rqObject req) (rqRelation req) @ [eligibilityGate d req] @ []"
    define x where "x = rbind (subjectSteps d req ?ev) (\<lambda>ev.
       rbind (if rqScope req = ScopeCompany then companySteps d req ev else Inr ev) (\<lambda>ev.
       rbind (moduleStep d req ev) (\<lambda>ev.
       rbind (relationStep d req ev) (\<lambda>ev.
       rbind (eligibilityStep d req ev) (\<lambda>ev.
         Inr (allow ev [(''scope'', ''company'')]))))))"
    have "passes ?gs x"
      unfolding x_def
      by (intro passes_bind subjectSteps_passes moduleStep_passes relationStep_passes eligibilityStep_passes)
        (simp_all add: companySteps_passes)
    moreover have "honest ?gs"
      by (simp only: honest_append honest_gates split: if_split) (simp add: honest_def)
    moreover have "wellMade ReasonAllowed a" if "x = Inr a" for a
    proof -
      from that obtain ev where "a = allow ev [(''scope'', ''company'')]"
        unfolding x_def rbind_Inr_iff by blast
      then show ?thesis by (simp add: wellMade_def allow_def)
    qed
    ultimately have "wellMade (firstClosed ?gs) (conclude x)" by (rule conclude_passes)
    moreover have "Evaluate d req = conclude x"
      unfolding Evaluate_def x_def using False by simp
    moreover have "decide d req = firstClosed ?gs"
      unfolding decide_def requestGates_def using False by simp
    ultimately show ?thesis by simp
  qed
qed

section \<open>The dependency at fault\<close>

text \<open>\<open>blames gs bs x\<close>: when the step \<open>x\<close> refuses, the decision names the dependency
  and step of the first closed gate if that gate got no answer, and no dependency otherwise.\<close>

definition atFault :: "Decision \<Rightarrow> blame" where
  "atFault dec = (Dependency dec, Step dec)"

definition blames :: "gate list \<Rightarrow> blame list \<Rightarrow> (Decision, 'a) result \<Rightarrow> bool" where
  "blames gs bs x \<longleftrightarrow> length gs = length bs \<and> (case x of
     Inl dec \<Rightarrow> (\<exists>g \<in> set gs. g \<noteq> None) \<and> atFault dec = firstBlame gs bs
   | Inr _ \<Rightarrow> \<forall>g \<in> set gs. g = None)"

lemma firstBlame_append:
  "length gs = length bs \<Longrightarrow>
   firstBlame (gs @ hs) (bs @ cs) = (if \<exists>g \<in> set gs. g \<noteq> None then firstBlame gs bs else firstBlame hs cs)"
  by (induction gs bs rule: firstBlame.induct) auto

lemma firstBlame_open: "\<forall>g \<in> set gs. g = None \<Longrightarrow> firstBlame gs bs = ([], [])"
  by (induction gs bs rule: firstBlame.induct) auto

lemma blames_bind:
  "blames gs bs x \<Longrightarrow> (\<And>a. x = Inr a \<Longrightarrow> blames hs cs (f a)) \<Longrightarrow> length hs = length cs \<Longrightarrow>
   blames (gs @ hs) (bs @ cs) (rbind x f)"
  by (cases x) (auto simp: blames_def firstBlame_append split: sum.splits)

lemma blames_nil [simp]: "blames [] [] (Inr a)"
  by (simp add: blames_def)

lemmas faults = deny_def unavailable_def atFault_def blames_def ask_def require_def

lemma subjectSteps_blames: "blames (subjectGates d req) subjectBlames (subjectSteps d req ev)"
  by (auto simp: subjectSteps_def subjectGates_def subjectBlames_def faults Let_def split: sum.splits)

lemma companySteps_blames: "blames (companyGates d req) companyBlames (companySteps d req ev)"
  by (auto simp: companySteps_def operatorStep_def membershipStep_def companyRoleStep_def companyGates_def
      companyBlames_def isOperator_def faults rbind_def split: sum.splits)

lemma moduleStep_blames: "blames [moduleGate d req] [(''registry'', ''module_state'')] (moduleStep d req ev)"
  by (auto simp: moduleStep_def moduleGate_def faults split: sum.splits)

lemma relationStep_blames:
  "blames (relationGates d req (rqObject req) (rqRelation req)) (relationBlames (rqRelation req)) (relationStep d req ev)"
  by (auto simp: relationStep_def relationCheck_def relationGates_def relationBlames_def faults Let_def rbind_def
      split: sum.splits)

lemma eligibilityStep_blames:
  "blames [eligibilityGate d req] [(''module-eligibility'', ''business_eligibility'')] (eligibilityStep d req ev)"
  by (auto simp: eligibilityStep_def eligibility_def eligibilityGate_def faults
      split: sum.splits option.splits prod.splits EligibilityOutcome.splits bool.splits)

lemma globalStep_fault:
  "atFault (globalStep d req ev) = firstBlame [ask (dpPlatformRole d (rqSubjectID req) (rqRequiredPlatformRole req))
     (require ReasonPlatformRoleRequired)] [(''engine'', ''platform_role'')]"
  by (auto simp: globalStep_def atFault_def ask_def require_def deny_def unavailable_def allow_def split: sum.splits)

lemma blame_lengths:
  "length (companyGates d req) = length companyBlames"
  "length (relationGates d req obj rel) = length (relationBlames rel)"
  by (simp_all add: companyGates_def companyBlames_def relationGates_def relationBlames_def)

lemma Evaluate_atFault: "atFault (Evaluate d req) = firstBlame (requestGates d req) (requestBlames req)"
proof -
  let ?ev = "[(''featureKey'', rqFeatureKey req), (''subjectId'', rqSubjectID req)]"
  note subject = subjectSteps_blames [of d req ?ev]
  show ?thesis
  proof (cases "rqScope req = ScopeGlobal")
    case True
    then show ?thesis
      using subject by (cases "subjectSteps d req ?ev")
        (auto simp: Evaluate_def rbind_def conclude_def requestGates_def requestBlames_def blames_def
          firstBlame_append globalStep_fault)
  next
    case False
    let ?gs = "subjectGates d req @ (if rqScope req = ScopeCompany then companyGates d req else []) @
       [moduleGate d req] @ relationGates d req (rqObject req) (rqRelation req) @ [eligibilityGate d req] @ []"
    let ?bs = "subjectBlames @ (if rqScope req = ScopeCompany then companyBlames else []) @
       [(''registry'', ''module_state'')] @ relationBlames (rqRelation req) @
       [(''module-eligibility'', ''business_eligibility'')] @ []"
    define x where "x = rbind (subjectSteps d req ?ev) (\<lambda>ev.
       rbind (if rqScope req = ScopeCompany then companySteps d req ev else Inr ev) (\<lambda>ev.
       rbind (moduleStep d req ev) (\<lambda>ev.
       rbind (relationStep d req ev) (\<lambda>ev.
       rbind (eligibilityStep d req ev) (\<lambda>ev.
         Inr (allow ev [(''scope'', ''company'')]))))))"
    have b: "blames ?gs ?bs x"
      unfolding x_def
      by (intro blames_bind subject moduleStep_blames relationStep_blames eligibilityStep_blames)
        (simp_all add: companySteps_blames blame_lengths)
    have E: "Evaluate d req = conclude x" unfolding Evaluate_def x_def using False by simp
    have gs: "requestGates d req = ?gs" "requestBlames req = ?bs"
      using False by (simp_all add: requestGates_def requestBlames_def)
    show ?thesis
    proof (cases x)
      case (Inl dec)
      then show ?thesis unfolding gs using b by (simp add: E conclude_def blames_def)
    next
      case (Inr a)
      then obtain ev where "a = allow ev [(''scope'', ''company'')]"
        unfolding x_def rbind_Inr_iff by blast
      moreover have "firstBlame ?gs ?bs = ([], [])"
        using b Inr unfolding blames_def by (intro firstBlame_open) simp
      ultimately show ?thesis unfolding gs by (simp add: E Inr conclude_def atFault_def allow_def)
    qed
  qed
qed

text \<open>A dependency is named exactly when its answer was missing.\<close>

lemma firstBlame_named:
  "length gs = length bs \<Longrightarrow> \<forall>b \<in> set bs. fst b \<noteq> [] \<Longrightarrow>
   fst (firstBlame gs bs) \<noteq> [] \<longleftrightarrow> firstClosed gs = ReasonDependencyUnavailable"
  by (induction gs bs rule: firstBlame.induct) auto

lemma fault_iff_unavailable:
  "Dependency (Evaluate d req) \<noteq> [] \<longleftrightarrow> decide d req = ReasonDependencyUnavailable"
proof -
  have "length (requestGates d req) = length (requestBlames req)"
    by (simp add: requestGates_def requestBlames_def blame_lengths subjectGates_def subjectBlames_def)
  moreover have "\<forall>b \<in> set (requestBlames req). fst b \<noteq> []"
    by (auto simp: requestBlames_def subjectBlames_def companyBlames_def relationBlames_def split: if_splits)
  ultimately have "fst (firstBlame (requestGates d req) (requestBlames req)) \<noteq> [] \<longleftrightarrow>
      decide d req = ReasonDependencyUnavailable"
    unfolding decide_def by (rule firstBlame_named)
  then show ?thesis unfolding Evaluate_atFault [symmetric] by (simp add: atFault_def)
qed

definition itemRequest :: "Request \<Rightarrow> decBatchItem \<Rightarrow> Request" where
  "itemRequest base it = base\<lparr>rqObject := biObject it, rqRelation := biRelation it\<rparr>"

definition prefixGates :: "Deps \<Rightarrow> Request \<Rightarrow> gate list" where
  "prefixGates d req = subjectGates d req @
     (if rqScope req = ScopeCompany then companyGates d req else []) @ [moduleGate d req]"

lemma gates_itemRequest:
  "prefixGates d (itemRequest base it) = prefixGates d base"
  "relationGates d (itemRequest base it) obj rel = relationGates d base obj rel"
  "prefixGates d (base\<lparr>rqRelation := [], rqRequiresEligibility := False\<rparr>) = prefixGates d base"
  by (simp_all add: prefixGates_def subjectGates_def companyGates_def isOperator_def moduleGate_def
      relationGates_def bindObject_def relationAnswer_def itemRequest_def Let_def split: option.split)

lemma decide_prefix:
  assumes "rqScope base \<noteq> ScopeGlobal"
  shows "decide d (itemRequest base it) =
      firstClosed (prefixGates d base @ relationGates d base (biObject it) (biRelation it) @
        [eligibilityGate d (itemRequest base it)])"
    and "decide d (base\<lparr>rqRelation := [], rqRequiresEligibility := False\<rparr>) = firstClosed (prefixGates d base)"
proof -
  have "decide d (itemRequest base it) = firstClosed (prefixGates d (itemRequest base it) @
      relationGates d (itemRequest base it) (biObject it) (biRelation it) @ [eligibilityGate d (itemRequest base it)])"
    using assms by (simp add: decide_def requestGates_def prefixGates_def itemRequest_def)
  then show "decide d (itemRequest base it) =
      firstClosed (prefixGates d base @ relationGates d base (biObject it) (biRelation it) @
        [eligibilityGate d (itemRequest base it)])" by (simp add: gates_itemRequest)
  let ?req = "base\<lparr>rqRelation := [], rqRequiresEligibility := False\<rparr>"
  have "decide d ?req = firstClosed (prefixGates d ?req @ [None])"
    using assms by (simp add: decide_def requestGates_def prefixGates_def relationGates_def eligibilityGate_def)
  then show "decide d ?req = firstClosed (prefixGates d base)"
    by (simp add: gates_itemRequest firstClosed_append firstClosed_open)
qed

lemma honest_prefix: "honest (prefixGates d req)"
  by (simp add: prefixGates_def honest_append honest_gates) (simp add: honest_def)

lemma evaluateSteps7And8_wellMade:
  "wellMade (firstClosed (relationGates d base (biObject it) (biRelation it) @
      [eligibilityGate d (itemRequest base it)])) (evaluateSteps7And8 d base it ev)"
proof -
  let ?gs = "relationGates d base (biObject it) (biRelation it) @ [eligibilityGate d (itemRequest base it)] @ []"
  define x where "x = rbind (if biRelation it \<noteq> [] then relationCheck d base (biObject it) (biRelation it) ev
       else Inr ev) (\<lambda>ev.
     rbind (if rqRequiresEligibility base then eligibility d (itemRequest base it) ev else Inr ev) (\<lambda>ev.
       Inr (allow ev [])))"
  have "passes (relationGates d base (biObject it) (biRelation it))
      (if biRelation it \<noteq> [] then relationCheck d base (biObject it) (biRelation it) ev else Inr ev)"
    using relationCheck_passes [of "biRelation it"] by (simp add: relationGates_def)
  moreover have "passes [eligibilityGate d (itemRequest base it)]
      (if rqRequiresEligibility base then eligibility d (itemRequest base it) ev else Inr ev)" for ev
    using eligibility_passes [of "itemRequest base it"]
    by (auto simp: itemRequest_def passes_def eligibilityGate_def)
  ultimately have "passes ?gs x"
    unfolding x_def by (intro passes_bind) simp_all
  moreover have "honest ?gs" by (simp only: honest_append honest_gates) (simp add: honest_def)
  moreover have "wellMade ReasonAllowed a" if "x = Inr a" for a
  proof -
    from that obtain ev where "a = allow ev []" unfolding x_def rbind_Inr_iff by blast
    then show ?thesis by (simp add: wellMade_def allow_def)
  qed
  ultimately have "wellMade (firstClosed ?gs) (conclude x)" by (rule conclude_passes)
  moreover have "evaluateSteps7And8 d base it ev = conclude x"
    unfolding evaluateSteps7And8_def x_def itemRequest_def ..
  ultimately show ?thesis by simp
qed

lemma wellMadeD: "wellMade r dec \<Longrightarrow> dReason dec = r" "wellMade r dec \<Longrightarrow> Allowed dec \<longleftrightarrow> r = ReasonAllowed"
  by (simp_all add: wellMade_def)

lemma EvaluateBatch_item:
  assumes "rqScope base \<noteq> ScopeGlobal" and "(it, dec) \<in> set (EvaluateBatch d base items)"
  shows "wellMade (decide d (itemRequest base it)) dec"
proof -
  let ?pre = "Evaluate d (base\<lparr>rqRelation := [], rqRequiresEligibility := False\<rparr>)"
  have pre: "wellMade (firstClosed (prefixGates d base)) ?pre"
    using Evaluate_wellMade decide_prefix(2) [OF assms(1), of d] by metis
  note full = decide_prefix(1) [OF assms(1), of d it]
  show ?thesis
  proof (cases "dReason ?pre = ReasonAllowed")
    case False
    then have dec: "dec = ?pre" using assms(2) by (auto simp: EvaluateBatch_def Let_def)
    from False pre have "firstClosed (prefixGates d base) \<noteq> ReasonAllowed" by (simp add: wellMade_def)
    then have "\<exists>g \<in> set (prefixGates d base). g \<noteq> None" using firstClosed_open by blast
    with full have "decide d (itemRequest base it) = firstClosed (prefixGates d base)"
      by (simp add: firstClosed_append)
    with pre dec show ?thesis by simp
  next
    case True
    then have dec: "dec = evaluateSteps7And8 d base it (dEvidence ?pre)"
      using assms(2) by (auto simp: EvaluateBatch_def Let_def)
    from True pre have "\<forall>g \<in> set (prefixGates d base). g = None"
      using honest_firstClosed [OF honest_prefix, of d base] wellMadeD(1) [OF pre] by simp
    with full have "decide d (itemRequest base it) =
        firstClosed (relationGates d base (biObject it) (biRelation it) @ [eligibilityGate d (itemRequest base it)])"
      by (simp add: firstClosed_append)
    with evaluateSteps7And8_wellMade dec show ?thesis by simp
  qed
qed

lemma EvaluateBatch_items: "map fst (EvaluateBatch d base items) = items"
  by (simp add: EvaluateBatch_def Let_def comp_def)

lemma ask_None: "ask x f = None \<longleftrightarrow> (\<exists>a. x = Inr a \<and> f a = None)"
  by (auto simp: ask_def split: sum.splits)

lemma require_None: "require r ok = None \<longleftrightarrow> ok"
  by (simp add: require_def)

lemma subjectGates_open:
  "(\<forall>g \<in> set (subjectGates d req). g = None) \<longleftrightarrow>
     (\<exists>s kc. dpSubject d (rqSubjectID req) = Inr s \<and> Found s \<and> LifecycleActive s \<and>
        dpKeycloak d (rqSubjectID req) = Inr kc \<and> kc \<noteq> KCUnknown \<and> kc \<noteq> KCFalse)"
  by (auto simp: subjectGates_def ask_def require_def split: sum.splits if_splits)

lemma companyGates_open:
  assumes "\<forall>g \<in> set (companyGates d req). g = None"
  shows "(\<exists>cs. dpCompany d (rqCompanyID req) = Inr cs \<and> csExists cs \<and> csActive cs) \<and>
     (isOperator d req \<or>
      (\<exists>ms. dpMembership d (rqCompanyID req) (rqSubjectID req) = Inr ms \<and> IsMember ms \<and> \<not> Blocked ms \<and>
         (rqRequiredCompanyRole req = [] \<or>
          dpCompanyRole d (rqCompanyID req) (rqSubjectID req) (rqRequiredCompanyRole req) = Inr True)))"
proof -
  have 1: "ask (dpCompany d (rqCompanyID req)) (\<lambda>cs. require ReasonCompanyInactive (csExists cs \<and> csActive cs)) = None"
    using assms by (simp add: companyGates_def)
  have 2: "\<not> isOperator d req \<Longrightarrow> ask (dpMembership d (rqCompanyID req) (rqSubjectID req)) (\<lambda>ms.
        if \<not> IsMember ms then Some ReasonCompanyMembershipRequired
        else require ReasonCompanyAccessBlocked (\<not> Blocked ms)) = None"
    using assms by (simp add: companyGates_def)
  have 3: "\<not> isOperator d req \<Longrightarrow> rqRequiredCompanyRole req \<noteq> [] \<Longrightarrow>
      ask (dpCompanyRole d (rqCompanyID req) (rqSubjectID req) (rqRequiredCompanyRole req))
        (require ReasonCompanyRoleRequired) = None"
    using assms by (simp add: companyGates_def)
  show ?thesis
    using 1 2 3 unfolding ask_None require_None
    by (cases "isOperator d req"; cases "rqRequiredCompanyRole req = []")
      (auto simp: require_None split: if_splits)
qed

lemma moduleGate_open:
  "moduleGate d req = None \<longleftrightarrow> rqModuleKey req = FoundationModuleKey \<or> dpModuleState d (rqModuleKey req) = Inr True"
  by (auto simp: moduleGate_def ask_def require_def split: sum.splits if_splits)

lemma relationGates_open:
  assumes "rqScope req = ScopeCompany"
  shows "(\<forall>g \<in> set (relationGates d req obj rel). g = None) \<longleftrightarrow>
    rel = [] \<or> bindObject d req obj = Inr True \<and> relationAnswer d req obj rel = Inr True"
  using assms by (auto simp: relationGates_def ask_def require_def split: sum.splits if_splits)

lemma Evaluate_company_facts:
  assumes "rqScope req = ScopeCompany" and "Allowed (Evaluate d req)"
  shows "(\<exists>s kc. dpSubject d (rqSubjectID req) = Inr s \<and> Found s \<and> LifecycleActive s \<and>
        dpKeycloak d (rqSubjectID req) = Inr kc \<and> kc \<noteq> KCUnknown \<and> kc \<noteq> KCFalse) \<and>
     (\<exists>cs. dpCompany d (rqCompanyID req) = Inr cs \<and> csExists cs \<and> csActive cs) \<and>
     ((rqAllowPlatformOperatorCompanyScope req \<and>
         dpPlatformRole d (rqSubjectID req) (rqRequiredPlatformRole req) = Inr True) \<or>
      (\<exists>ms. dpMembership d (rqCompanyID req) (rqSubjectID req) = Inr ms \<and> IsMember ms \<and> \<not> Blocked ms \<and>
         (rqRequiredCompanyRole req = [] \<or>
          dpCompanyRole d (rqCompanyID req) (rqSubjectID req) (rqRequiredCompanyRole req) = Inr True))) \<and>
     (rqModuleKey req = FoundationModuleKey \<or> dpModuleState d (rqModuleKey req) = Inr True) \<and>
     (rqRelation req = [] \<or> bindObject d req (rqObject req) = Inr True \<and>
        relationAnswer d req (rqObject req) (rqRelation req) = Inr True)"
proof -
  let ?gs = "subjectGates d req @ companyGates d req @ [moduleGate d req] @
      relationGates d req (rqObject req) (rqRelation req) @ [eligibilityGate d req]"
  have "firstClosed ?gs = ReasonAllowed"
    using Evaluate_wellMade [of d req] assms by (simp add: wellMade_def decide_def requestGates_def)
  moreover have "honest ?gs" by (simp only: honest_append honest_gates)
  ultimately have gates: "\<forall>g \<in> set ?gs. g = None" using honest_firstClosed by blast
  then have "\<forall>g \<in> set (subjectGates d req). g = None" "\<forall>g \<in> set (companyGates d req). g = None"
    "moduleGate d req = None" "\<forall>g \<in> set (relationGates d req (rqObject req) (rqRelation req)). g = None"
    by auto
  then show ?thesis
    using companyGates_open [of d req]
    unfolding subjectGates_open moduleGate_open relationGates_open [OF assms(1)] isOperator_def by blast
qed

lemma Evaluate_global_iff:
  assumes "rqScope req = ScopeGlobal"
  shows "Allowed (Evaluate d req) \<longleftrightarrow>
     (\<exists>s kc. dpSubject d (rqSubjectID req) = Inr s \<and> Found s \<and> LifecycleActive s \<and>
        dpKeycloak d (rqSubjectID req) = Inr kc \<and> kc \<noteq> KCUnknown \<and> kc \<noteq> KCFalse) \<and>
     dpPlatformRole d (rqSubjectID req) (rqRequiredPlatformRole req) = Inr True"
proof -
  have "Allowed (Evaluate d req) \<longleftrightarrow> firstClosed (subjectGates d req @
      [ask (dpPlatformRole d (rqSubjectID req) (rqRequiredPlatformRole req)) (require ReasonPlatformRoleRequired)])
      = ReasonAllowed"
    using Evaluate_wellMade [of d req] assms by (simp add: wellMade_def decide_def requestGates_def)
  also have "\<dots> \<longleftrightarrow> (\<forall>g \<in> set (subjectGates d req @
      [ask (dpPlatformRole d (rqSubjectID req) (rqRequiredPlatformRole req)) (require ReasonPlatformRoleRequired)]). g = None)"
    by (intro honest_firstClosed) (simp only: honest_append honest_gates)
  finally show ?thesis
    using subjectGates_open [of d req]
    by (auto simp: ask_def require_def split: sum.splits if_splits)
qed

section \<open>Properties of the decision\<close>

text \<open>Dependencies that answer every question favourably and an engine that grants one object.\<close>

definition exDeps :: Deps where
  "exDeps = \<lparr>dpSubject = (\<lambda>_. Inr \<lparr>Found = True, LifecycleActive = True\<rparr>), dpKeycloak = (\<lambda>_. Inr KCTrue),
     dpPlatformRole = (\<lambda>_ _. Inr True), dpCompany = (\<lambda>_. Inr \<lparr>csExists = True, csActive = True\<rparr>),
     dpMembership = (\<lambda>_ _. Inr \<lparr>IsMember = True, Blocked = False\<rparr>), dpCompanyRole = (\<lambda>_ _ _. Inr True),
     dpModuleState = (\<lambda>_. Inr True),
     dpEngine = \<lparr>engCheck = (\<lambda>ot oi rel st si. Inr (oi = ''1'')), engCheckInCompany = None\<rparr>,
     dpModel = Some (\<lambda>ty rel. rel = ''company_module''), dpEligibility = None\<rparr>"

definition exRequest :: Request where
  "exRequest = \<lparr>rqSubjectID = ''u'', rqFeatureKey = ''docs.read'', rqModuleKey = ''docs'', rqScope = ScopeCompany,
     rqCompanyID = ''c'', rqRequiredPlatformRole = [], rqAllowPlatformOperatorCompanyScope = False,
     rqRequiredCompanyRole = [], rqObject = \<lparr>orType = ''doc'', orID = ''1''\<rparr>, rqRelation = ''viewer'',
     rqRequiresEligibility = False\<rparr>"

text \<open>C11. The evaluation with all its branches and evidence implements the ordered gates: its
  reason is that of the first closed gate, and it allows exactly when every gate is open. A
  dependency that errs closes its gate, so no failure is ever skipped over to an allow, and the
  decision then names that dependency and the step that asked it; every other decision names no
  dependency, so one is named exactly when the reason is that it was unavailable.\<close>

theorem Evaluate_refines:
  "dReason (Evaluate d req) = decide d req \<and> (Allowed (Evaluate d req) \<longleftrightarrow> decide d req = ReasonAllowed) \<and>
   (Dependency (Evaluate d req), Step (Evaluate d req)) = firstBlame (requestGates d req) (requestBlames req) \<and>
   (Dependency (Evaluate d req) \<noteq> [] \<longleftrightarrow> dReason (Evaluate d req) = ReasonDependencyUnavailable)"
  using Evaluate_wellMade [of d req] Evaluate_atFault [of d req] fault_iff_unavailable [of d req]
  by (simp add: wellMade_def atFault_def)

text \<open>C12. At company scope an allow means that every fact was established at that moment: the
  subject exists with an active lifecycle and is enabled in Keycloak, the company is active, the
  subject is an unblocked member or holds the operator role the request named, the module is
  enabled, and the requested relation was granted on an object bound to the company.\<close>

theorem Evaluate_company_allow:
  assumes "rqScope req = ScopeCompany" and "Allowed (Evaluate d req)"
  shows "(\<exists>s kc. dpSubject d (rqSubjectID req) = Inr s \<and> Found s \<and> LifecycleActive s \<and>
        dpKeycloak d (rqSubjectID req) = Inr kc \<and> kc \<noteq> KCUnknown \<and> kc \<noteq> KCFalse) \<and>
     (\<exists>cs. dpCompany d (rqCompanyID req) = Inr cs \<and> csExists cs \<and> csActive cs) \<and>
     ((rqAllowPlatformOperatorCompanyScope req \<and>
         dpPlatformRole d (rqSubjectID req) (rqRequiredPlatformRole req) = Inr True) \<or>
      (\<exists>ms. dpMembership d (rqCompanyID req) (rqSubjectID req) = Inr ms \<and> IsMember ms \<and> \<not> Blocked ms \<and>
         (rqRequiredCompanyRole req = [] \<or>
          dpCompanyRole d (rqCompanyID req) (rqSubjectID req) (rqRequiredCompanyRole req) = Inr True))) \<and>
     (rqModuleKey req = FoundationModuleKey \<or> dpModuleState d (rqModuleKey req) = Inr True) \<and>
     (rqRelation req = [] \<or> bindObject d req (rqObject req) = Inr True \<and>
        relationAnswer d req (rqObject req) (rqRelation req) = Inr True)"
  by (rule Evaluate_company_facts [OF assms])

theorem Evaluate_company_allow_witness:
  "\<exists>ms. dpMembership exDeps ''c'' ''u'' = Inr ms \<and> IsMember ms \<and>
     bindObject exDeps exRequest (rqObject exRequest) = Inr True"
proof -
  have "Allowed (Evaluate exDeps exRequest)" by code_simp
  from Evaluate_company_allow [OF _ this] show ?thesis by (auto simp: exRequest_def)
qed

text \<open>At global scope the platform role is the whole decision after the subject checks: an
  allow needs the role, and nothing else about the request can deny or grant it.\<close>

theorem Evaluate_global:
  assumes "rqScope req = ScopeGlobal"
  shows "Allowed (Evaluate d req) \<longleftrightarrow>
     (\<exists>s kc. dpSubject d (rqSubjectID req) = Inr s \<and> Found s \<and> LifecycleActive s \<and>
        dpKeycloak d (rqSubjectID req) = Inr kc \<and> kc \<noteq> KCUnknown \<and> kc \<noteq> KCFalse) \<and>
     dpPlatformRole d (rqSubjectID req) (rqRequiredPlatformRole req) = Inr True"
  by (rule Evaluate_global_iff [OF assms])

theorem Evaluate_global_witness:
  "Allowed (Evaluate exDeps (exRequest\<lparr>rqScope := ScopeGlobal\<rparr>))"
  by (subst Evaluate_global) (simp_all add: exRequest_def exDeps_def)

text \<open>The batch is a batching convenience at company scope: item by item, in order, it gives
  the outcome and the reason of the single decision for that object and relation.\<close>

theorem EvaluateBatch_agrees:
  assumes "rqScope base \<noteq> ScopeGlobal"
  shows "map (\<lambda>(it, dec). (it, Allowed dec, dReason dec)) (EvaluateBatch d base items) =
    map (\<lambda>it. let dec = Evaluate d (base\<lparr>rqObject := biObject it, rqRelation := biRelation it\<rparr>)
              in (it, Allowed dec, dReason dec)) items"
proof -
  have item: "Allowed dec = Allowed (Evaluate d (itemRequest base it)) \<and>
      dReason dec = dReason (Evaluate d (itemRequest base it))"
    if "(it, dec) \<in> set (EvaluateBatch d base items)" for it dec
    using EvaluateBatch_item [OF assms that] Evaluate_wellMade [of d "itemRequest base it"]
    by (simp add: wellMade_def)
  have "map (\<lambda>(it, dec). (it, Allowed dec, dReason dec)) (EvaluateBatch d base items) =
     map (\<lambda>(it, dec). (it, Allowed (Evaluate d (itemRequest base it)), dReason (Evaluate d (itemRequest base it))))
       (EvaluateBatch d base items)"
    using item by (intro map_cong) auto
  also have "\<dots> = map (\<lambda>it. (it, Allowed (Evaluate d (itemRequest base it)), dReason (Evaluate d (itemRequest base it))))
       (map fst (EvaluateBatch d base items))"
    by (simp add: case_prod_beta comp_def)
  finally show ?thesis by (simp add: EvaluateBatch_items itemRequest_def Let_def)
qed

theorem EvaluateBatch_agrees_witness:
  "map (\<lambda>(it, dec). (it, Allowed dec, dReason dec))
     (EvaluateBatch exDeps exRequest [\<lparr>biObject = \<lparr>orType = ''doc'', orID = ''2''\<rparr>, biRelation = ''viewer''\<rparr>]) =
   [(\<lparr>biObject = \<lparr>orType = ''doc'', orID = ''2''\<rparr>, biRelation = ''viewer''\<rparr>, False, ReasonEngineDenied)]"
proof -
  let ?req = "exRequest\<lparr>rqObject := \<lparr>orType = ''doc'', orID = ''2''\<rparr>, rqRelation := ''viewer''\<rparr>"
  have "\<not> Allowed (Evaluate exDeps ?req) \<and> dReason (Evaluate exDeps ?req) = ReasonEngineDenied"
    by code_simp
  then show ?thesis
    by (subst EvaluateBatch_agrees) (simp_all add: exRequest_def)
qed

text \<open>At global scope the two differ: the single decision stops at the platform role, the batch
  still runs the relation check of each item.\<close>

lemma EvaluateBatch_global_differs:
  "Allowed (Evaluate exDeps (exRequest\<lparr>rqScope := ScopeGlobal, rqObject := \<lparr>orType = ''doc'', orID = ''2''\<rparr>\<rparr>)) \<and>
   map (Allowed \<circ> snd) (EvaluateBatch exDeps (exRequest\<lparr>rqScope := ScopeGlobal\<rparr>)
     [\<lparr>biObject = \<lparr>orType = ''doc'', orID = ''2''\<rparr>, biRelation = ''viewer''\<rparr>]) = [False]"
  by code_simp

end
