(* ===== verification/Authz_Service.thy ===== *)
theory Authz_Service
  imports Decision_Core "HOL-Library.List_Lexorder" "HOL-Library.Char_ord"
begin

text \<open>
  The authz service around the decision: the clients of \<open>internal/authz/clients.go\<close> that
  answer its dependencies from identity, registry and org, the service wiring of
  \<open>service.go\<close>, the bearer check of \<open>token.go\<close>, the endpoints \<open>/can\<close> and
  \<open>/batch-can\<close> of \<open>http.go\<close>, and the access summary of \<open>summary.go\<close>. The other
  services, the token library and the database are fields of the environment record.
\<close>

section \<open>Responses of other services\<close>

text \<open>A call to another service fails in transport, or answers a status and a body; a body that
  does not decode is \<open>None\<close>.\<close>

datatype 'a httpResp = HttpFailed string | HttpStatus nat "'a option"

record userState =
  usLifecycle :: string
  usKCEnabled :: string

record membershipData =
  mdIsMember :: bool
  mdIsActive :: bool

record companyData =
  cdExists :: bool
  cdIsActive :: bool

record capability =
  capModule :: string
  capEnabled :: bool
  capServiceClientID :: string
  capExternal :: bool
  capFeatures :: "string list"

definition expectOK :: "string \<Rightarrow> 'a httpResp \<Rightarrow> (string, 'a) result" where
  "expectOK what resp = (case resp of
     HttpFailed e \<Rightarrow> Inl e
   | HttpStatus code body \<Rightarrow>
       if code \<noteq> 200 then Inl what else (case body of None \<Rightarrow> Inl what | Some b \<Rightarrow> Inr b))"

section \<open>Clients\<close>

definition fetchState :: "userState httpResp \<Rightarrow> (string, userState option) result" where
  "fetchState resp = (case resp of
     HttpFailed e \<Rightarrow> Inl e
   | HttpStatus code body \<Rightarrow>
       if code = 404 then Inr None
       else rbind (expectOK ''identity: GET user state'' resp) (\<lambda>st. Inr (Some st)))"

definition identity_Lookup :: "userState httpResp \<Rightarrow> (string, SubjectResult) result" where
  "identity_Lookup resp = rbind (fetchState resp) (\<lambda>st. Inr (case st of
     None \<Rightarrow> \<lparr>Found = False, LifecycleActive = False\<rparr>
   | Some s \<Rightarrow> \<lparr>Found = True, LifecycleActive = (usLifecycle s = ''active'')\<rparr>))"

definition identity_Enabled :: "userState httpResp \<Rightarrow> (string, string) result" where
  "identity_Enabled resp = rbind (fetchState resp) (\<lambda>st. Inr (case st of
     None \<Rightarrow> KCUnknown
   | Some s \<Rightarrow> if usKCEnabled s = ''true'' then KCTrue
               else if usKCEnabled s = ''false'' then KCFalse else KCUnknown))"

definition platformRole_HasRole :: "EngineChecker \<Rightarrow> string \<Rightarrow> string \<Rightarrow> (CheckError, bool) result" where
  "platformRole_HasRole checker subject role =
     (if role \<noteq> PlatformRoleSuperadmin then Inr False
      else let tp = SuperadminTuple subject in
        engCheck checker (ObjectType tp) (ObjectID tp) (Relation tp) (SubjectType tp) (SubjectID tp))"

definition registry_Enabled :: "bool httpResp \<Rightarrow> (string, bool) result" where
  "registry_Enabled resp = (case resp of
     HttpFailed e \<Rightarrow> Inl e
   | HttpStatus code body \<Rightarrow>
       if code = 404 then Inr False else expectOK ''registry: GET capability'' resp)"

definition registry_capabilities :: "capability list httpResp \<Rightarrow> (string, capability list) result" where
  "registry_capabilities resp = expectOK ''registry: GET capabilities'' resp"

definition AppFeatures :: "capability list httpResp \<Rightarrow> (string, (string, string list) gomap) result" where
  "AppFeatures resp = rbind (registry_capabilities resp) (\<lambda>caps. Inr (go_map
     (map (\<lambda>m. (capModule m, capFeatures m)) (filter (\<lambda>m. capExternal m \<or> capFeatures m \<noteq> []) caps))))"

definition AppOwners :: "capability list httpResp \<Rightarrow> (string, (string, string) gomap) result" where
  "AppOwners resp = rbind (registry_capabilities resp) (\<lambda>caps. Inr (go_map
     (map (\<lambda>m. (capModule m, capServiceClientID m)) (filter (\<lambda>m. capServiceClientID m \<noteq> []) caps))))"

definition registry_KnownEnabled :: "capability list httpResp \<Rightarrow> (string, (string, bool) gomap) result" where
  "registry_KnownEnabled resp = rbind (registry_capabilities resp) (\<lambda>caps. Inr (go_map
     (map (\<lambda>m. (capModule m, capEnabled m)) caps)))"

definition org_State :: "companyData httpResp \<Rightarrow> (string, CompanyState) result" where
  "org_State resp = rbind (expectOK ''org: GET company state'' resp) (\<lambda>d.
     Inr \<lparr>csExists = cdExists d, csActive = cdIsActive d\<rparr>)"

definition org_Membership :: "membershipData httpResp \<Rightarrow> (string, MembershipState) result" where
  "org_Membership resp = rbind (expectOK ''org: GET membership'' resp) (\<lambda>d. Inr
     (if \<not> mdIsMember d then \<lparr>IsMember = False, Blocked = False\<rparr>
      else \<lparr>IsMember = True, Blocked = \<not> mdIsActive d\<rparr>))"

definition companyRole_HasRole ::
  "EngineChecker \<Rightarrow> string \<Rightarrow> string \<Rightarrow> string \<Rightarrow> (CheckError, bool) result" where
  "companyRole_HasRole checker company subject role = engCheck checker ''company'' company role ''user'' subject"

section \<open>The service and its environment\<close>

text \<open>What one request sees. \<open>envParseJWT\<close> is the token library: the subject and the
  \<open>azp\<close> of a token that validates. \<open>envPool\<close> is what a direct read of the tuple table
  sees, \<open>envTuples\<close> what the engine's queries answer. A handler field that is not wired
  (\<open>nil\<close> in Go) is \<open>False\<close> in the flags.\<close>

record authzEnv =
  envParseJWT :: "string \<Rightarrow> (string option \<times> string) option"
  envIdentity :: "string \<Rightarrow> userState httpResp"
  envCapability :: "string \<Rightarrow> bool httpResp"
  envCapabilities :: "capability list httpResp"
  envCompany :: "string \<Rightarrow> companyData httpResp"
  envMembership :: "string \<Rightarrow> string \<Rightarrow> membershipData httpResp"
  envFragments :: "(string, Row list) result"
  envTuples :: tupleDB
  envPool :: "(string, authzDB) result"
  hasAppFeatures :: bool
  hasAppOwners :: bool

record Claims =
  clSubject :: string
  clClientID :: string

definition VerifyClaims :: "authzEnv \<Rightarrow> string \<Rightarrow> Claims option" where
  "VerifyClaims env token =
     (if token = [] then None
      else case envParseJWT env token of
        None \<Rightarrow> None
      | Some (sub, azp) \<Rightarrow>
          (case sub of None \<Rightarrow> None
           | Some s \<Rightarrow> if s = [] then None else Some \<lparr>clSubject = s, clClientID = azp\<rparr>))"

text \<open>An error envelope is its status and code.\<close>

type_synonym apiError = "nat \<times> string"

datatype 'a response = ErrorResponse apiError | DataResponse 'a

definition bearerClaims :: "authzEnv \<Rightarrow> string \<Rightarrow> (apiError, Claims) result" where
  "bearerClaims env header =
     (if \<not> hasPrefix header ''Bearer '' then Inl (401, ''AUTH_TOKEN_MISSING'')
      else case VerifyClaims env (trimPrefix header ''Bearer '') of
        None \<Rightarrow> Inl (401, ''AUTH_TOKEN_INVALID'')
      | Some c \<Rightarrow> Inr c)"

definition effectiveEngine :: "authzEnv \<Rightarrow> (string + LoadError, Loaded) result" where
  "effectiveEngine env =
     rbind (mapErr Inl (registry_KnownEnabled (envCapabilities env))) (\<lambda>known.
       mapErr Inr (Load (envFragments env) (map_of known)))"

definition fragmentEngineChecker :: "authzEnv \<Rightarrow> Loaded \<Rightarrow> EngineChecker" where
  "fragmentEngineChecker env l =
     \<lparr>engCheck = fragment_Check (envTuples env) l,
      engCheckInCompany = Some (\<lambda>company ot oi rel st si.
        fragment_CheckInCompany (envTuples env) l ot oi rel st si company)\<rparr>"

definition checker_Defines :: "Loaded \<Rightarrow> string \<Rightarrow> string \<Rightarrow> bool" where
  "checker_Defines l ty rel \<longleftrightarrow> relDef (lModel l) ty rel \<noteq> None"

definition serviceDeps :: "authzEnv \<Rightarrow> Loaded \<Rightarrow> Deps" where
  "serviceDeps env l =
     (let checker = fragmentEngineChecker env l in
      \<lparr>dpSubject = (\<lambda>s. identity_Lookup (envIdentity env s)),
       dpKeycloak = (\<lambda>s. identity_Enabled (envIdentity env s)),
       dpPlatformRole = platformRole_HasRole checker,
       dpCompany = (\<lambda>c. org_State (envCompany env c)),
       dpMembership = (\<lambda>c s. org_Membership (envMembership env c s)),
       dpCompanyRole = companyRole_HasRole checker,
       dpModuleState = (\<lambda>m. registry_Enabled (envCapability env m)),
       dpEngine = checker,
       dpModel = Some (checker_Defines l),
       dpEligibility = None\<rparr>)"

definition buildDeciderAndChecker :: "authzEnv \<Rightarrow> (string + LoadError, Deps \<times> Loaded) result" where
  "buildDeciderAndChecker env = rbind (effectiveEngine env) (\<lambda>l. Inr (serviceDeps env l, l))"

section \<open>Requests\<close>

record canRequestWire =
  cwActorOverride :: string
  cwFeatureKey :: string
  cwModuleKey :: string
  cwScope :: string
  cwCompanyID :: string
  cwRequiredPlatformRole :: string
  cwAllowPlatformOperator :: bool
  cwRequiredCompanyRole :: string
  cwObject :: ObjectRef
  cwRelation :: string
  cwRequiresEligibility :: bool

definition toDecisionRequest :: "canRequestWire \<Rightarrow> string \<Rightarrow> Request" where
  "toDecisionRequest w subject =
     \<lparr>rqSubjectID = subject, rqFeatureKey = cwFeatureKey w, rqModuleKey = cwModuleKey w,
      rqScope = (if cwScope w = ''global'' then ScopeGlobal else ScopeCompany),
      rqCompanyID = cwCompanyID w, rqRequiredPlatformRole = cwRequiredPlatformRole w,
      rqAllowPlatformOperatorCompanyScope = cwAllowPlatformOperator w,
      rqRequiredCompanyRole = cwRequiredCompanyRole w, rqObject = cwObject w, rqRelation = cwRelation w,
      rqRequiresEligibility = cwRequiresEligibility w\<rparr>"

definition writeDecision :: "(Decision \<Rightarrow> 'a) \<Rightarrow> Decision \<Rightarrow> 'a response" where
  "writeDecision wire d =
     (if dReason d = ReasonDependencyUnavailable then ErrorResponse (503, ''AUTHORIZATION_UNAVAILABLE'')
      else DataResponse (wire d))"

text \<open>The first segment of a feature key, when the key has a dot after its first character.\<close>

definition moduleOrFeaturePrefix :: "string \<Rightarrow> string \<Rightarrow> string" where
  "moduleOrFeaturePrefix moduleKey featureKey =
     (if moduleKey \<noteq> [] then moduleKey
      else let pre = takeWhile (\<lambda>c. c \<noteq> CHR ''.'') featureKey in
        if length pre < length featureKey \<and> 0 < length pre then pre else moduleKey)"

definition validateCanRequest :: "string \<Rightarrow> canRequestWire \<Rightarrow> (apiError, unit) result" where
  "validateCanRequest sub req =
     (if cwActorOverride req \<noteq> [] \<and> cwActorOverride req \<noteq> sub then Inl (400, ''BAD_REQUEST'')
      else if cwRequiresEligibility req then Inl (400, ''VALIDATION_ERROR'')
      else if cwScope req = ''global'' \<and> cwRequiredPlatformRole req = []
        then Inl (400, ''VALIDATION_ERROR'')
      else Inr ())"

definition featureDeclared :: "authzEnv \<Rightarrow> string \<Rightarrow> string list \<Rightarrow> (apiError, unit) result" where
  "featureDeclared env moduleKey featureKeys =
     (if moduleKey = [] \<or> \<not> hasAppFeatures env then Inr ()
      else case AppFeatures (envCapabilities env) of
        Inl _ \<Rightarrow> Inl (503, ''AUTHORIZATION_UNAVAILABLE'')
      | Inr apps \<Rightarrow>
          (case map_of apps moduleKey of
             None \<Rightarrow> Inr ()
           | Some declared \<Rightarrow>
               check_each (\<lambda>f. if f \<noteq> moduleKey @ ''.access'' \<and> f \<notin> set declared
                               then Inl (422, ''VALIDATION_FAILED'') else Inr ()) featureKeys))"

section \<open>Audit rows\<close>

record auditEvent =
  aeActor :: string
  aeAction :: string
  aeSubject :: string
  aePayload :: json

fun reasonText :: "Reason \<Rightarrow> string" where
  "reasonText ReasonAllowed = ''ALLOWED''"
| "reasonText ReasonAuthUserNotFound = ''AUTH_USER_NOT_FOUND''"
| "reasonText ReasonKeycloakDisabled = ''KEYCLOAK_DISABLED''"
| "reasonText ReasonUserLifecycleDisabled = ''USER_LIFECYCLE_DISABLED''"
| "reasonText ReasonCompanyInactive = ''COMPANY_INACTIVE''"
| "reasonText ReasonCompanyMembershipRequired = ''COMPANY_MEMBERSHIP_REQUIRED''"
| "reasonText ReasonCompanyAccessBlocked = ''COMPANY_ACCESS_BLOCKED''"
| "reasonText ReasonModuleDisabled = ''MODULE_DISABLED''"
| "reasonText ReasonPlatformRoleRequired = ''PLATFORM_ROLE_REQUIRED''"
| "reasonText ReasonCompanyRoleRequired = ''COMPANY_ROLE_REQUIRED''"
| "reasonText ReasonEngineDenied = ''ENGINE_DENIED''"
| "reasonText ReasonBusinessEligibilityDenied = ''BUSINESS_ELIGIBILITY_DENIED''"
| "reasonText ReasonDependencyUnavailable = ''DEPENDENCY_UNAVAILABLE''"

definition denialEvent :: "string \<Rightarrow> string \<Rightarrow> json \<Rightarrow> auditEvent" where
  "denialEvent actor featureKey payload =
     \<lparr>aeActor = actor, aeAction = ''authz.effective_access.denied'', aeSubject = featureKey, aePayload = payload\<rparr>"

definition auditDenial :: "string \<Rightarrow> string \<Rightarrow> Decision \<Rightarrow> auditEvent" where
  "auditDenial actor featureKey d = denialEvent actor featureKey
     (JObj [(''reason'', JStr (reasonText (dReason d))), (''featureKey'', JStr featureKey)])"

section \<open>The endpoints \<open>/can\<close> and \<open>/batch-can\<close>\<close>

text \<open>A handler answers a response and the audit rows it writes; \<open>Inl\<close> is an early return.\<close>

type_synonym 'a handled = "'a response \<times> auditEvent list"

definition reply :: "(apiError, 'a handled) result \<Rightarrow> 'a handled" where
  "reply x = (case x of Inl err \<Rightarrow> (ErrorResponse err, []) | Inr h \<Rightarrow> h)"

definition decodeBody :: "'b option \<Rightarrow> (apiError, 'b) result" where
  "decodeBody body = (case body of None \<Rightarrow> Inl (400, ''BAD_REQUEST'') | Some b \<Rightarrow> Inr b)"

definition internalError :: "'e \<Rightarrow> apiError" where
  "internalError _ = (500, ''INTERNAL_ERROR'')"

record decisionWire =
  dwAllowed :: bool
  dwReason :: string
  dwEvidence :: "Evidence list"

definition toDecisionWire :: "Decision \<Rightarrow> decisionWire" where
  "toDecisionWire d = \<lparr>dwAllowed = Allowed d, dwReason = reasonText (dReason d), dwEvidence = dEvidence d\<rparr>"

definition handleCan :: "authzEnv \<Rightarrow> string \<Rightarrow> canRequestWire option \<Rightarrow> decisionWire handled" where
  "handleCan env header body = reply (
     rbind (bearerClaims env header) (\<lambda>c.
     rbind (decodeBody body) (\<lambda>req.
     rbind (validateCanRequest (clSubject c) req) (\<lambda>_.
     let req = req\<lparr>cwModuleKey := moduleOrFeaturePrefix (cwModuleKey req) (cwFeatureKey req)\<rparr> in
     rbind (featureDeclared env (cwModuleKey req) [cwFeatureKey req]) (\<lambda>_.
     rbind (mapErr internalError (buildDeciderAndChecker env)) (\<lambda>(deps, l).
     let d = Evaluate deps (toDecisionRequest req (clSubject c)) in
     Inr (writeDecision toDecisionWire d,
          if Allowed d then [] else [auditDenial (clSubject c) (cwFeatureKey req) d])))))))"

definition maxBatchItems :: nat where
  "maxBatchItems = 100"

definition maxAuditedDenials :: nat where
  "maxAuditedDenials = 50"

definition deniedWire :: "decBatchItem \<times> Decision \<Rightarrow> json" where
  "deniedWire x = (case x of (it, d) \<Rightarrow>
     JObj [(''object'', JObj [(''type'', JStr (orType (biObject it))), (''id'', JStr (orID (biObject it)))]),
           (''relation'', JStr (biRelation it)), (''reason'', JStr (reasonText (dReason d)))])"

definition handleBatchCan ::
  "authzEnv \<Rightarrow> string \<Rightarrow> (canRequestWire \<times> decBatchItem list) option \<Rightarrow>
   (decBatchItem \<times> decisionWire) list handled" where
  "handleBatchCan env header body = reply (
     rbind (bearerClaims env header) (\<lambda>c.
     rbind (decodeBody body) (\<lambda>(req, items).
     rbind (validateCanRequest (clSubject c) req) (\<lambda>_.
     let req = req\<lparr>cwModuleKey := moduleOrFeaturePrefix (cwModuleKey req) (cwFeatureKey req)\<rparr> in
     rbind (featureDeclared env (cwModuleKey req) [cwFeatureKey req]) (\<lambda>_.
     if maxBatchItems < length items then Inl (400, ''VALIDATION_ERROR'')
     else
       rbind (mapErr internalError (buildDeciderAndChecker env)) (\<lambda>(deps, l).
       let results = EvaluateBatch deps (toDecisionRequest req (clSubject c)) items;
           denied = filter (\<lambda>(it, d). \<not> Allowed d) results;
           listed = take maxAuditedDenials denied;
           payload = JObj [(''featureKey'', JStr (cwFeatureKey req)),
             (''deniedCount'', JNum (itoa (length denied))), (''denied'', JArr (map deniedWire listed)),
             (''truncated'', JBool (length listed < length denied))]
       in Inr (DataResponse (map (\<lambda>(it, d). (it, toDecisionWire d)) results),
               if listed = [] then [] else [denialEvent (clSubject c) (cwFeatureKey req) payload])))))))"

section \<open>The access summary\<close>

definition summarySuperadminFeatureKey :: string where
  "summarySuperadminFeatureKey = ''auth.platform_administration.access''"

definition summarySuperadminRole :: string where
  "summarySuperadminRole = ''kiban-superadmin''"

definition summaryCompanyRelations :: "string list" where
  "summaryCompanyRelations = [''admin'', ''viewer'']"

definition plainRequest :: Request where
  "plainRequest = \<lparr>rqSubjectID = [], rqFeatureKey = [], rqModuleKey = [], rqScope = [], rqCompanyID = [],
     rqRequiredPlatformRole = [], rqAllowPlatformOperatorCompanyScope = False, rqRequiredCompanyRole = [],
     rqObject = \<lparr>orType = [], orID = []\<rparr>, rqRelation = [], rqRequiresEligibility = False\<rparr>"

definition superadminRequest :: "string \<Rightarrow> string \<Rightarrow> Request" where
  "superadminRequest subject featureKey = plainRequest\<lparr>rqSubjectID := subject, rqFeatureKey := featureKey,
     rqScope := ScopeGlobal, rqRequiredPlatformRole := summarySuperadminRole\<rparr>"

definition moduleAccessRequest :: "string \<Rightarrow> string \<Rightarrow> string \<Rightarrow> Request" where
  "moduleAccessRequest subject company moduleKey = plainRequest\<lparr>rqSubjectID := subject,
     rqFeatureKey := moduleKey @ ''.access'', rqModuleKey := moduleKey, rqScope := ScopeCompany,
     rqCompanyID := company\<rparr>"

definition summaryFeatureKeys :: "authzEnv \<Rightarrow> Deps \<Rightarrow> string \<Rightarrow> string \<Rightarrow> string list" where
  "summaryFeatureKeys env deps kcSub company =
     (let keys = (if dReason (Evaluate deps (superadminRequest kcSub summarySuperadminFeatureKey)) = ReasonAllowed
                  then [summarySuperadminFeatureKey] else []) in
      if company = [] then keys
      else case registry_KnownEnabled (envCapabilities env) of
        Inl _ \<Rightarrow> keys
      | Inr known \<Rightarrow>
          keys @ map (\<lambda>m. m @ ''.access'')
            (filter (\<lambda>m. dReason (Evaluate deps (moduleAccessRequest kcSub company m)) = ReasonAllowed)
              (sort (map fst (filter snd known)))))"

definition summaryRoleBindings :: "EngineChecker \<Rightarrow> string \<Rightarrow> string \<Rightarrow> (string \<times> string \<times> string) list" where
  "summaryRoleBindings checker kcSub company =
     (if platformRole_HasRole checker kcSub summarySuperadminRole = Inr True
      then [(''global'', [], summarySuperadminRole)] else []) @
     (if company = [] then []
      else map (\<lambda>role. (''company'', company, role))
        (filter (\<lambda>role. engCheck checker ''company'' company role ''user'' kcSub = Inr True)
          summaryCompanyRelations))"

text \<open>The loop that groups the listed tuples by object, in order of first appearance.\<close>

type_synonym objectAccess = "((string \<times> string) \<times> string list) list"

definition addRelation :: "objectAccess \<Rightarrow> ObjectRelation \<Rightarrow> objectAccess" where
  "addRelation acc x = (case x of (ot, oi, rel) \<Rightarrow>
     if (ot, oi) \<in> fst ` set acc
     then map (\<lambda>(k, rels). (k, if k = (ot, oi) then rels @ [rel] else rels)) acc
     else acc @ [((ot, oi), [rel])])"

definition summaryObjectAccess ::
  "(ObjectRelation list \<Rightarrow> ObjectRelation list) \<Rightarrow> authzDB \<Rightarrow> string \<Rightarrow> objectAccess" where
  "summaryObjectAccess orderBy db kcSub =
     foldl addRelation [] (ListDirectTuplesForSubject orderBy db ''user'' kcSub)"

record accessSummary =
  asSubject :: string
  asCompany :: string
  asFeatureKeys :: "string list"
  asRoleBindings :: "(string \<times> string \<times> string) list"
  asObjectAccess :: objectAccess

definition handleSummary ::
  "(ObjectRelation list \<Rightarrow> ObjectRelation list) \<Rightarrow> authzEnv \<Rightarrow> string \<Rightarrow> string \<Rightarrow> accessSummary handled" where
  "handleSummary orderBy env kcSub company = reply (
     if kcSub = [] then Inl (400, ''BAD_REQUEST'')
     else
       rbind (mapErr internalError (buildDeciderAndChecker env)) (\<lambda>(deps, l).
       rbind (mapErr internalError (envPool env)) (\<lambda>db.
       Inr (DataResponse \<lparr>asSubject = kcSub, asCompany = company,
              asFeatureKeys = summaryFeatureKeys env deps kcSub company,
              asRoleBindings = summaryRoleBindings (dpEngine deps) kcSub company,
              asObjectAccess = summaryObjectAccess orderBy db kcSub\<rparr>, []))))"

section \<open>The diagnostics check\<close>

definition handleDebugCheck ::
  "authzEnv \<Rightarrow> string \<Rightarrow> (string \<times> string \<times> string \<times> string \<times> string) option \<Rightarrow> bool handled" where
  "handleDebugCheck env header body = reply (
     rbind (bearerClaims env header) (\<lambda>c.
     rbind (decodeBody body) (\<lambda>(ot, oi, rel, st, si).
     rbind (mapErr internalError (effectiveEngine env)) (\<lambda>l.
       case fragment_Check (envTuples env) l ot oi rel st si of
         Inl _ \<Rightarrow> Inl (422, ''VALIDATION_FAILED'')
       | Inr allowed \<Rightarrow> Inr (DataResponse allowed, [])))))"

section \<open>What an answer of the service means\<close>

lemma reply_Data: "reply x = (DataResponse w, ev) \<longleftrightarrow> x = Inr (DataResponse w, ev)"
  by (auto simp: reply_def split: sum.splits)

lemma decodeBody_Inr [simp]: "decodeBody body = Inr b \<longleftrightarrow> body = Some b"
  by (auto simp: decodeBody_def split: option.splits)

lemma validateCanRequest_Inr [simp]:
  "validateCanRequest sub req = Inr u \<longleftrightarrow> (cwActorOverride req = [] \<or> cwActorOverride req = sub) \<and>
     \<not> cwRequiresEligibility req \<and> \<not> (cwScope req = ''global'' \<and> cwRequiredPlatformRole req = [])"
  by (auto simp: validateCanRequest_def)

lemma buildDeciderAndChecker_Inr [simp]:
  "buildDeciderAndChecker env = Inr (deps, l) \<longleftrightarrow> effectiveEngine env = Inr l \<and> deps = serviceDeps env l"
  by (auto simp: buildDeciderAndChecker_def rbind_Inr_iff)

lemma writeDecision_Data [simp]:
  "writeDecision f d = DataResponse w \<longleftrightarrow> dReason d \<noteq> ReasonDependencyUnavailable \<and> w = f d"
  by (auto simp: writeDecision_def)

text \<open>The request as \<open>/can\<close> evaluates it, with the module key filled in.\<close>

definition canRequest :: "canRequestWire \<Rightarrow> string \<Rightarrow> Request" where
  "canRequest req sub = toDecisionRequest
     (req\<lparr>cwModuleKey := moduleOrFeaturePrefix (cwModuleKey req) (cwFeatureKey req)\<rparr>) sub"

lemma handleCan_Data:
  "handleCan env header body = (DataResponse w, ev) \<longleftrightarrow>
     (\<exists>c req l. bearerClaims env header = Inr c \<and> body = Some req \<and>
        validateCanRequest (clSubject c) req = Inr () \<and>
        featureDeclared env (moduleOrFeaturePrefix (cwModuleKey req) (cwFeatureKey req)) [cwFeatureKey req] = Inr () \<and>
        effectiveEngine env = Inr l \<and>
        dReason (Evaluate (serviceDeps env l) (canRequest req (clSubject c))) \<noteq> ReasonDependencyUnavailable \<and>
        w = toDecisionWire (Evaluate (serviceDeps env l) (canRequest req (clSubject c))) \<and>
        ev = (if Allowed (Evaluate (serviceDeps env l) (canRequest req (clSubject c))) then []
              else [auditDenial (clSubject c) (cwFeatureKey req)
                (Evaluate (serviceDeps env l) (canRequest req (clSubject c)))]))"
  unfolding handleCan_def reply_Data canRequest_def
  by (simp add: rbind_Inr_iff Let_def split_paired_Ex split_beta cong: if_cong) (auto split: if_splits)

lemma expectOK_Inr: "expectOK what resp = Inr b \<longleftrightarrow> resp = HttpStatus 200 (Some b)"
  by (auto simp: expectOK_def split: httpResp.splits option.splits if_splits)

lemma identity_active:
  assumes "identity_Lookup resp = Inr s" "Found s" "LifecycleActive s"
    and "identity_Enabled resp = Inr kc" "kc \<noteq> KCUnknown" "kc \<noteq> KCFalse"
  shows "\<exists>u. resp = HttpStatus 200 (Some u) \<and> usLifecycle u = ''active'' \<and> usKCEnabled u = ''true''"
  using assms
  by (auto simp: identity_Lookup_def identity_Enabled_def fetchState_def rbind_Inr_iff expectOK_Inr
      split: httpResp.splits if_splits option.splits)

lemma org_State_active:
  "org_State resp = Inr cs \<Longrightarrow> csExists cs \<Longrightarrow> csActive cs \<Longrightarrow>
   \<exists>d. resp = HttpStatus 200 (Some d) \<and> cdExists d \<and> cdIsActive d"
  by (auto simp: org_State_def rbind_Inr_iff expectOK_Inr)

lemma org_Membership_active:
  "org_Membership resp = Inr ms \<Longrightarrow> IsMember ms \<Longrightarrow> \<not> Blocked ms \<Longrightarrow>
   \<exists>d. resp = HttpStatus 200 (Some d) \<and> mdIsMember d \<and> mdIsActive d"
  by (auto simp: org_Membership_def rbind_Inr_iff expectOK_Inr split: if_splits)

lemma registry_Enabled_True: "registry_Enabled resp = Inr True \<Longrightarrow> resp = HttpStatus 200 (Some True)"
  by (auto simp: registry_Enabled_def expectOK_def split: httpResp.splits if_splits option.splits)

text \<open>The engine behind the service: a true answer of the fragment-aware checker is a grant of the
  effective model over the tuple table.\<close>

lemma fragment_CheckInCompany_granted:
  assumes "nulFreeRows R" "nulFreeModel (lModel l)" "nulFreeNode (ot, oi, rel)"
    and "\<And>ot oi rel. answers R ot oi rel (db ot oi rel)"
    and "fragment_CheckInCompany db l ot oi rel st si cid = Inr True"
  shows "granted R (lModel l) (st, si) cid {} (ot, oi, rel)"
  using assms(5) CheckInCompany_sound [OF assms(1-4)]
  by (auto simp: fragment_CheckInCompany_def split: if_splits)

lemma fragment_Check_granted:
  assumes "nulFreeRows R" "nulFreeModel (lModel l)" "nulFreeNode (ot, oi, rel)"
    and "\<And>ot oi rel. answers R ot oi rel (db ot oi rel)"
    and "fragment_Check db l ot oi rel st si = Inr True"
  shows "granted R (lModel l) (st, si) [] {} (ot, oi, rel)"
  using assms(5) CheckInCompany_sound [OF assms(1-4), of st si "[]"]
  by (auto simp: fragment_Check_def CheckInCompany_no_company split: if_splits)

text \<open>The object belongs to the company and module of the request.\<close>

definition boundToCompany ::
  "tupleRel \<Rightarrow> Model \<Rightarrow> string \<Rightarrow> string \<Rightarrow> string \<Rightarrow> string \<Rightarrow> bool" where
  "boundToCompany R M ty oi cid mk \<longleftrightarrow>
     (if ty = ''company'' then oi = cid
      else if ty = ''company_module'' then oi = cid @ ''/'' @ mk
      else if relDef M ty ''company'' \<noteq> None
        then granted R M (''company'', cid) [] {} (ty, oi, ''company'')
      else relDef M ty ''company_module'' \<noteq> None \<and>
        granted R M (''company_module'', cid @ ''/'' @ mk) [] {} (ty, oi, ''company_module''))"

lemma bindObject_bound:
  assumes "nulFreeRows R" "nulFreeModel (lModel l)" "nul_free (orType obj)" "nul_free (orID obj)"
    and "\<And>ot oi rel. answers R ot oi rel (envTuples env ot oi rel)"
    and "bindObject (serviceDeps env l) req obj = Inr True"
  shows "boundToCompany R (lModel l) (orType obj) (orID obj) (rqCompanyID req) (rqModuleKey req)"
proof -
  have nf: "nulFreeNode (orType obj, orID obj, ''company'')" "nulFreeNode (orType obj, orID obj, ''company_module'')"
    using assms(3,4) by (simp_all add: nul_free_def nul_def)
  note grant = fragment_Check_granted [OF assms(1,2) nf(1) assms(5)] fragment_Check_granted [OF assms(1,2) nf(2) assms(5)]
  show ?thesis
    using assms(6) grant
    by (auto simp: bindObject_def serviceDeps_def modelDefines_def checker_Defines_def
        fragmentEngineChecker_def boundToCompany_def Let_def split: if_splits)
qed

text \<open>The grouping loop of the summary keeps one entry per object, with the object's relations in
  listing order.\<close>

definition objectOf :: "ObjectRelation \<Rightarrow> string \<times> string" where
  "objectOf x = (fst x, fst (snd x))"

lemma addRelation_alt:
  "addRelation acc x =
     (if objectOf x \<in> fst ` set acc
      then map (\<lambda>(k, rels). (k, if k = objectOf x then rels @ [snd (snd x)] else rels)) acc
      else acc @ [(objectOf x, [snd (snd x)])])"
  by (simp add: addRelation_def objectOf_def split_beta)

lemma foldl_addRelation:
  "distinct (map fst (foldl addRelation [] xs)) \<and>
   set (foldl addRelation [] xs) =
     (\<lambda>k. (k, map (\<lambda>x. snd (snd x)) (filter (\<lambda>x. objectOf x = k) xs))) ` objectOf ` set xs"
proof (induction xs rule: rev_induct)
  case (snoc x xs)
  define acc where "acc = foldl addRelation [] xs"
  let ?g = "\<lambda>xs k. (k, map (\<lambda>x. snd (snd x)) (filter (\<lambda>y. objectOf y = k) xs))"
  have d: "distinct (map fst acc)" and s: "set acc = ?g xs ` objectOf ` set xs"
    unfolding acc_def using snoc by blast+
  have keys: "fst ` set acc = objectOf ` set xs" unfolding s by (simp add: image_image)
  have step: "foldl addRelation [] (xs @ [x]) = addRelation acc x" by (simp add: acc_def)
  have same: "map fst (map (\<lambda>(k, rels). (k, if k = objectOf x then rels @ [snd (snd x)] else rels)) acc) = map fst acc"
    by (simp add: split_beta)
  show ?case
  proof (cases "objectOf x \<in> objectOf ` set xs")
    case True
    then have acc': "addRelation acc x = map (\<lambda>(k, rels). (k, if k = objectOf x then rels @ [snd (snd x)] else rels)) acc"
      by (simp add: addRelation_alt keys)
    have "set (addRelation acc x) = ?g (xs @ [x]) ` objectOf ` set xs"
      unfolding acc' set_map s image_image by (rule image_cong) auto
    then have "set (addRelation acc x) = ?g (xs @ [x]) ` objectOf ` set (xs @ [x])"
      using True by (simp add: insert_absorb)
    moreover have "distinct (map fst (addRelation acc x))" using d unfolding acc' same .
    ultimately show ?thesis unfolding step by blast
  next
    case False
    then have acc': "addRelation acc x = acc @ [(objectOf x, [snd (snd x)])]"
      by (simp add: addRelation_alt keys)
    have "filter (\<lambda>y. objectOf y = objectOf x) xs = []" unfolding filter_empty_conv using False by (metis imageI)
    then have "?g (xs @ [x]) (objectOf x) = (objectOf x, [snd (snd x)])" by simp
    moreover have "?g (xs @ [x]) ` objectOf ` set xs = ?g xs ` objectOf ` set xs"
      using False by (intro image_cong) auto
    ultimately have "set (addRelation acc x) = ?g (xs @ [x]) ` objectOf ` set (xs @ [x])"
      unfolding acc' by (simp only: set_append s image_Un list.set image_insert image_empty)
    moreover have "distinct (map fst (addRelation acc x))" using d False keys by (simp add: acc')
    ultimately show ?thesis unfolding step by blast
  qed
qed simp

text \<open>A company with one document, and the tables a request reads.\<close>

definition exServiceDB :: authzDB where
  "exServiceDB = emptyDB\<lparr>tupleTab := [SuperadminTuple ''root'', companyAnchorTuple ''acme'' ''docs'',
     \<lparr>ObjectType = ''doc'', ObjectID = ''1'', Relation = ''company_module'', SubjectType = ''company_module'',
       SubjectID = ''acme/docs'', SubjectRelation = []\<rparr>,
     \<lparr>ObjectType = ''doc'', ObjectID = ''1'', Relation = ''owner'', SubjectType = ''user'',
       SubjectID = ''alice'', SubjectRelation = []\<rparr>]\<rparr>"

text \<open>An environment whose services all answer and whose queries read the given tables.\<close>

definition exEnv :: "authzDB \<Rightarrow> authzEnv" where
  "exEnv db = \<lparr>envParseJWT = (\<lambda>t. Some (Some t, [])),
     envIdentity = (\<lambda>_. HttpStatus 200 (Some \<lparr>usLifecycle = ''active'', usKCEnabled = ''true''\<rparr>)),
     envCapability = (\<lambda>m. HttpStatus 200 (Some (m = ''docs''))),
     envCapabilities = HttpStatus 200 (Some [
       \<lparr>capModule = ''docs'', capEnabled = True, capServiceClientID = [], capExternal = False, capFeatures = []\<rparr>,
       \<lparr>capModule = ''helpdesk'', capEnabled = False, capServiceClientID = [], capExternal = False, capFeatures = []\<rparr>]),
     envCompany = (\<lambda>_. HttpStatus 200 (Some \<lparr>cdExists = True, cdIsActive = True\<rparr>)),
     envMembership = (\<lambda>c s. HttpStatus 200 (Some \<lparr>mdIsMember = (s = ''alice''), mdIsActive = True\<rparr>)),
     envFragments = Inr exRows, envTuples = tableDB (storeRows db), envPool = Inr db,
     hasAppFeatures = True, hasAppOwners = True\<rparr>"

definition exCan :: canRequestWire where
  "exCan = \<lparr>cwActorOverride = [], cwFeatureKey = ''docs.read'', cwModuleKey = [], cwScope = ''company'',
     cwCompanyID = ''acme'', cwRequiredPlatformRole = [], cwAllowPlatformOperator = False,
     cwRequiredCompanyRole = [], cwObject = \<lparr>orType = ''doc'', orID = ''1''\<rparr>, cwRelation = ''viewer'',
     cwRequiresEligibility = False\<rparr>"

definition exDoc :: Model where
  "exDoc = [(''doc'', [(''company_module'', kindThis), (''owner'', kindThis),
      (''viewer'', kindUnion [kindThis, kindComputedUserset ''owner''])])]"

definition exLoaded :: Loaded where
  "exLoaded = \<lparr>lModel = BaseModel @ exDoc, AllowedTypes = set (map fst BaseModel) \<union> {''doc''} \<union> {''ticket''},
     TypeOwner = [''doc'' \<mapsto> ''docs''], KnownEnabled = exKnown\<rparr>"

lemma exDoc_loads:
  "LoadModel (Fragment (exRows ! 0)) = Inr exDoc" "Merge BaseModel exDoc = Inr (BaseModel @ exDoc)"
  "ValidateCompanyModuleAnchor exDoc = Inr ()" "\<not> IsBaseType ''doc''"
  "ValidateTupleToUsersetTargets (BaseModel @ exDoc) = Inr ()"
  by code_simp+

lemma exDoc_types: "map fst exDoc = [''doc'']" by (simp add: exDoc_def)

lemma exRows_fields:
  "ModuleKey (exRows ! 0) = ''docs''" "ModuleKey (exRows ! Suc 0) = ''helpdesk''" "Active (exRows ! 0)"
  "harvestTypeNames (Fragment (exRows ! 0)) = Some [''doc'']"
  "harvestTypeNames (Fragment (exRows ! Suc 0)) = Some [''ticket'']" "exRows = [exRows ! 0, exRows ! Suc 0]"
  by (simp_all add: exRows_def harvestTypeNames_def)

lemma exLoaded: "Load (Inr exRows) exKnown = Inr exLoaded"
proof -
  have known: "exKnown ''docs'' = Some True" "exKnown ''helpdesk'' = Some False" by (simp_all add: exKnown_def)
  have "loadRows exKnown BaseModel (set (map fst BaseModel)) Map.empty exRows =
     Inr (BaseModel @ exDoc, set (map fst BaseModel) \<union> {''doc''} \<union> {''ticket''}, [''doc'' \<mapsto> ''docs''])"
    by (subst exRows_fields(6)) (simp add: exRows_fields(1-5) exDoc_loads exDoc_types known mapErr_def Let_def)
  then show ?thesis by (simp add: Load_def exDoc_loads exLoaded_def mapErr_def)
qed

lemma exEnv_effective: "effectiveEngine (exEnv db) = Inr exLoaded"
proof -
  have "map_of (go_map [(''docs'', True), (''helpdesk'', False)]) = exKnown"
    by (auto simp: exKnown_def fun_eq_iff)
  then show ?thesis
    by (simp add: effectiveEngine_def exEnv_def registry_KnownEnabled_def registry_capabilities_def
        expectOK_def exLoaded mapErr_def)
qed

lemma exCan_allowed:
  "dReason (Evaluate (serviceDeps (exEnv exServiceDB) exLoaded) (canRequest exCan ''alice'')) = ReasonAllowed"
  by code_simp

lemma exCan_Data:
  "handleCan (exEnv exServiceDB) ''Bearer alice'' (Some exCan) =
     (DataResponse (toDecisionWire (Evaluate (serviceDeps (exEnv exServiceDB) exLoaded) (canRequest exCan ''alice''))), [])"
proof -
  let ?d = "Evaluate (serviceDeps (exEnv exServiceDB) exLoaded) (canRequest exCan ''alice'')"
  have "Allowed ?d" using exCan_allowed wellMadeD [OF Evaluate_wellMade] by metis
  moreover have "bearerClaims (exEnv exServiceDB) ''Bearer alice'' = Inr \<lparr>clSubject = ''alice'', clClientID = []\<rparr>"
    "featureDeclared (exEnv exServiceDB) (moduleOrFeaturePrefix (cwModuleKey exCan) (cwFeatureKey exCan))
       [cwFeatureKey exCan] = Inr ()" by code_simp+
  ultimately show ?thesis
    unfolding handleCan_Data using exEnv_effective exCan_allowed
    by (intro exI [of _ "\<lparr>clSubject = ''alice'', clClientID = []\<rparr>"] exI [of _ exCan] exI [of _ exLoaded])
      (simp add: exCan_def)
qed

lemma exService_nulFree:
  "nulFreeRows (rowsOf (storeRows exServiceDB))" "nulFreeModel (lModel exLoaded)"
proof -
  show "nulFreeRows (rowsOf (storeRows exServiceDB))"
    by (simp add: nulFreeRows_rowsOf storeRows_def exServiceDB_def emptyDB_def SuperadminTuple_def
        companyAnchorTuple_def nulFreeRow_def nul_free_def nul_def)
  show "nulFreeModel (lModel exLoaded)"
    using BaseModel_nulFree(1) by (simp add: exLoaded_def exDoc_def nulFreeModel_def nul_free_def nul_def)
qed

section \<open>Properties of the endpoints\<close>

text \<open>The platform role of a subject is the engine's grant of the superadmin relation on the system
  object.\<close>

definition isSuperadmin :: "tupleRel \<Rightarrow> Model \<Rightarrow> string \<Rightarrow> bool" where
  "isSuperadmin R M sub \<longleftrightarrow> granted R M (''user'', sub) [] {} (''system'', SystemPlatformID, ''superadmin'')"

lemma superadmin_granted:
  assumes "nulFreeRows R" "nulFreeModel (lModel l)" "\<And>ot oi rel. answers R ot oi rel (envTuples env ot oi rel)"
    and "platformRole_HasRole (fragmentEngineChecker env l) sub role = Inr True"
  shows "isSuperadmin R (lModel l) sub"
proof -
  have "nulFreeNode (''system'', SystemPlatformID, ''superadmin'')"
    by (simp add: SystemPlatformID_def nul_free_def nul_def)
  from fragment_Check_granted [OF assms(1,2) this assms(3)] assms(4) show ?thesis
    unfolding isSuperadmin_def platformRole_HasRole_def
    by (simp add: SuperadminTuple_def fragmentEngineChecker_def Let_def split: if_splits)
qed

lemma can_allow_facts:
  assumes "handleCan env header (Some req) = (DataResponse w, ev)" and "dwAllowed w"
    and "cwScope req \<noteq> ''global''"
    and "nulFreeRows R" "\<And>ot oi rel. answers R ot oi rel (envTuples env ot oi rel)"
    and "\<And>l. effectiveEngine env = Inr l \<Longrightarrow> nulFreeModel (lModel l)"
    and "nul_free (orType (cwObject req))" "nul_free (orID (cwObject req))" "nul_free (cwRelation req)"
  shows "\<exists>c l mk. bearerClaims env header = Inr c \<and> effectiveEngine env = Inr l \<and>
     mk = moduleOrFeaturePrefix (cwModuleKey req) (cwFeatureKey req) \<and>
     (\<exists>u. envIdentity env (clSubject c) = HttpStatus 200 (Some u) \<and>
        usLifecycle u = ''active'' \<and> usKCEnabled u = ''true'') \<and>
     (\<exists>d. envCompany env (cwCompanyID req) = HttpStatus 200 (Some d) \<and> cdExists d \<and> cdIsActive d) \<and>
     (cwAllowPlatformOperator req \<and> cwRequiredPlatformRole req = PlatformRoleSuperadmin \<and>
        isSuperadmin R (lModel l) (clSubject c) \<or>
      (\<exists>d. envMembership env (cwCompanyID req) (clSubject c) = HttpStatus 200 (Some d) \<and>
         mdIsMember d \<and> mdIsActive d)) \<and>
     (mk = FoundationModuleKey \<or> envCapability env mk = HttpStatus 200 (Some True)) \<and>
     (cwRelation req = [] \<or>
        boundToCompany R (lModel l) (orType (cwObject req)) (orID (cwObject req)) (cwCompanyID req) mk \<and>
        granted R (lModel l) (''user'', clSubject c) (cwCompanyID req) {}
          (orType (cwObject req), orID (cwObject req), cwRelation req))"
proof -
  let ?mk = "moduleOrFeaturePrefix (cwModuleKey req) (cwFeatureKey req)"
  obtain c l where c: "bearerClaims env header = Inr c" and l: "effectiveEngine env = Inr l"
    and w: "w = toDecisionWire (Evaluate (serviceDeps env l) (canRequest req (clSubject c)))"
    using assms(1) unfolding handleCan_Data by auto
  have nf: "nulFreeModel (lModel l)" by (rule assms(6) [OF l])
  let ?d = "serviceDeps env l" and ?rq = "canRequest req (clSubject c)"
  have rq: "rqScope ?rq = ScopeCompany" "rqSubjectID ?rq = clSubject c" "rqCompanyID ?rq = cwCompanyID req"
      "rqModuleKey ?rq = ?mk" "rqObject ?rq = cwObject req" "rqRelation ?rq = cwRelation req"
      "rqAllowPlatformOperatorCompanyScope ?rq = cwAllowPlatformOperator req"
      "rqRequiredPlatformRole ?rq = cwRequiredPlatformRole req"
    using assms(3) by (simp_all add: canRequest_def toDecisionRequest_def)
  have "Allowed (Evaluate ?d ?rq)" using assms(2) w by (simp add: toDecisionWire_def)
  note facts = Evaluate_company_facts [OF rq(1) this, unfolded rq]
  have deps: "dpSubject ?d = (\<lambda>s. identity_Lookup (envIdentity env s))"
      "dpKeycloak ?d = (\<lambda>s. identity_Enabled (envIdentity env s))"
      "dpPlatformRole ?d = platformRole_HasRole (fragmentEngineChecker env l)"
      "dpCompany ?d = (\<lambda>c. org_State (envCompany env c))"
      "dpMembership ?d = (\<lambda>c s. org_Membership (envMembership env c s))"
      "dpModuleState ?d = (\<lambda>m. registry_Enabled (envCapability env m))"
    by (simp_all add: serviceDeps_def Let_def)
  have 1: "\<exists>u. envIdentity env (clSubject c) = HttpStatus 200 (Some u) \<and>
        usLifecycle u = ''active'' \<and> usKCEnabled u = ''true''"
    using facts identity_active unfolding deps by blast
  have 2: "\<exists>d. envCompany env (cwCompanyID req) = HttpStatus 200 (Some d) \<and> cdExists d \<and> cdIsActive d"
    using facts org_State_active unfolding deps by blast
  have 3: "cwAllowPlatformOperator req \<and> cwRequiredPlatformRole req = PlatformRoleSuperadmin \<and>
        isSuperadmin R (lModel l) (clSubject c) \<or>
      (\<exists>d. envMembership env (cwCompanyID req) (clSubject c) = HttpStatus 200 (Some d) \<and>
         mdIsMember d \<and> mdIsActive d)"
  proof -
    have "cwRequiredPlatformRole req = PlatformRoleSuperadmin"
      if "platformRole_HasRole (fragmentEngineChecker env l) (clSubject c) (cwRequiredPlatformRole req) = Inr True"
      using that by (simp add: platformRole_HasRole_def split: if_splits)
    then show ?thesis
      using facts org_Membership_active superadmin_granted [OF assms(4) nf assms(5)] unfolding deps by blast
  qed
  have 4: "?mk = FoundationModuleKey \<or> envCapability env ?mk = HttpStatus 200 (Some True)"
    using facts registry_Enabled_True unfolding deps by blast
  have 5: "boundToCompany R (lModel l) (orType (cwObject req)) (orID (cwObject req)) (cwCompanyID req) ?mk \<and>
        granted R (lModel l) (''user'', clSubject c) (cwCompanyID req) {}
          (orType (cwObject req), orID (cwObject req), cwRelation req)"
    if "cwRelation req \<noteq> []"
  proof
    from facts that have b: "bindObject ?d ?rq (cwObject req) = Inr True"
      and a: "relationAnswer ?d ?rq (cwObject req) (cwRelation req) = Inr True" by auto
    show "boundToCompany R (lModel l) (orType (cwObject req)) (orID (cwObject req)) (cwCompanyID req) ?mk"
      using bindObject_bound [OF assms(4) nf assms(7,8,5) b] by (simp only: rq)
    have "fragment_CheckInCompany (envTuples env) l (orType (cwObject req)) (orID (cwObject req)) (cwRelation req)
        ''user'' (clSubject c) (cwCompanyID req) = Inr True"
      using a by (simp add: relationAnswer_def serviceDeps_def fragmentEngineChecker_def rq Let_def)
    then show "granted R (lModel l) (''user'', clSubject c) (cwCompanyID req) {}
          (orType (cwObject req), orID (cwObject req), cwRelation req)"
      using fragment_CheckInCompany_granted [OF assms(4) nf _ assms(5)] assms(7-9) by simp
  qed
  from c l 1 2 3 4 5 show ?thesis by blast
qed

text \<open>C13. What an allow of \<open>/can\<close> at company scope establishes, down to the tuple table and
  the other services: the subject is the validated bearer, identity reports it active and enabled,
  org reports the company active and the bearer an active member, or else the request takes the
  operator exception for the superadmin role and the effective model grants the bearer that role on
  the system object; registry reports the module enabled, and when a relation was asked for, the
  object is bound to the company and the effective model grants the bearer that relation within
  the company.\<close>

theorem can_allow_means:
  assumes "handleCan env header (Some req) = (DataResponse w, ev)" and "dwAllowed w"
    and "cwScope req \<noteq> ''global''"
    and "nulFreeRows R" "\<And>ot oi rel. answers R ot oi rel (envTuples env ot oi rel)"
    and "\<And>l. effectiveEngine env = Inr l \<Longrightarrow> nulFreeModel (lModel l)"
    and "nul_free (orType (cwObject req))" "nul_free (orID (cwObject req))" "nul_free (cwRelation req)"
  shows "\<exists>c l mk. bearerClaims env header = Inr c \<and> effectiveEngine env = Inr l \<and>
     mk = moduleOrFeaturePrefix (cwModuleKey req) (cwFeatureKey req) \<and>
     (\<exists>u. envIdentity env (clSubject c) = HttpStatus 200 (Some u) \<and>
        usLifecycle u = ''active'' \<and> usKCEnabled u = ''true'') \<and>
     (\<exists>d. envCompany env (cwCompanyID req) = HttpStatus 200 (Some d) \<and> cdExists d \<and> cdIsActive d) \<and>
     (cwAllowPlatformOperator req \<and> cwRequiredPlatformRole req = PlatformRoleSuperadmin \<and>
        isSuperadmin R (lModel l) (clSubject c) \<or>
      (\<exists>d. envMembership env (cwCompanyID req) (clSubject c) = HttpStatus 200 (Some d) \<and>
         mdIsMember d \<and> mdIsActive d)) \<and>
     (mk = FoundationModuleKey \<or> envCapability env mk = HttpStatus 200 (Some True)) \<and>
     (cwRelation req = [] \<or>
        boundToCompany R (lModel l) (orType (cwObject req)) (orID (cwObject req)) (cwCompanyID req) mk \<and>
        granted R (lModel l) (''user'', clSubject c) (cwCompanyID req) {}
          (orType (cwObject req), orID (cwObject req), cwRelation req))"
  using assms by (rule can_allow_facts)

theorem can_allow_means_witness:
  "granted (rowsOf (storeRows exServiceDB)) (lModel exLoaded) (''user'', ''alice'') ''acme'' {}
     (''doc'', ''1'', ''viewer'')"
proof -
  have a: "dwAllowed (toDecisionWire
      (Evaluate (serviceDeps (exEnv exServiceDB) exLoaded) (canRequest exCan ''alice'')))"
    using exCan_allowed wellMadeD [OF Evaluate_wellMade] unfolding toDecisionWire_def by simp
  have db: "answers (rowsOf (storeRows exServiceDB)) ot oi rel (envTuples (exEnv exServiceDB) ot oi rel)"
    for ot oi rel by (simp add: exEnv_def tableDB_answers)
  have nf: "nulFreeModel (lModel l)" if "effectiveEngine (exEnv exServiceDB) = Inr l" for l
    using that exService_nulFree(2) by (simp add: exEnv_effective)
  have bc: "bearerClaims (exEnv exServiceDB) ''Bearer alice'' = Inr \<lparr>clSubject = ''alice'', clClientID = []\<rparr>"
    by code_simp
  show ?thesis
    using can_allow_means [OF exCan_Data a _ exService_nulFree(1) db nf]
    by (simp add: exCan_def exEnv_effective bc nul_free_def nul_def)
qed

lemma handleBatchCan_Data:
  assumes "handleBatchCan env header (Some (req, items)) = (DataResponse rs, ev)"
  obtains c l where "bearerClaims env header = Inr c" "validateCanRequest (clSubject c) req = Inr ()"
    "featureDeclared env (moduleOrFeaturePrefix (cwModuleKey req) (cwFeatureKey req)) [cwFeatureKey req] = Inr ()"
    "length items \<le> maxBatchItems" "effectiveEngine env = Inr l"
    "rs = map (\<lambda>(it, d). (it, toDecisionWire d)) (EvaluateBatch (serviceDeps env l) (canRequest req (clSubject c)) items)"
    "ev = [] \<longleftrightarrow> (\<forall>(it, d) \<in> set (EvaluateBatch (serviceDeps env l) (canRequest req (clSubject c)) items). Allowed d)"
proof -
  from assms obtain c l where *: "bearerClaims env header = Inr c" "validateCanRequest (clSubject c) req = Inr ()"
    "featureDeclared env (moduleOrFeaturePrefix (cwModuleKey req) (cwFeatureKey req)) [cwFeatureKey req] = Inr ()"
    "\<not> maxBatchItems < length items" "effectiveEngine env = Inr l"
    and r: "rs = map (\<lambda>(it, d). (it, toDecisionWire d)) (EvaluateBatch (serviceDeps env l) (canRequest req (clSubject c)) items)"
    "ev = [] \<longleftrightarrow> take maxAuditedDenials (filter (\<lambda>(it, d). \<not> Allowed d)
        (EvaluateBatch (serviceDeps env l) (canRequest req (clSubject c)) items)) = []"
    unfolding handleBatchCan_def reply_Data canRequest_def
    by (auto simp: rbind_Inr_iff Let_def split: if_splits)
  have "maxAuditedDenials \<noteq> 0" by (simp add: maxAuditedDenials_def)
  with r(2) have "ev = [] \<longleftrightarrow> (\<forall>(it, d) \<in> set (EvaluateBatch (serviceDeps env l) (canRequest req (clSubject c)) items). Allowed d)"
    by (auto simp: filter_empty_conv)
  with * r(1) show thesis by (intro that) auto
qed

text \<open>The endpoint \<open>/batch-can\<close> answers at company scope exactly what \<open>/can\<close> answers
  for each item, in request order and for at most the capped number of items: the same outcome
  and reason, or the unavailable error where the item says so; and it writes a denial row to the
  audit exactly when some item is refused.\<close>

theorem batchCan_as_can:
  assumes "handleBatchCan env header (Some (req, items)) = (DataResponse rs, ev)" and "cwScope req \<noteq> ''global''"
  shows "map fst rs = items \<and> length items \<le> maxBatchItems \<and> (ev = [] \<longleftrightarrow> (\<forall>(it, w) \<in> set rs. dwAllowed w)) \<and>
    (\<forall>(it, w) \<in> set rs.
       case fst (handleCan env header (Some (req\<lparr>cwObject := biObject it, cwRelation := biRelation it\<rparr>))) of
         DataResponse w' \<Rightarrow> dwAllowed w' = dwAllowed w \<and> dwReason w' = dwReason w
       | ErrorResponse e \<Rightarrow> e = (503, ''AUTHORIZATION_UNAVAILABLE'') \<and> \<not> dwAllowed w \<and>
           dwReason w = ''DEPENDENCY_UNAVAILABLE'')"
proof -
  obtain c l where c: "bearerClaims env header = Inr c" "validateCanRequest (clSubject c) req = Inr ()"
    "featureDeclared env (moduleOrFeaturePrefix (cwModuleKey req) (cwFeatureKey req)) [cwFeatureKey req] = Inr ()"
    and len: "length items \<le> maxBatchItems" and l: "effectiveEngine env = Inr l"
    and rs: "rs = map (\<lambda>(it, d). (it, toDecisionWire d)) (EvaluateBatch (serviceDeps env l) (canRequest req (clSubject c)) items)"
    and ev: "ev = [] \<longleftrightarrow> (\<forall>(it, d) \<in> set (EvaluateBatch (serviceDeps env l) (canRequest req (clSubject c)) items). Allowed d)"
    using handleBatchCan_Data [OF assms(1)] .
  let ?d = "serviceDeps env l" and ?base = "canRequest req (clSubject c)"
  have base: "rqScope ?base \<noteq> ScopeGlobal" using assms(2) by (simp add: canRequest_def toDecisionRequest_def)
  have one: "case fst (handleCan env header (Some (req\<lparr>cwObject := biObject it, cwRelation := biRelation it\<rparr>))) of
         DataResponse w' \<Rightarrow> dwAllowed w' = Allowed dec \<and> dwReason w' = reasonText (dReason dec)
       | ErrorResponse e \<Rightarrow> e = (503, ''AUTHORIZATION_UNAVAILABLE'') \<and> \<not> Allowed dec \<and>
           reasonText (dReason dec) = ''DEPENDENCY_UNAVAILABLE''"
    if "(it, dec) \<in> set (EvaluateBatch ?d ?base items)" for it dec
  proof -
    let ?one = "req\<lparr>cwObject := biObject it, cwRelation := biRelation it\<rparr>"
    let ?e = "Evaluate ?d (itemRequest ?base it)"
    have req: "canRequest ?one (clSubject c) = itemRequest ?base it"
      by (simp add: canRequest_def toDecisionRequest_def itemRequest_def)
    have v: "validateCanRequest (clSubject c) ?one = Inr ()" using c(2) by simp
    have "fst (handleCan env header (Some ?one)) = writeDecision toDecisionWire ?e"
      unfolding req [symmetric] unfolding canRequest_def using c(1,3) l by (simp add: v del: validateCanRequest_Inr add: handleCan_def reply_def decodeBody_def mapErr_def Let_def
          buildDeciderAndChecker_def split: sum.split)
    moreover have "Allowed dec = Allowed ?e" "dReason dec = dReason ?e"
      using EvaluateBatch_item [OF base that] Evaluate_wellMade [of ?d "itemRequest ?base it"]
      by (simp_all add: wellMade_def)
    moreover have "dReason ?e = ReasonDependencyUnavailable \<Longrightarrow> \<not> Allowed ?e"
      using Evaluate_wellMade [of ?d "itemRequest ?base it"] by (simp add: wellMade_def)
    ultimately show ?thesis by (auto simp: writeDecision_def toDecisionWire_def)
  qed
  have "map fst rs = items" using EvaluateBatch_items [of ?d ?base items] by (simp add: rs comp_def split_def)
  moreover have "ev = [] \<longleftrightarrow> (\<forall>(it, w) \<in> set rs. dwAllowed w)" unfolding ev rs
    by (auto simp: toDecisionWire_def)
  moreover have "\<forall>(it, w) \<in> set rs.
       case fst (handleCan env header (Some (req\<lparr>cwObject := biObject it, cwRelation := biRelation it\<rparr>))) of
         DataResponse w' \<Rightarrow> dwAllowed w' = dwAllowed w \<and> dwReason w' = dwReason w
       | ErrorResponse e \<Rightarrow> e = (503, ''AUTHORIZATION_UNAVAILABLE'') \<and> \<not> dwAllowed w \<and>
           dwReason w = ''DEPENDENCY_UNAVAILABLE''"
  proof (clarify, unfold rs)
    fix it w
    assume "(it, w) \<in> set (map (\<lambda>(it, d). (it, toDecisionWire d)) (EvaluateBatch ?d ?base items))"
    then obtain dec where dec: "(it, dec) \<in> set (EvaluateBatch ?d ?base items)" "w = toDecisionWire dec" by auto
    have w: "dwAllowed w = Allowed dec" "dwReason w = reasonText (dReason dec)"
      by (simp_all add: dec(2) toDecisionWire_def)
    show "case fst (handleCan env header (Some (req\<lparr>cwObject := biObject it, cwRelation := biRelation it\<rparr>))) of
         DataResponse w' \<Rightarrow> dwAllowed w' = dwAllowed w \<and> dwReason w' = dwReason w
       | ErrorResponse e \<Rightarrow> e = (503, ''AUTHORIZATION_UNAVAILABLE'') \<and> \<not> dwAllowed w \<and>
           dwReason w = ''DEPENDENCY_UNAVAILABLE''"
      unfolding w by (rule one [OF dec(1)])
  qed
  ultimately show ?thesis using len by blast
qed

theorem batchCan_as_can_witness:
  "\<exists>w. handleBatchCan (exEnv exServiceDB) ''Bearer alice'' (Some (exCan,
       [\<lparr>biObject = \<lparr>orType = ''doc'', orID = ''1''\<rparr>, biRelation = ''viewer''\<rparr>])) =
     (DataResponse [(\<lparr>biObject = \<lparr>orType = ''doc'', orID = ''1''\<rparr>, biRelation = ''viewer''\<rparr>, w)], []) \<and>
     dwAllowed w \<and> dwReason w = ''ALLOWED''"
proof -
  let ?it = "\<lparr>biObject = \<lparr>orType = ''doc'', orID = ''1''\<rparr>, biRelation = ''viewer''\<rparr>"
  have "bearerClaims (exEnv exServiceDB) ''Bearer alice'' = Inr \<lparr>clSubject = ''alice'', clClientID = []\<rparr>"
    "featureDeclared (exEnv exServiceDB) (moduleOrFeaturePrefix (cwModuleKey exCan) (cwFeatureKey exCan))
       [cwFeatureKey exCan] = Inr ()" "validateCanRequest ''alice'' exCan = Inr ()"
    "\<not> maxBatchItems < length [?it]" by code_simp+
  then obtain rs ev where b: "handleBatchCan (exEnv exServiceDB) ''Bearer alice'' (Some (exCan, [?it])) = (DataResponse rs, ev)"
    unfolding handleBatchCan_def
    by (simp add: reply_def exEnv_effective buildDeciderAndChecker_def mapErr_def decodeBody_def Let_def
        del: validateCanRequest_Inr)
  have "cwScope exCan \<noteq> ''global''" "exCan\<lparr>cwObject := \<lparr>orType = ''doc'', orID = ''1''\<rparr>, cwRelation := ''viewer''\<rparr> = exCan"
    by (simp_all add: exCan_def)
  note 1 = batchCan_as_can [OF b this(1)] and same = this(2)
  then obtain w where rs: "rs = [(?it, w)]" by auto
  have "dwAllowed w" "dwReason w = ''ALLOWED''"
    using 1 exCan_allowed wellMadeD(1) [OF Evaluate_wellMade] wellMadeD(2) [OF Evaluate_wellMade]
    unfolding rs by (simp_all add: same exCan_Data toDecisionWire_def) (metis reasonText.simps(1))
  with 1 b rs show ?thesis by simp
qed

text \<open>The access summary lists every object on which the user holds a direct tuple exactly once,
  with exactly the relations of those tuples, whatever order the database returns the rows in.\<close>

theorem summary_objects_exact:
  assumes "\<And>xs. set (orderBy xs) = set xs"
  shows "distinct (map fst (summaryObjectAccess orderBy db user)) \<and>
    (\<forall>ot oi rel. (\<exists>rels. ((ot, oi), rels) \<in> set (summaryObjectAccess orderBy db user) \<and> rel \<in> set rels) \<longleftrightarrow>
      \<lparr>ObjectType = ot, ObjectID = oi, Relation = rel, SubjectType = ''user'', SubjectID = user,
        SubjectRelation = []\<rparr> \<in> set (tupleTab db))"
proof -
  define L where "L = ListDirectTuplesForSubject orderBy db ''user'' user"
  define acc where "acc = foldl addRelation [] L"
  define tup where "tup = (\<lambda>ot oi rel. \<lparr>ObjectType = ot, ObjectID = oi, Relation = rel, SubjectType = ''user'',
      SubjectID = user, SubjectRelation = []\<rparr>)"
  have L: "(ot, oi, rel) \<in> set L \<longleftrightarrow> tup ot oi rel \<in> set (tupleTab db)" for ot oi rel
  proof
    assume "(ot, oi, rel) \<in> set L"
    then obtain t where t: "t \<in> set (tupleTab db)" "SubjectType t = ''user''" "SubjectID t = user" "SubjectRelation t = []"
        "ot = ObjectType t" "oi = ObjectID t" "rel = Relation t"
      unfolding L_def ListDirectTuplesForSubject_def assms by auto
    then have "t = tup ot oi rel" by (simp add: tup_def)
    with t(1) show "tup ot oi rel \<in> set (tupleTab db)" by simp
  next
    assume "tup ot oi rel \<in> set (tupleTab db)"
    then have "tup ot oi rel \<in> set (filter (\<lambda>t. SubjectType t = ''user'' \<and> SubjectID t = user \<and> SubjectRelation t = [])
        (tupleTab db))" by (simp add: tup_def)
    from imageI [OF this, of "\<lambda>t. (ObjectType t, ObjectID t, Relation t)"] show "(ot, oi, rel) \<in> set L"
      unfolding L_def ListDirectTuplesForSubject_def assms set_map by (simp add: tup_def)
  qed
  have acc: "distinct (map fst acc)"
    "set acc = (\<lambda>k. (k, map (\<lambda>x. snd (snd x)) (filter (\<lambda>x. objectOf x = k) L))) ` objectOf ` set L"
    unfolding acc_def using foldl_addRelation [of L] by blast+
  have main: "(\<exists>rels. ((ot, oi), rels) \<in> set acc \<and> rel \<in> set rels) \<longleftrightarrow> tup ot oi rel \<in> set (tupleTab db)"
    for ot oi rel
  proof -
    have "(\<exists>rels. ((ot, oi), rels) \<in> set acc \<and> rel \<in> set rels) \<longleftrightarrow>
        (\<exists>x \<in> set L. objectOf x = (ot, oi) \<and> snd (snd x) = rel)"
    proof
      assume "\<exists>x \<in> set L. objectOf x = (ot, oi) \<and> snd (snd x) = rel"
      then obtain x where x: "x \<in> set L" "objectOf x = (ot, oi)" "snd (snd x) = rel" by blast
      have "((ot, oi), map (\<lambda>x. snd (snd x)) (filter (\<lambda>x. objectOf x = (ot, oi)) L)) \<in> set acc"
        unfolding acc(2) by (rule image_eqI [of _ _ "(ot, oi)"]) (use imageI [OF x(1), of objectOf] x(2) in simp_all)
      moreover have "rel \<in> set (map (\<lambda>x. snd (snd x)) (filter (\<lambda>x. objectOf x = (ot, oi)) L))"
        using x by auto
      ultimately show "\<exists>rels. ((ot, oi), rels) \<in> set acc \<and> rel \<in> set rels" by blast
    qed (auto simp: acc(2))
    also have "\<dots> \<longleftrightarrow> (ot, oi, rel) \<in> set L" by (auto simp: objectOf_def intro!: bexI [of _ "(ot, oi, rel)"])
    finally show ?thesis unfolding L .
  qed
  show ?thesis unfolding summaryObjectAccess_def L_def [symmetric] acc_def [symmetric]
    by (intro conjI allI) (rule acc(1), rule main [unfolded tup_def])
qed
theorem summary_objects_exact_witness:
  "\<exists>rels. ((''doc'', ''1''), rels) \<in> set (summaryObjectAccess id exServiceDB ''alice'') \<and> ''owner'' \<in> set rels"
proof -
  have "\<lparr>ObjectType = ''doc'', ObjectID = ''1'', Relation = ''owner'', SubjectType = ''user'', SubjectID = ''alice'',
        SubjectRelation = []\<rparr> \<in> set (tupleTab exServiceDB)" by (simp add: exServiceDB_def)
  then show ?thesis using summary_objects_exact [of id exServiceDB "''alice''"] by simp
qed

end
