(* ===== verification/Authz_Grants.thy ===== *)
theory Authz_Grants
  imports Authz_Service
begin

text \<open>
  The writing endpoints of the authz service: \<open>handleGrants\<close> of \<open>internal/authz/http.go\<close>
  with its rules, and the platform-role endpoints of \<open>internal/authz/platform_role.go\<close>. A
  handler reads through its environment, which may show an older state of the tables than the
  transaction at the end works on, and returns its response, the audit rows it wrote and the
  tables. The lemmas show what a written grant was checked for, that refusals write nothing, and
  which sequences of requests keep the tables consistent and the platform administered.
\<close>

section \<open>Requests and refusals\<close>

record grantsRequestWire =
  gwOp :: string
  gwCompanyID :: string
  gwTuples :: "Tuple list"
  gwCorrelationID :: string

text \<open>A refusal is the error answered and the denial rows audited on the way.\<close>

type_synonym refusal = "apiError \<times> auditEvent list"

type_synonym 'a written = "'a response \<times> auditEvent list \<times> authzDB"

definition writeValidationFailed :: refusal where
  "writeValidationFailed = ((422, ''VALIDATION_FAILED''), [])"

definition engineUnavailable :: "'e \<Rightarrow> refusal" where
  "engineUnavailable _ = ((503, ''AUTHORIZATION_UNAVAILABLE''), [])"

definition deniedBy :: "string \<Rightarrow> string \<Rightarrow> Decision \<Rightarrow> refusal" where
  "deniedBy sub featureKey d =
     (if dReason d = ReasonDependencyUnavailable then (503, ''AUTHORIZATION_UNAVAILABLE'')
      else (403, ''AUTHORIZATION_DENIED''), [auditDenial sub featureKey d])"

text \<open>Where a transaction may fail; the statements of the store have their own errors.\<close>

datatype txStage = AtBegin | AtStatement | AtAudit | AtCommit

section \<open>Writing an authorized request\<close>

definition writeGrants ::
  "txStage option \<Rightarrow> string \<Rightarrow> string \<Rightarrow> grantsRequestWire \<Rightarrow> authzDB \<Rightarrow> nat written" where
  "writeGrants fault sub moduleKey req db =
     (if fault = Some AtBegin \<or> fault = Some AtStatement then (ErrorResponse (internalError ()), [], db)
      else case (if gwOp req = ''grant'' then Grant db sub (gwCorrelationID req) (gwTuples req)
                 else Revoke db sub (gwCorrelationID req) (gwTuples req)) of
        Inl (AnchorConflictError t) \<Rightarrow> (ErrorResponse (422, ''VALIDATION_FAILED''), [], db)
      | Inl err \<Rightarrow> (ErrorResponse (internalError err), [], db)
      | Inr db' \<Rightarrow>
          if fault \<noteq> None then (ErrorResponse (internalError ()), [], db)
          else (DataResponse (length (gwTuples req)),
            [\<lparr>aeActor = sub, aeAction = ''authz.grants.'' @ gwOp req, aeSubject = gwCorrelationID req,
              aePayload = JObj [(''count'', JNum (itoa (length (gwTuples req)))),
                (''companyId'', JStr (gwCompanyID req)), (''moduleKey'', JStr moduleKey)]\<rparr>], db'))"

definition isCompanyAdminAppointment :: "grantsRequestWire \<Rightarrow> bool" where
  "isCompanyAdminAppointment req \<longleftrightarrow> (\<forall>t \<in> set (gwTuples req).
     \<not> (ObjectType t \<noteq> ''company'' \<or> ObjectID t \<noteq> gwCompanyID req \<or> Relation t \<noteq> ''admin'' \<or>
        SubjectType t \<noteq> ''user'' \<or> SubjectID t = [] \<or> SubjectRelation t \<noteq> []))"

section \<open>The rules of a grant\<close>

definition appointRequest :: "string \<Rightarrow> Request" where
  "appointRequest sub = plainRequest\<lparr>rqSubjectID := sub,
     rqFeatureKey := FoundationModuleKey @ ''.company_administration.appoint'',
     rqModuleKey := FoundationModuleKey, rqScope := ScopeGlobal,
     rqRequiredPlatformRole := summarySuperadminRole\<rparr>"

text \<open>Rule 1: every object resolves to one module.\<close>

definition moduleOfTuple :: "Loaded \<Rightarrow> string \<Rightarrow> Tuple \<Rightarrow> (refusal, string) result" where
  "moduleOfTuple l company t =
     (if ObjectType t = ''company_module'' then
        let m = trimPrefix (ObjectID t) (company @ ''/'') in
        if m = ObjectID t \<or> KnownEnabled l m = None then Inl writeValidationFailed else Inr m
      else case TypeOwner l (ObjectType t) of
        None \<Rightarrow> Inl writeValidationFailed
      | Some m \<Rightarrow> if m = [] then Inl writeValidationFailed else Inr m)"

fun moduleOfTuples :: "Loaded \<Rightarrow> string \<Rightarrow> string \<Rightarrow> Tuple list \<Rightarrow> (refusal, string) result" where
  "moduleOfTuples l company moduleKey [] = Inr moduleKey"
| "moduleOfTuples l company moduleKey (t # ts) =
     rbind (moduleOfTuple l company t) (\<lambda>m.
       if moduleKey \<noteq> [] \<and> m \<noteq> moduleKey then Inl writeValidationFailed
       else moduleOfTuples l company m ts)"

text \<open>The shape of a grant's subjects, and the company of a position, group or member subject.\<close>

definition subjectShape :: "Loaded \<Rightarrow> Tuple \<Rightarrow> (refusal, unit) result" where
  "subjectShape l t =
     (if SubjectRelation t = [] then Inr ()
      else case map_of (lModel l) (SubjectType t) of
        None \<Rightarrow> Inl writeValidationFailed
      | Some rels \<Rightarrow>
          if map_of rels (SubjectRelation t) = None then Inl writeValidationFailed else Inr ())"

definition subjectBelongs :: "authzEnv \<Rightarrow> EngineChecker \<Rightarrow> string \<Rightarrow> Tuple \<Rightarrow> (refusal, unit) result" where
  "subjectBelongs env checker company t =
     (let verdict = (\<lambda>ok. if ok then Inr () else Inl writeValidationFailed) in
      if SubjectType t = ''position'' \<or> SubjectType t = ''group'' then
        rbind (mapErr engineUnavailable
          (engCheck checker (SubjectType t) (SubjectID t) ''company'' ''company'' company)) verdict
      else if SubjectType t = ''member'' then
        rbind (mapErr engineUnavailable (envPool env)) (\<lambda>db. verdict (MemberOfCompany db company (SubjectID t)))
      else Inr ())"

definition subjectRules ::
  "authzEnv \<Rightarrow> EngineChecker \<Rightarrow> Loaded \<Rightarrow> grantsRequestWire \<Rightarrow> (refusal, unit) result" where
  "subjectRules env checker l req =
     (if gwOp req = ''grant'' then
        rbind (check_each (subjectShape l) (gwTuples req)) (\<lambda>_.
          check_each (subjectBelongs env checker (gwCompanyID req)) (gwTuples req))
      else Inr ())"

text \<open>The owner rule: whether the caller is the app that registered the module, and whether it is
  any registered app.\<close>

definition ownerRule :: "authzEnv \<Rightarrow> Claims \<Rightarrow> string \<Rightarrow> (refusal, bool \<times> bool) result" where
  "ownerRule env c moduleKey =
     (if clClientID c \<noteq> [] \<and> hasAppOwners env then
        rbind (mapErr engineUnavailable (AppOwners (envCapabilities env))) (\<lambda>owners.
          Inr ((case map_of owners moduleKey of None \<Rightarrow> [] | Some o' \<Rightarrow> o') = clClientID c,
               clClientID c \<in> snd ` set owners))
      else Inr (False, False))"

definition ownerEnabled :: "authzEnv \<Rightarrow> bool \<Rightarrow> string \<Rightarrow> (refusal, unit) result" where
  "ownerEnabled env ownerCall moduleKey =
     (if ownerCall then
        rbind (mapErr engineUnavailable (registry_Enabled (envCapability env moduleKey))) (\<lambda>enabled.
          if enabled then Inr () else Inl ((403, ''AUTHORIZATION_DENIED''), []))
      else Inr ())"

text \<open>Rule 3: the decision for the module in the company.\<close>

definition grantsRequest :: "string \<Rightarrow> string \<Rightarrow> string \<Rightarrow> bool \<Rightarrow> Request" where
  "grantsRequest sub moduleKey company registeredApp = plainRequest\<lparr>rqSubjectID := sub,
     rqFeatureKey := moduleKey @ ''.grants'', rqModuleKey := moduleKey, rqScope := ScopeCompany,
     rqCompanyID := company, rqRequiredPlatformRole := summarySuperadminRole,
     rqAllowPlatformOperatorCompanyScope := True,
     rqRequiredCompanyRole := (if registeredApp then ''admin'' else [])\<rparr>"

definition decisionRule ::
  "Deps \<Rightarrow> string \<Rightarrow> string \<Rightarrow> string \<Rightarrow> bool \<Rightarrow> bool \<Rightarrow> (refusal, unit) result" where
  "decisionRule deps sub moduleKey company ownerCall registeredApp =
     (if ownerCall then Inr ()
      else let d = Evaluate deps (grantsRequest sub moduleKey company registeredApp) in
        if Allowed d then Inr () else Inl (deniedBy sub (moduleKey @ ''.grants'') d))"

text \<open>Rules 2 and 4: anchors. The objects anchored by the request itself are a Go map keyed by
  \<open>type:id\<close>; \<open>mapOrder\<close> is the order in which it is ranged over.\<close>

definition objectKey :: "Tuple \<Rightarrow> string" where
  "objectKey t = ObjectType t @ '':'' @ ObjectID t"

definition inRequestAnchor :: "string \<Rightarrow> string \<Rightarrow> Tuple list \<Rightarrow> string list" where
  "inRequestAnchor op anchorID ts =
     (if op = ''grant'' then remdups (map objectKey (filter (\<lambda>t. Relation t = ''company_module'' \<and>
        SubjectType t = ''company_module'' \<and> SubjectID t = anchorID \<and> SubjectRelation t = []) ts))
      else [])"

text \<open>\<open>strings.Cut\<close> at the first colon.\<close>

definition cutColon :: "string \<Rightarrow> string \<times> string" where
  "cutColon s = (takeWhile (\<lambda>c. c \<noteq> CHR '':'') s, drop 1 (dropWhile (\<lambda>c. c \<noteq> CHR '':'') s))"

definition anchorsFree :: "authzEnv \<Rightarrow> string \<Rightarrow> string list \<Rightarrow> (refusal, unit) result" where
  "anchorsFree env anchorID keys = check_each (\<lambda>key. case cutColon key of (objType, objID) \<Rightarrow>
     rbind (mapErr engineUnavailable (envPool env)) (\<lambda>db.
       let existing = AnchorOf db objType objID in
       if existing \<noteq> [] \<and> existing \<noteq> anchorID then Inl writeValidationFailed else Inr ())) keys"

definition notModuleAdmin :: "string \<Rightarrow> string \<Rightarrow> string \<Rightarrow> refusal" where
  "notModuleAdmin sub moduleKey anchorID = ((403, ''AUTHORIZATION_DENIED''),
     [auditDenial sub (moduleKey @ ''.grants'')
        (deny ReasonEngineDenied [(''relation'', ''admin''), (''object'', ''company_module:'' @ anchorID)] [])])"

fun anchorRules ::
  "authzEnv \<Rightarrow> EngineChecker \<Rightarrow> string \<Rightarrow> string \<Rightarrow> string \<Rightarrow> bool \<Rightarrow> string \<Rightarrow> string list \<Rightarrow> bool \<Rightarrow>
   Tuple list \<Rightarrow> (refusal, unit) result" where
  "anchorRules env checker sub moduleKey op ownerCall anchorID keys adminChecked [] = Inr ()"
| "anchorRules env checker sub moduleKey op ownerCall anchorID keys adminChecked (t # ts) =
     (if ObjectType t = ''company_module'' then
        if adminChecked then anchorRules env checker sub moduleKey op ownerCall anchorID keys adminChecked ts
        else rbind (mapErr engineUnavailable
               (engCheck checker ''company_module'' anchorID ''admin'' ''user'' sub)) (\<lambda>isAdmin.
          if \<not> isAdmin then Inl (notModuleAdmin sub moduleKey anchorID)
          else anchorRules env checker sub moduleKey op ownerCall anchorID keys True ts)
      else if Relation t = ''company_module'' \<and> objectKey t \<notin> set keys \<and> op = ''grant''
        then Inl writeValidationFailed
      else if objectKey t \<in> set keys
        then anchorRules env checker sub moduleKey op ownerCall anchorID keys adminChecked ts
      else rbind (mapErr engineUnavailable (engCheck checker (ObjectType t) (ObjectID t)
             ''company_module'' ''company_module'' anchorID)) (\<lambda>anchored.
        if anchored then anchorRules env checker sub moduleKey op ownerCall anchorID keys adminChecked ts
        else if op = ''revoke'' \<and> ownerCall then
          rbind (mapErr engineUnavailable (envPool env)) (\<lambda>db.
            if AnchorOf db (ObjectType t) (ObjectID t) = []
            then anchorRules env checker sub moduleKey op ownerCall anchorID keys adminChecked ts
            else Inl writeValidationFailed)
        else Inl writeValidationFailed))"

section \<open>The grants endpoint\<close>

definition plainRefusal :: "apiError \<Rightarrow> refusal" where
  "plainRefusal err = (err, [])"

definition grantsHead ::
  "(string \<Rightarrow> bool) \<Rightarrow> authzEnv \<Rightarrow> string \<Rightarrow> grantsRequestWire option \<Rightarrow> (refusal, Claims \<times> grantsRequestWire) result" where
  "grantsHead uuidOK env header body =
     rbind (mapErr plainRefusal (bearerClaims env header)) (\<lambda>c.
     rbind (mapErr plainRefusal (decodeBody body)) (\<lambda>req.
     if gwOp req \<noteq> ''grant'' \<and> gwOp req \<noteq> ''revoke'' then Inl (plainRefusal (400, ''BAD_REQUEST''))
     else if gwTuples req = [] then Inl (plainRefusal (400, ''BAD_REQUEST''))
     else if \<not> uuidOK (gwCompanyID req) then Inl (plainRefusal (400, ''BAD_REQUEST''))
     else Inr (c, req)))"

definition moduleGrantRules ::
  "(string list \<Rightarrow> string list) \<Rightarrow> authzEnv \<Rightarrow> Deps \<Rightarrow> Loaded \<Rightarrow> Claims \<Rightarrow> grantsRequestWire \<Rightarrow>
   (refusal, string) result" where
  "moduleGrantRules mapOrder env deps l c req =
     (let sub = clSubject c; company = gwCompanyID req; checker = dpEngine deps in
      rbind (moduleOfTuples l company [] (gwTuples req)) (\<lambda>moduleKey.
      let anchorID = company @ ''/'' @ moduleKey in
      rbind (subjectRules env checker l req) (\<lambda>_.
      rbind (ownerRule env c moduleKey) (\<lambda>(ownerCall, registeredApp).
      rbind (ownerEnabled env ownerCall moduleKey) (\<lambda>_.
      rbind (decisionRule deps sub moduleKey company ownerCall registeredApp) (\<lambda>_.
      let keys = inRequestAnchor (gwOp req) anchorID (gwTuples req) in
      rbind (anchorsFree env anchorID (mapOrder keys)) (\<lambda>_.
      rbind (anchorRules env checker sub moduleKey (gwOp req) ownerCall anchorID keys False (gwTuples req)) (\<lambda>_.
        Inr moduleKey))))))))"

definition authorizeGrants ::
  "(string list \<Rightarrow> string list) \<Rightarrow> (string \<Rightarrow> bool) \<Rightarrow> authzEnv \<Rightarrow> string \<Rightarrow> grantsRequestWire option \<Rightarrow>
   (refusal, string \<times> string \<times> grantsRequestWire) result" where
  "authorizeGrants mapOrder uuidOK env header body =
     rbind (grantsHead uuidOK env header body) (\<lambda>(c, req).
     rbind (mapErr plainRefusal (mapErr internalError (buildDeciderAndChecker env))) (\<lambda>(deps, l).
     if isCompanyAdminAppointment req then
       let d = Evaluate deps (appointRequest (clSubject c)) in
       if Allowed d then Inr (clSubject c, FoundationModuleKey, req)
       else Inl (deniedBy (clSubject c) (FoundationModuleKey @ ''.grants'') d)
     else rbind (moduleGrantRules mapOrder env deps l c req) (\<lambda>moduleKey. Inr (clSubject c, moduleKey, req))))"

definition handleGrants ::
  "(string list \<Rightarrow> string list) \<Rightarrow> (string \<Rightarrow> bool) \<Rightarrow> authzEnv \<Rightarrow> txStage option \<Rightarrow> string \<Rightarrow>
   grantsRequestWire option \<Rightarrow> authzDB \<Rightarrow> nat written" where
  "handleGrants mapOrder uuidOK env fault header body db =
     (case authorizeGrants mapOrder uuidOK env header body of
        Inl (err, events) \<Rightarrow> (ErrorResponse err, events, db)
      | Inr (sub, moduleKey, req) \<Rightarrow> writeGrants fault sub moduleKey req db)"

section \<open>Platform roles\<close>

definition platformRoleRequest :: "string \<Rightarrow> string \<Rightarrow> Request" where
  "platformRoleRequest sub featureKey = plainRequest\<lparr>rqSubjectID := sub, rqFeatureKey := featureKey,
     rqScope := ScopeGlobal, rqRequiredPlatformRole := PlatformRoleSuperadmin\<rparr>"

definition authorizePlatformRoleChange :: "authzEnv \<Rightarrow> string \<Rightarrow> string \<Rightarrow> (refusal, unit) result" where
  "authorizePlatformRoleChange env sub featureKey =
     rbind (mapErr plainRefusal (mapErr internalError (buildDeciderAndChecker env))) (\<lambda>(deps, l).
       let d = Evaluate deps (platformRoleRequest sub featureKey) in
       if Allowed d then Inr () else Inl (deniedBy sub featureKey d))"

definition writePlatformRoleValidation :: "string \<Rightarrow> string \<Rightarrow> (refusal, unit) result" where
  "writePlatformRoleValidation role subject =
     (if role \<noteq> PlatformRoleSuperadmin then Inl writeValidationFailed
      else if subject = [] then Inl (plainRefusal (400, ''BAD_REQUEST''))
      else Inr ())"

definition tupleHeld :: "authzDB \<Rightarrow> Tuple \<Rightarrow> bool" where
  "tupleHeld db tp \<longleftrightarrow> 0 < length (filter (\<lambda>t. t = tp) (tupleTab db))"

datatype roleError = LastSuperadmin | NotHeld | RoleStoreError StoreError | RoleTxError txStage

text \<open>The advisory lock makes the transaction see the tables no other platform-role change is
  working on. \<open>op\<close> is the literal the two handlers pass.\<close>

definition writePlatformRole ::
  "txStage option \<Rightarrow> string \<Rightarrow> string \<Rightarrow> string \<Rightarrow> authzDB \<Rightarrow> (roleError, auditEvent list \<times> authzDB) result" where
  "writePlatformRole fault actor subject op db =
     (if fault = Some AtBegin \<or> fault = Some AtStatement then Inl (RoleTxError (the fault))
      else let tp = SuperadminTuple subject in
        rbind (if op = ''revoke'' then
                 if \<not> tupleHeld db tp then Inl NotHeld
                 else if CountSuperadmins db \<le> 1 then Inl LastSuperadmin
                 else mapErr RoleStoreError (Revoke db actor [] [tp])
               else mapErr RoleStoreError (Grant db actor [] [tp])) (\<lambda>db'.
        case fault of
          Some stage \<Rightarrow> Inl (RoleTxError stage)
        | None \<Rightarrow> Inr ([\<lparr>aeActor = actor, aeAction = ''authz.platform_role.'' @ op,
            aeSubject = ''user:'' @ subject,
            aePayload = JObj [(''role'', JStr PlatformRoleSuperadmin), (''grantedBy'', JStr actor)]\<rparr>], db')))"

definition handleGrantPlatformRole ::
  "authzEnv \<Rightarrow> txStage option \<Rightarrow> string \<Rightarrow> (string \<times> string) option \<Rightarrow> authzDB \<Rightarrow> (string \<times> string) written" where
  "handleGrantPlatformRole env fault header body db =
     (case
        rbind (mapErr plainRefusal (bearerClaims env header)) (\<lambda>c.
        rbind (mapErr plainRefusal (decodeBody body)) (\<lambda>(subject, role).
        rbind (writePlatformRoleValidation role subject) (\<lambda>_.
        rbind (authorizePlatformRoleChange env (clSubject c) ''authz.platform_role.grant'') (\<lambda>_.
        rbind (mapErr engineUnavailable (identity_Lookup (envIdentity env subject))) (\<lambda>found.
        if \<not> Found found then Inl (plainRefusal (404, ''NOT_FOUND''))
        else rbind (mapErr (plainRefusal \<circ> internalError)
               (writePlatformRole fault (clSubject c) subject ''grant'' db)) (\<lambda>(events, db').
          Inr (DataResponse (subject, role), events, db')))))))
      of Inl (err, events) \<Rightarrow> (ErrorResponse err, events, db) | Inr done' \<Rightarrow> done')"

definition roleErrorEnvelope :: "roleError \<Rightarrow> apiError" where
  "roleErrorEnvelope e = (case e of
     LastSuperadmin \<Rightarrow> (409, ''CONFLICT'') | NotHeld \<Rightarrow> (404, ''NOT_FOUND'') | _ \<Rightarrow> (500, ''INTERNAL_ERROR''))"

definition handleRevokePlatformRole ::
  "authzEnv \<Rightarrow> txStage option \<Rightarrow> string \<Rightarrow> string \<Rightarrow> string \<Rightarrow> authzDB \<Rightarrow> (string \<times> string) written" where
  "handleRevokePlatformRole env fault header role subject db =
     (case
        rbind (mapErr plainRefusal (bearerClaims env header)) (\<lambda>c.
        rbind (writePlatformRoleValidation role subject) (\<lambda>_.
        rbind (authorizePlatformRoleChange env (clSubject c) ''authz.platform_role.revoke'') (\<lambda>_.
        rbind (mapErr (plainRefusal \<circ> roleErrorEnvelope)
          (writePlatformRole fault (clSubject c) subject ''revoke'' db)) (\<lambda>(events, db').
          Inr (DataResponse (subject, role), events, db')))))
      of Inl (err, events) \<Rightarrow> (ErrorResponse err, events, db) | Inr done' \<Rightarrow> done')"

section \<open>What the handlers write\<close>

lemma writeGrants_effect:
  "writeGrants fault sub mk req db = (resp, ev, db') \<Longrightarrow>
   (case resp of
      ErrorResponse e \<Rightarrow> db' = db \<and> ev = []
    | DataResponse n \<Rightarrow> n = length (gwTuples req) \<and> fault = None \<and>
        (if gwOp req = ''grant'' then Grant db sub (gwCorrelationID req) (gwTuples req) = Inr db'
         else Revoke db sub (gwCorrelationID req) (gwTuples req) = Inr db') \<and>
        (\<exists>e. ev = [e] \<and> aeActor e = sub \<and> aeAction e = ''authz.grants.'' @ gwOp req))"
  by (auto simp: writeGrants_def split: if_splits sum.splits StoreError.splits)

lemma grantsHead_Inr:
  "grantsHead uuidOK env header body = Inr (c, req) \<longleftrightarrow>
     bearerClaims env header = Inr c \<and> body = Some req \<and> gwOp req \<in> {''grant'', ''revoke''} \<and>
     gwTuples req \<noteq> [] \<and> uuidOK (gwCompanyID req)"
  by (auto simp: grantsHead_def rbind_Inr_iff)

lemma authorizeGrants_Inr:
  "authorizeGrants mapOrder uuidOK env header body = Inr (sub, mk, req) \<longleftrightarrow>
     (\<exists>c l. grantsHead uuidOK env header body = Inr (c, req) \<and> effectiveEngine env = Inr l \<and> sub = clSubject c \<and>
        (if isCompanyAdminAppointment req
         then Allowed (Evaluate (serviceDeps env l) (appointRequest sub)) \<and> mk = FoundationModuleKey
         else moduleGrantRules mapOrder env (serviceDeps env l) l c req = Inr mk))"
  by (auto simp: authorizeGrants_def rbind_Inr_iff Let_def split: if_splits)

lemma handleGrants_cases:
  assumes "handleGrants mapOrder uuidOK env fault header body db = (resp, ev, db')"
  obtains (refused) e where "resp = ErrorResponse e" "db' = db"
  | (wrote) sub mk req where "authorizeGrants mapOrder uuidOK env header body = Inr (sub, mk, req)"
      "resp = DataResponse (length (gwTuples req))" "gwOp req \<in> {''grant'', ''revoke''}"
      "if gwOp req = ''grant'' then Grant db sub (gwCorrelationID req) (gwTuples req) = Inr db'
       else Revoke db sub (gwCorrelationID req) (gwTuples req) = Inr db'"
proof (cases "authorizeGrants mapOrder uuidOK env header body")
  case (Inl r)
  with assms refused show thesis by (auto simp: handleGrants_def split: prod.splits)
next
  case (Inr x)
  then obtain sub mk req where x: "authorizeGrants mapOrder uuidOK env header body = Inr (sub, mk, req)"
    by (cases x) auto
  then have "writeGrants fault sub mk req db = (resp, ev, db')" using assms by (simp add: handleGrants_def)
  note w = writeGrants_effect [OF this]
  from x have "gwOp req \<in> {''grant'', ''revoke''}" by (auto simp: authorizeGrants_Inr grantsHead_Inr)
  with w x wrote refused show thesis by (cases resp) auto
qed

lemma moduleOfTuple_nonempty:
  "moduleOfTuple l company t = Inr m \<Longrightarrow> KnownEnabled l [] = None \<Longrightarrow> m \<noteq> []"
  by (auto simp: moduleOfTuple_def Let_def split: if_splits option.splits)

lemma moduleOfTuples_Inr:
  assumes "moduleOfTuples l company acc ts = Inr mk" and "KnownEnabled l [] = None"
  shows "(\<forall>t \<in> set ts. moduleOfTuple l company t = Inr mk) \<and> (acc \<noteq> [] \<longrightarrow> mk = acc)"
  using assms
proof (induction ts arbitrary: acc)
  case (Cons t ts)
  from Cons.prems(1) obtain m where m: "moduleOfTuple l company t = Inr m" "acc = [] \<or> m = acc"
      "moduleOfTuples l company m ts = Inr mk"
    by (auto simp: rbind_Inr_iff split: if_splits)
  from Cons.IH [OF m(3) assms(2)] moduleOfTuple_nonempty [OF m(1) assms(2)] m show ?case by auto
qed simp

lemma moduleOfTuple_object:
  assumes "moduleOfTuple l company t = Inr mk"
  shows "ObjectType t = ''company_module'' \<and> ObjectID t = company @ ''/'' @ mk \<and> KnownEnabled l mk \<noteq> None \<or>
    ObjectType t \<noteq> ''company_module'' \<and> TypeOwner l (ObjectType t) = Some mk"
proof (cases "ObjectType t = ''company_module''")
  case True
  with assms have "trimPrefix (ObjectID t) (company @ ''/'') = mk" "mk \<noteq> ObjectID t" "KnownEnabled l mk \<noteq> None"
    by (auto simp: moduleOfTuple_def Let_def split: if_splits)
  with True trimPrefix_changed [of "company @ ''/''" "ObjectID t"] show ?thesis by simp
next
  case False
  with assms show ?thesis by (auto simp: moduleOfTuple_def split: option.splits if_splits)
qed

lemma effectiveEngine_Load:
  assumes "effectiveEngine env = Inr l"
  obtains known rows where "envFragments env = Inr rows" "Load (Inr rows) known = Inr l"
proof -
  from assms obtain known where "Load (envFragments env) (map_of known) = Inr l"
    by (auto simp: effectiveEngine_def rbind_Inr_iff)
  moreover from this obtain rows where "envFragments env = Inr rows"
    by (cases "envFragments env") (auto simp: Load_def mapErr_def)
  ultimately show thesis using that by simp
qed

lemma TypeOwner_not_base:
  assumes "effectiveEngine env = Inr l" "TypeOwner l ty = Some mk"
  shows "\<not> IsBaseType ty"
proof -
  obtain known rows where "Load (Inr rows) known = Inr l" by (rule effectiveEngine_Load [OF assms(1)])
  from Load_Inr(3) [OF this] assms(2) show ?thesis
    by (auto simp: loadInv_def IsBaseType_iff dom_def)
qed

text \<open>The rules of a module grant, read back from its success.\<close>

lemma moduleGrantRules_Inr:
  assumes "moduleGrantRules mapOrder env deps l c req = Inr mk"
  obtains ownerCall registeredApp where
    "moduleOfTuples l (gwCompanyID req) [] (gwTuples req) = Inr mk"
    "subjectRules env (dpEngine deps) l req = Inr ()"
    "ownerRule env c mk = Inr (ownerCall, registeredApp)"
    "ownerEnabled env ownerCall mk = Inr ()"
    "decisionRule deps (clSubject c) mk (gwCompanyID req) ownerCall registeredApp = Inr ()"
    "anchorsFree env (gwCompanyID req @ ''/'' @ mk)
       (mapOrder (inRequestAnchor (gwOp req) (gwCompanyID req @ ''/'' @ mk) (gwTuples req))) = Inr ()"
    "anchorRules env (dpEngine deps) (clSubject c) mk (gwOp req) ownerCall (gwCompanyID req @ ''/'' @ mk)
       (inRequestAnchor (gwOp req) (gwCompanyID req @ ''/'' @ mk) (gwTuples req)) False (gwTuples req) = Inr ()"
  using assms that by (auto simp: moduleGrantRules_def rbind_Inr_iff Let_def)

definition anchorOK :: "authzEnv \<Rightarrow> EngineChecker \<Rightarrow> string \<Rightarrow> bool \<Rightarrow> string \<Rightarrow> string list \<Rightarrow> Tuple \<Rightarrow> bool" where
  "anchorOK env checker op ownerCall anchorID keys t \<longleftrightarrow>
     objectKey t \<in> set keys \<or>
     engCheck checker (ObjectType t) (ObjectID t) ''company_module'' ''company_module'' anchorID = Inr True \<or>
     op = ''revoke'' \<and> ownerCall \<and> (\<exists>db. envPool env = Inr db \<and> AnchorOf db (ObjectType t) (ObjectID t) = [])"

definition anchorRuleOK ::
  "authzEnv \<Rightarrow> EngineChecker \<Rightarrow> string \<Rightarrow> string \<Rightarrow> bool \<Rightarrow> string \<Rightarrow> string list \<Rightarrow> bool \<Rightarrow> Tuple \<Rightarrow> bool" where
  "anchorRuleOK env checker sub op ownerCall anchorID keys adm t \<longleftrightarrow>
     (if ObjectType t = ''company_module''
      then adm \<or> engCheck checker ''company_module'' anchorID ''admin'' ''user'' sub = Inr True
      else anchorOK env checker op ownerCall anchorID keys t \<and>
        \<not> (Relation t = ''company_module'' \<and> objectKey t \<notin> set keys \<and> op = ''grant''))"

lemma anchorRuleOK_admin:
  "anchorRuleOK env checker sub op ownerCall anchorID keys True t \<Longrightarrow>
   adm \<or> engCheck checker ''company_module'' anchorID ''admin'' ''user'' sub = Inr True \<Longrightarrow>
   anchorRuleOK env checker sub op ownerCall anchorID keys adm t"
  by (auto simp: anchorRuleOK_def split: if_splits)

lemma anchorRules_Inr:
  "anchorRules env checker sub mk op ownerCall anchorID keys adm ts = Inr () \<Longrightarrow>
   \<forall>t \<in> set ts. anchorRuleOK env checker sub op ownerCall anchorID keys adm t"
proof (induction ts arbitrary: adm)
  case (Cons t ts)
  show ?case
  proof (cases "ObjectType t = ''company_module''")
    case True
    with Cons.prems have adm: "adm \<or> engCheck checker ''company_module'' anchorID ''admin'' ''user'' sub = Inr True"
      and ts: "anchorRules env checker sub mk op ownerCall anchorID keys True ts = Inr ()"
      by (auto simp: rbind_Inr_iff split: if_splits)
    have "anchorRuleOK env checker sub op ownerCall anchorID keys adm t"
      using True adm by (simp add: anchorRuleOK_def)
    moreover have "anchorRuleOK env checker sub op ownerCall anchorID keys adm u" if "u \<in> set ts" for u
      using anchorRuleOK_admin [OF _ adm] Cons.IH [OF ts] that by blast
    ultimately show ?thesis by simp
  next
    case False
    with Cons.prems have "anchorRuleOK env checker sub op ownerCall anchorID keys adm t"
      and "anchorRules env checker sub mk op ownerCall anchorID keys adm ts = Inr ()"
      by (auto simp: anchorRuleOK_def anchorOK_def rbind_Inr_iff split: if_splits)
    with Cons.IH show ?thesis by simp
  qed
qed simp

section \<open>Who may write\<close>

text \<open>The grounds on which a grant request is accepted: the bearer is the app that registered the
  module, and the module is enabled; or the company and the module are active and the bearer is a
  platform superadmin or an active member, with the company's admin relation when the bearer is
  some registered app.\<close>

definition ownsModule :: "authzEnv \<Rightarrow> Claims \<Rightarrow> string \<Rightarrow> bool" where
  "ownsModule env c mk \<longleftrightarrow> clClientID c \<noteq> [] \<and> envCapability env mk = HttpStatus 200 (Some True) \<and>
     (\<exists>owners. AppOwners (envCapabilities env) = Inr owners \<and> map_of owners mk = Some (clClientID c))"

definition writesInCompany :: "authzEnv \<Rightarrow> tupleRel \<Rightarrow> Model \<Rightarrow> Claims \<Rightarrow> string \<Rightarrow> string \<Rightarrow> bool" where
  "writesInCompany env R M c company mk \<longleftrightarrow>
     (\<exists>d. envCompany env company = HttpStatus 200 (Some d) \<and> cdExists d \<and> cdIsActive d) \<and>
     (mk = FoundationModuleKey \<or> envCapability env mk = HttpStatus 200 (Some True)) \<and>
     (isSuperadmin R M (clSubject c) \<or>
      (\<exists>d. envMembership env company (clSubject c) = HttpStatus 200 (Some d) \<and> mdIsMember d \<and> mdIsActive d) \<and>
      (\<forall>owners. hasAppOwners env \<and> clClientID c \<noteq> [] \<and> AppOwners (envCapabilities env) = Inr owners \<and>
         clClientID c \<in> snd ` set owners \<longrightarrow>
         granted R M (''user'', clSubject c) [] {} (''company'', company, ''admin'')))"

text \<open>The tuple's object belongs to the module in the company: it is the module's own object and
  the bearer its admin, or of a type the module declares and anchored to the module in the company,
  by the table or by an anchor tuple of the same request. The owning app may also revoke on
  objects that carry no anchor.\<close>

definition objectInModule ::
  "authzEnv \<Rightarrow> tupleRel \<Rightarrow> Loaded \<Rightarrow> Claims \<Rightarrow> grantsRequestWire \<Rightarrow> string \<Rightarrow> Tuple \<Rightarrow> bool" where
  "objectInModule env R l c req mk t \<longleftrightarrow>
     (let anchorID = gwCompanyID req @ ''/'' @ mk in
      ObjectType t = ''company_module'' \<and> ObjectID t = anchorID \<and>
        granted R (lModel l) (''user'', clSubject c) [] {} (''company_module'', anchorID, ''admin'') \<or>
      TypeOwner l (ObjectType t) = Some mk \<and> \<not> IsBaseType (ObjectType t) \<and>
        (granted R (lModel l) (''company_module'', anchorID) [] {} (ObjectType t, ObjectID t, ''company_module'') \<or>
         objectKey t \<in> set (inRequestAnchor (gwOp req) anchorID (gwTuples req)) \<or>
         gwOp req = ''revoke'' \<and> ownsModule env c mk \<and>
           (\<exists>db. envPool env = Inr db \<and> AnchorOf db (ObjectType t) (ObjectID t) = [])))"

lemma serviceDeps_simps [simp]:
  "dpEngine (serviceDeps env l) = fragmentEngineChecker env l"
  "dpPlatformRole (serviceDeps env l) = platformRole_HasRole (fragmentEngineChecker env l)"
  "dpCompanyRole (serviceDeps env l) = companyRole_HasRole (fragmentEngineChecker env l)"
  "dpCompany (serviceDeps env l) = (\<lambda>c. org_State (envCompany env c))"
  "dpMembership (serviceDeps env l) = (\<lambda>c s. org_Membership (envMembership env c s))"
  "dpModuleState (serviceDeps env l) = (\<lambda>m. registry_Enabled (envCapability env m))"
  "engCheck (fragmentEngineChecker env l) = fragment_Check (envTuples env) l"
  by (simp_all add: serviceDeps_def fragmentEngineChecker_def Let_def)

lemma ownerRule_owns:
  assumes "ownerRule env c mk = Inr (True, reg)" "ownerEnabled env True mk = Inr ()"
  shows "ownsModule env c mk"
proof -
  from assms(1) obtain owners where "clClientID c \<noteq> []" "AppOwners (envCapabilities env) = Inr owners"
      "map_of owners mk = Some (clClientID c)"
    by (auto simp: ownerRule_def rbind_Inr_iff split: if_splits option.splits)
  moreover have "envCapability env mk = HttpStatus 200 (Some True)"
    using assms(2) by (auto simp: ownerEnabled_def rbind_Inr_iff registry_Enabled_True split: if_splits)
  ultimately show ?thesis by (auto simp: ownsModule_def)
qed

lemma ownerRule_registered:
  assumes "ownerRule env c mk = Inr (own, reg)" "hasAppOwners env" "clClientID c \<noteq> []"
    and "AppOwners (envCapabilities env) = Inr owners" "clClientID c \<in> snd ` set owners"
  shows "reg"
  using assms by (auto simp: ownerRule_def mapErr_def)

lemma decisionRule_writes:
  assumes "nulFreeRows R" "nulFreeModel (lModel l)" "\<And>ot oi rel. answers R ot oi rel (envTuples env ot oi rel)"
    and "nul_free company" "ownerRule env c mk = Inr (False, reg)"
    and "decisionRule (serviceDeps env l) (clSubject c) mk company False reg = Inr ()"
  shows "writesInCompany env R (lModel l) c company mk"
proof -
  let ?rq = "grantsRequest (clSubject c) mk company reg" and ?d = "serviceDeps env l"
  have a: "Allowed (Evaluate ?d ?rq)" using assms(6) by (simp add: decisionRule_def Let_def split: if_splits)
  have rq: "rqScope ?rq = ScopeCompany" "rqSubjectID ?rq = clSubject c" "rqCompanyID ?rq = company"
    "rqModuleKey ?rq = mk" "rqRequiredCompanyRole ?rq = (if reg then ''admin'' else [])" "rqRelation ?rq = []"
    by (simp_all add: grantsRequest_def plainRequest_def)
  note f = Evaluate_company_facts [OF rq(1) a, unfolded rq]
  have adm: "granted R (lModel l) (''user'', clSubject c) [] {} (''company'', company, ''admin'')"
    if "companyRole_HasRole (fragmentEngineChecker env l) company (clSubject c) ''admin'' = Inr True"
  proof -
    have "nulFreeNode (''company'', company, ''admin'')" using assms(4) by (simp add: nul_free_def nul_def)
    from fragment_Check_granted [OF assms(1,2) this assms(3)] that show ?thesis
      by (simp add: companyRole_HasRole_def)
  qed
  have 1: "\<exists>d. envCompany env company = HttpStatus 200 (Some d) \<and> cdExists d \<and> cdIsActive d"
    using f org_State_active by auto
  have 2: "mk = FoundationModuleKey \<or> envCapability env mk = HttpStatus 200 (Some True)"
    using f registry_Enabled_True by auto
  have 3: "isSuperadmin R (lModel l) (clSubject c) \<or>
      (\<exists>d. envMembership env company (clSubject c) = HttpStatus 200 (Some d) \<and> mdIsMember d \<and> mdIsActive d) \<and>
      (reg \<longrightarrow> granted R (lModel l) (''user'', clSubject c) [] {} (''company'', company, ''admin''))"
    using f superadmin_granted [OF assms(1-3)] org_Membership_active adm by fastforce
  show ?thesis
    unfolding writesInCompany_def using 1 2 3 ownerRule_registered [OF assms(5)] by blast
qed

lemma moduleGrantRules_object:
  assumes rules: "moduleGrantRules mapOrder env (serviceDeps env l) l c req = Inr mk"
    and l: "effectiveEngine env = Inr l" "KnownEnabled l [] = None" "nulFreeModel (lModel l)"
    and R: "nulFreeRows R" "\<And>ot oi rel. answers R ot oi rel (envTuples env ot oi rel)"
    and t: "t \<in> set (gwTuples req)" "nul_free (ObjectType t)" "nul_free (ObjectID t)"
  shows "objectInModule env R l c req mk t"
proof -
  let ?a = "gwCompanyID req @ ''/'' @ mk"
  obtain own reg where r: "moduleOfTuples l (gwCompanyID req) [] (gwTuples req) = Inr mk"
    "ownerRule env c mk = Inr (own, reg)" "ownerEnabled env own mk = Inr ()"
    "anchorRules env (dpEngine (serviceDeps env l)) (clSubject c) mk (gwOp req) own ?a
       (inRequestAnchor (gwOp req) ?a (gwTuples req)) False (gwTuples req) = Inr ()"
    using moduleGrantRules_Inr [OF rules] by metis
  have m: "moduleOfTuple l (gwCompanyID req) t = Inr mk"
    using moduleOfTuples_Inr [OF r(1) l(2)] t(1) by blast
  have ok: "anchorRuleOK env (fragmentEngineChecker env l) (clSubject c) (gwOp req) own ?a
      (inRequestAnchor (gwOp req) ?a (gwTuples req)) False t"
    using anchorRules_Inr [OF r(4)] t(1) by simp
  note grant = fragment_Check_granted [OF R(1) l(3) _ R(2)]
  from moduleOfTuple_object [OF m] show ?thesis
  proof (elim disjE conjE)
    assume o: "ObjectType t = ''company_module''" "ObjectID t = ?a"
    with ok have "fragment_Check (envTuples env) l ''company_module'' ?a ''admin'' ''user'' (clSubject c) = Inr True"
      by (simp add: anchorRuleOK_def)
    moreover have "nulFreeNode (''company_module'', ?a, ''admin'')" using t(3) o(2) by (simp add: nul_free_def nul_def)
    ultimately show ?thesis using grant o by (simp add: objectInModule_def)
  next
    assume o: "ObjectType t \<noteq> ''company_module''" "TypeOwner l (ObjectType t) = Some mk"
    have nf: "nulFreeNode (ObjectType t, ObjectID t, ''company_module'')" using t(2,3) by (simp add: nul_free_def nul_def)
    have "own \<Longrightarrow> ownsModule env c mk" using r(2,3) ownerRule_owns by (cases own) auto
    then have "granted R (lModel l) (''company_module'', ?a) [] {} (ObjectType t, ObjectID t, ''company_module'') \<or>
         objectKey t \<in> set (inRequestAnchor (gwOp req) ?a (gwTuples req)) \<or>
         gwOp req = ''revoke'' \<and> ownsModule env c mk \<and>
           (\<exists>db. envPool env = Inr db \<and> AnchorOf db (ObjectType t) (ObjectID t) = [])"
      using ok o(1) grant [OF nf] by (auto simp: anchorRuleOK_def anchorOK_def)
    then show ?thesis using o TypeOwner_not_base [OF l(1) o(2)] unfolding objectInModule_def Let_def by blast
  qed
qed

lemma moduleGrantRules_grounds:
  assumes rules: "moduleGrantRules mapOrder env (serviceDeps env l) l c req = Inr mk"
    and "nulFreeModel (lModel l)" "nul_free (gwCompanyID req)"
    and R: "nulFreeRows R" "\<And>ot oi rel. answers R ot oi rel (envTuples env ot oi rel)"
  shows "ownsModule env c mk \<or> writesInCompany env R (lModel l) c (gwCompanyID req) mk"
proof -
  obtain own reg where r: "ownerRule env c mk = Inr (own, reg)" "ownerEnabled env own mk = Inr ()"
    "decisionRule (serviceDeps env l) (clSubject c) mk (gwCompanyID req) own reg = Inr ()"
    using moduleGrantRules_Inr [OF rules] by metis
  show ?thesis
  proof (cases own)
    case True
    with r ownerRule_owns show ?thesis by auto
  next
    case False
    then show ?thesis using decisionRule_writes [OF R(1) assms(2) R(2) assms(3)] r by simp
  qed
qed

lemma appoint_superadmin:
  assumes "Allowed (Evaluate (serviceDeps env l) (appointRequest sub))"
    and "nulFreeRows R" "nulFreeModel (lModel l)" "\<And>ot oi rel. answers R ot oi rel (envTuples env ot oi rel)"
  shows "isSuperadmin R (lModel l) sub"
proof -
  have "rqScope (appointRequest sub) = ScopeGlobal" "rqSubjectID (appointRequest sub) = sub"
    by (simp_all add: appointRequest_def)
  with assms(1) Evaluate_global_iff [of "appointRequest sub" "serviceDeps env l"]
  have "platformRole_HasRole (fragmentEngineChecker env l) sub (rqRequiredPlatformRole (appointRequest sub)) = Inr True"
    by simp
  from superadmin_granted [OF assms(2-4) this] show ?thesis .
qed

section \<open>Properties of the writing endpoints\<close>

text \<open>C14. What a change of the tuple table through the grants endpoint establishes: a validated
  bearer, and either a company-administrator appointment by a platform superadmin, or one module
  such that every tuple's object belongs to that module in the request's company, and the bearer is
  the app that registered the module or may write in the company.\<close>

theorem grants_authorised:
  assumes "handleGrants mapOrder uuidOK env fault header (Some req) db = (resp, ev, db')" and "db' \<noteq> db"
    and "effectiveEngine env = Inr l" "KnownEnabled l [] = None" "nulFreeModel (lModel l)"
    and "nulFreeRows R" "\<And>ot oi rel. answers R ot oi rel (envTuples env ot oi rel)"
    and "nul_free (gwCompanyID req)" "\<forall>t \<in> set (gwTuples req). nul_free (ObjectType t) \<and> nul_free (ObjectID t)"
  shows "\<exists>c. bearerClaims env header = Inr c \<and>
     (isCompanyAdminAppointment req \<and> isSuperadmin R (lModel l) (clSubject c) \<or>
      (\<exists>mk. (\<forall>t \<in> set (gwTuples req). objectInModule env R l c req mk t) \<and>
         (ownsModule env c mk \<or> writesInCompany env R (lModel l) c (gwCompanyID req) mk)))"
proof -
  from assms(1) show ?thesis
  proof (cases rule: handleGrants_cases)
    case refused
    with assms(2) show ?thesis by simp
  next
    case (wrote sub mk req')
    then obtain c where c: "bearerClaims env header = Inr c" "sub = clSubject c" "req' = req"
      and r: "if isCompanyAdminAppointment req
         then Allowed (Evaluate (serviceDeps env l) (appointRequest sub)) \<and> mk = FoundationModuleKey
         else moduleGrantRules mapOrder env (serviceDeps env l) l c req = Inr mk"
      using assms(3) by (auto simp: authorizeGrants_Inr grantsHead_Inr)
    show ?thesis
    proof (cases "isCompanyAdminAppointment req")
      case True
      with r c appoint_superadmin [OF _ assms(6,5,7)] show ?thesis by auto
    next
      case False
      with r have rules: "moduleGrantRules mapOrder env (serviceDeps env l) l c req = Inr mk" by simp
      have "\<forall>t \<in> set (gwTuples req). objectInModule env R l c req mk t"
        using moduleGrantRules_object [OF rules assms(3-7)] assms(9) by blast
      with moduleGrantRules_grounds [OF rules assms(5,8,6,7)] c(1) show ?thesis by blast
    qed
  qed
qed

text \<open>C15. The effect of the grants endpoint on every path: an error leaves the tables as they
  were; a success answers the number of tuples of an accepted request and has added exactly these
  tuples, or removed exactly what revoking them removes, with one audit row in the same transaction.\<close>

theorem grants_effect:
  "case handleGrants mapOrder uuidOK env fault header body db of
     (ErrorResponse e, ev, db') \<Rightarrow> db' = db
   | (DataResponse n, ev, db') \<Rightarrow>
       (\<exists>sub mk req. authorizeGrants mapOrder uuidOK env header body = Inr (sub, mk, req) \<and> body = Some req \<and>
          n = length (gwTuples req) \<and> 0 < n \<and> length ev = 1 \<and>
          set (tupleTab db') =
            (if gwOp req = ''grant'' then set (tupleTab db) \<union> set (gwTuples req)
             else set (tupleTab db) - revoked (set (tupleTab db)) (set (gwTuples req))))"
proof -
  obtain resp ev db' where h: "handleGrants mapOrder uuidOK env fault header body db = (resp, ev, db')"
    using prod_cases3 by blast
  from h show ?thesis
  proof (cases rule: handleGrants_cases)
    case refused
    with h show ?thesis by simp
  next
    case (wrote sub mk req)
    have "body = Some req" "gwTuples req \<noteq> []" using wrote(1) by (auto simp: authorizeGrants_Inr grantsHead_Inr)
    moreover have "length ev = 1"
      using h wrote(1,2) writeGrants_effect [of fault sub mk req db resp ev db'] by (auto simp: handleGrants_def)
    moreover have "set (tupleTab db') = (if gwOp req = ''grant'' then set (tupleTab db) \<union> set (gwTuples req)
             else set (tupleTab db) - revoked (set (tupleTab db)) (set (gwTuples req)))"
      using wrote(4) Grant_effect(1) Revoke_effect(1) by (auto split: if_splits)
    ultimately show ?thesis unfolding h wrote(2) using wrote(1) by auto
  qed
qed

section \<open>Sequences of writes\<close>

text \<open>Every committed write of the platform: the three writing endpoints, the grants other services
  make through the store, the default grants, and the owner-rights revocations.\<close>

inductive serviceStep :: "authzDB \<Rightarrow> authzDB \<Rightarrow> bool" where
  grants: "handleGrants mapOrder uuidOK env fault header body db = (resp, ev, db') \<Longrightarrow> serviceStep db db'"
| grantRole: "handleGrantPlatformRole env fault header role db = (resp', ev, db') \<Longrightarrow> serviceStep db db'"
| revokeRole: "handleRevokePlatformRole env fault header rl subject db = (resp', ev, db') \<Longrightarrow> serviceStep db db'"
| storeGrant: "Grant db actor corr ts = Inr db' \<Longrightarrow> serviceStep db db'"
| defaultGrant: "EnsureDefaultGrant db actor corr company module = Inr (b, db') \<Longrightarrow> serviceStep db db'"
| orgRevoke: "RevokePositionOrMemberTuple db actor corr t = Inr db' \<Longrightarrow> serviceStep db db'"

definition isSuperadminTuple :: "Tuple \<Rightarrow> bool" where
  "isSuperadminTuple t \<longleftrightarrow> ObjectType t = ''system'' \<and> ObjectID t = SystemPlatformID \<and>
     Relation t = ''superadmin'' \<and> SubjectType t = ''user'' \<and> SubjectRelation t = []"

definition superadmins :: "authzDB \<Rightarrow> Tuple set" where
  "superadmins db = {t \<in> set (tupleTab db). isSuperadminTuple t}"

lemma CountSuperadmins_card: "distinct (tupleTab db) \<Longrightarrow> CountSuperadmins db = card (superadmins db)"
  by (simp add: CountSuperadmins_def superadmins_def isSuperadminTuple_def distinct_card [symmetric])

lemma superadmins_mono: "set (tupleTab db) \<subseteq> set (tupleTab db') \<Longrightarrow> superadmins db \<subseteq> superadmins db'"
  by (auto simp: superadmins_def)

lemma writePlatformRole_Inr:
  assumes "writePlatformRole fault actor subject op db = Inr (ev, db')"
  shows "if op = ''revoke'' then Revoke db actor [] [SuperadminTuple subject] = Inr db' \<and>
      SuperadminTuple subject \<in> set (tupleTab db) \<and> 1 < CountSuperadmins db
    else Grant db actor [] [SuperadminTuple subject] = Inr db'"
  using assms
  by (auto simp: writePlatformRole_def rbind_Inr_iff Let_def tupleHeld_def filter_empty_conv
      split: if_splits option.splits)

lemma handleGrantPlatformRole_db:
  assumes "handleGrantPlatformRole env fault header body db = (resp, ev, db')"
  shows "db' = db \<or> (\<exists>actor subject. Grant db actor [] [SuperadminTuple subject] = Inr db')"
proof -
  let ?w = "\<lambda>actor subject. writePlatformRole fault actor subject ''grant'' db"
  from assms have "db' = db \<or> (\<exists>actor subject ev'. ?w actor subject = Inr (ev', db'))"
    unfolding handleGrantPlatformRole_def
    by (auto simp: rbind_def mapErr_def split: sum.splits if_splits)
  then show ?thesis using writePlatformRole_Inr [of fault _ _ "''grant''" db] by fastforce
qed

lemma handleRevokePlatformRole_db:
  assumes "handleRevokePlatformRole env fault header role subject db = (resp, ev, db')"
  shows "db' = db \<or> (\<exists>actor. Revoke db actor [] [SuperadminTuple subject] = Inr db' \<and>
    SuperadminTuple subject \<in> set (tupleTab db) \<and> 1 < CountSuperadmins db)"
proof -
  let ?w = "\<lambda>actor. writePlatformRole fault actor subject ''revoke'' db"
  from assms have "db' = db \<or> (\<exists>actor ev'. ?w actor = Inr (ev', db'))"
    unfolding handleRevokePlatformRole_def
    by (auto simp: rbind_def mapErr_def split: sum.splits if_splits)
  then show ?thesis using writePlatformRole_Inr [of fault _ subject "''revoke''" db] by fastforce
qed

lemma moduleOfTuples_each:
  "moduleOfTuples l company acc ts = Inr mk \<Longrightarrow> t \<in> set ts \<Longrightarrow> \<exists>m. moduleOfTuple l company t = Inr m"
  by (induction ts arbitrary: acc) (auto simp: rbind_Inr_iff split: if_splits)

lemma system_base: "IsBaseType ''system''"
  by code_simp

lemma authorizeGrants_not_system:
  assumes "authorizeGrants mapOrder uuidOK env header body = Inr (sub, mk, req)" "t \<in> set (gwTuples req)"
  shows "ObjectType t \<noteq> ''system''"
proof -
  obtain c l where l: "effectiveEngine env = Inr l"
    and r: "if isCompanyAdminAppointment req
         then Allowed (Evaluate (serviceDeps env l) (appointRequest sub)) \<and> mk = FoundationModuleKey
         else moduleGrantRules mapOrder env (serviceDeps env l) l c req = Inr mk"
    using assms(1) by (auto simp: authorizeGrants_Inr)
  show ?thesis
  proof (cases "isCompanyAdminAppointment req")
    case True
    with assms(2) show ?thesis by (auto simp: isCompanyAdminAppointment_def)
  next
    case False
    with r have "moduleGrantRules mapOrder env (serviceDeps env l) l c req = Inr mk" by simp
    then have "moduleOfTuples l (gwCompanyID req) [] (gwTuples req) = Inr mk"
      by (rule moduleGrantRules_Inr)
    from moduleOfTuples_each [OF this assms(2)] obtain m where
      "moduleOfTuple l (gwCompanyID req) t = Inr m" by blast
    from moduleOfTuple_object [OF this] TypeOwner_not_base [OF l] system_base show ?thesis by auto
  qed
qed

lemma Revoke_keeps_superadmins:
  assumes "Revoke db actor corr ts = Inr db'" "\<forall>t \<in> set ts. ObjectType t \<noteq> ''system''"
  shows "superadmins db \<subseteq> superadmins db'"
  using Revoke_effect(1) [OF assms(1)] assms(2)
  by (auto simp: superadmins_def revoked_def sameObject_def isSuperadminTuple_def)

lemma RevokePositionOrMemberTuple_keeps_superadmins:
  assumes "RevokePositionOrMemberTuple db actor corr t = Inr db'"
  shows "superadmins db \<subseteq> superadmins db'"
proof -
  have "permittedShape t" "tupleTab db' = filter (\<lambda>u. u \<noteq> t) (tupleTab db)"
    using assms by (auto simp: RevokePositionOrMemberTuple_def revoke_position_or_member_tuple_def
        deleteTupleSQL_def split: if_splits)
  then show ?thesis by (auto simp: superadmins_def isSuperadminTuple_def permittedShape_def)
qed

lemma Revoke_one_superadmin:
  assumes "Revoke db actor [] [SuperadminTuple u] = Inr db'" "storeInv db" "1 < CountSuperadmins db"
  shows "1 \<le> CountSuperadmins db'"
proof -
  have sup: "superadmins db' = superadmins db - {SuperadminTuple u}"
    using Revoke_effect(1) [OF assms(1)]
    by (auto simp: superadmins_def revoked_def isAnchor_def SuperadminTuple_def)
  have "distinct (tupleTab db)" "distinct (tupleTab db')"
    using assms(2) Revoke_inv [OF assms(1,2)] by (simp_all add: storeInv_def)
  with assms(3) have "1 < card (superadmins db)" "CountSuperadmins db' = card (superadmins db - {SuperadminTuple u})"
    by (simp_all add: CountSuperadmins_card sup)
  moreover have "card (superadmins db) - 1 \<le> card (superadmins db - {SuperadminTuple u})"
    using diff_card_le_card_Diff [of "{SuperadminTuple u}" "superadmins db"] by simp
  ultimately show ?thesis by linarith
qed

lemma superadmins_remain:
  assumes "storeInv db" "storeInv db'" "1 \<le> CountSuperadmins db" "superadmins db \<subseteq> superadmins db'"
  shows "1 \<le> CountSuperadmins db'"
proof -
  have "finite (superadmins db')" by (simp add: superadmins_def)
  from card_mono [OF this assms(4)] assms(1-3) show ?thesis
    by (simp add: storeInv_def CountSuperadmins_card)
qed

lemma Grant_keeps_superadmins: "Grant db actor corr ts = Inr db' \<Longrightarrow> superadmins db \<subseteq> superadmins db'"
  by (rule superadmins_mono) (simp add: Grant_effect(1))

definition serviceInv :: "authzDB \<Rightarrow> bool" where
  "serviceInv db \<longleftrightarrow> storeInv db \<and> 1 \<le> CountSuperadmins db"

lemmas keeps_superadmins = superadmins_remain [OF _ _ _ Grant_keeps_superadmins]
  superadmins_remain [OF _ _ _ RevokePositionOrMemberTuple_keeps_superadmins]

lemma serviceStep_inv: "serviceStep db db' \<Longrightarrow> serviceInv db \<Longrightarrow> serviceInv db'"
proof (induction rule: serviceStep.induct)
  case (grants mapOrder uuidOK env fault header body db resp ev db')
  from grants(1) show ?case
  proof (cases rule: handleGrants_cases)
    case (wrote sub mk req)
    show ?thesis
    proof (cases "gwOp req = ''grant''")
      case True
      with wrote have "Grant db sub (gwCorrelationID req) (gwTuples req) = Inr db'" by simp
      with grants(2) show ?thesis unfolding serviceInv_def using Grant_inv keeps_superadmins(1) by blast
    next
      case False
      with wrote have rv: "Revoke db sub (gwCorrelationID req) (gwTuples req) = Inr db'" by simp
      with grants(2) have "storeInv db'" unfolding serviceInv_def using Revoke_inv by blast
      moreover have "superadmins db \<subseteq> superadmins db'"
        by (rule Revoke_keeps_superadmins [OF rv]) (use authorizeGrants_not_system [OF wrote(1)] in blast)
      ultimately show ?thesis using grants(2) superadmins_remain unfolding serviceInv_def by blast
    qed
  qed (use grants in simp)
next
  case (grantRole env fault header role db resp' ev db')
  from handleGrantPlatformRole_db [OF grantRole(1)] grantRole(2) show ?case
    unfolding serviceInv_def using Grant_inv keeps_superadmins(1) by blast
next
  case (revokeRole env fault header rl subject db resp' ev db')
  from handleRevokePlatformRole_db [OF revokeRole(1)] revokeRole(2) show ?case
    unfolding serviceInv_def using Revoke_inv Revoke_one_superadmin by blast
next
  case (storeGrant db actor corr ts db')
  then show ?case unfolding serviceInv_def using Grant_inv keeps_superadmins(1) by blast
next
  case (defaultGrant db actor corr company module b db')
  then have "superadmins db \<subseteq> superadmins db'"
    by (intro superadmins_mono) (auto simp: EnsureDefaultGrant_effect(3))
  with defaultGrant show ?case
    unfolding serviceInv_def using EnsureDefaultGrant_inv superadmins_remain by blast
next
  case (orgRevoke db actor corr t db')
  then show ?case
    unfolding serviceInv_def using RevokePositionOrMemberTuple_inv keeps_superadmins(2) by blast
qed

lemma serviceSteps_inv: "serviceStep\<^sup>*\<^sup>* db db' \<Longrightarrow> serviceInv db \<Longrightarrow> serviceInv db'"
  by (induction rule: rtranclp_induct) (auto intro: serviceStep_inv)

text \<open>Two superadmins, of whom one dismisses the other.\<close>

definition exTwoDB :: authzDB where
  "exTwoDB = emptyDB\<lparr>tupleTab := [SuperadminTuple ''root'', SuperadminTuple ''alice''],
     grantLedger := map (ledgerRow ''bootstrap'' None OpGrant) [SuperadminTuple ''root'', SuperadminTuple ''alice'']\<rparr>"

lemma exTwo_inv: "storeInv exTwoDB" "1 \<le> CountSuperadmins exTwoDB"
proof -
  have "replay (grantLedger exTwoDB) = {} \<union> set [SuperadminTuple ''root'', SuperadminTuple ''alice'']"
    unfolding replay_def using replay_grants [of "{}" "''bootstrap''" None "[SuperadminTuple ''root'', SuperadminTuple ''alice'']"]
    by (simp add: exTwoDB_def)
  then show "storeInv exTwoDB"
    by (simp add: storeInv_def oneAnchor_def) (simp add: exTwoDB_def emptyDB_def isAnchor_def SuperadminTuple_def
        missingField_def SystemPlatformID_def)
  show "1 \<le> CountSuperadmins exTwoDB" by code_simp
qed

lemma exTwo_authorized:
  "Allowed (Evaluate (serviceDeps (exEnv exTwoDB) exLoaded) (platformRoleRequest ''root'' ''authz.platform_role.revoke''))"
  by code_simp

lemma exTwo_revoke:
  "\<exists>ev db'. handleRevokePlatformRole (exEnv exTwoDB) None ''Bearer root'' PlatformRoleSuperadmin ''alice'' exTwoDB =
     (DataResponse (''alice'', PlatformRoleSuperadmin), ev, db') \<and> SuperadminTuple ''alice'' \<notin> set (tupleTab db')"
proof -
  have "case writePlatformRole None ''root'' ''alice'' ''revoke'' exTwoDB of
      Inl _ \<Rightarrow> False | Inr (ev, db') \<Rightarrow> SuperadminTuple ''alice'' \<notin> set (tupleTab db')" by code_simp
  then obtain ev db' where w: "writePlatformRole None ''root'' ''alice'' ''revoke'' exTwoDB = Inr (ev, db')"
      "SuperadminTuple ''alice'' \<notin> set (tupleTab db')" by (auto split: sum.splits)
  have "bearerClaims (exEnv exTwoDB) ''Bearer root'' = Inr \<lparr>clSubject = ''root'', clClientID = []\<rparr>"
    "writePlatformRoleValidation PlatformRoleSuperadmin ''alice'' = Inr ()" by code_simp+
  with w exTwo_authorized show ?thesis
    by (simp add: handleRevokePlatformRole_def authorizePlatformRoleChange_def buildDeciderAndChecker_def
        exEnv_effective mapErr_def)
qed

text \<open>C16. The platform never loses its last administrator: from a consistent state with a
  superadmin, every sequence of writes, by any callers in any order and with any failures, leads to
  a consistent state with at least one superadmin.\<close>

theorem superadmin_remains:
  assumes "serviceStep\<^sup>*\<^sup>* db db'" "storeInv db" "1 \<le> CountSuperadmins db"
  shows "1 \<le> CountSuperadmins db' \<and> storeInv db'"
  using serviceSteps_inv [OF assms(1)] assms(2,3) by (simp add: serviceInv_def)

theorem superadmin_remains_witness:
  "\<exists>db'. serviceStep\<^sup>*\<^sup>* exTwoDB db' \<and> SuperadminTuple ''alice'' \<in> set (tupleTab exTwoDB) \<and>
     SuperadminTuple ''alice'' \<notin> set (tupleTab db') \<and> 1 \<le> CountSuperadmins db'"
proof -
  obtain ev db' where step: "handleRevokePlatformRole (exEnv exTwoDB) None ''Bearer root'' PlatformRoleSuperadmin
      ''alice'' exTwoDB = (DataResponse (''alice'', PlatformRoleSuperadmin), ev, db')"
    and gone: "SuperadminTuple ''alice'' \<notin> set (tupleTab db')" using exTwo_revoke by blast
  have run: "serviceStep\<^sup>*\<^sup>* exTwoDB db'" using serviceStep.revokeRole [OF step] by blast
  have "SuperadminTuple ''alice'' \<in> set (tupleTab exTwoDB)" by (simp add: exTwoDB_def)
  with superadmin_remains [OF run exTwo_inv] run gone show ?thesis by blast
qed

section \<open>Isolation of companies\<close>

text \<open>Every type a module declares carries its anchor relation as direct tuples.\<close>

definition anchoredTypes :: "Model \<Rightarrow> bool" where
  "anchoredTypes M \<longleftrightarrow> (\<forall>(ty, rels) \<in> set M. IsBaseType ty \<or> map_of rels ''company_module'' = Some kindThis)"

lemma ValidateCompanyModuleAnchor_anchored: "ValidateCompanyModuleAnchor m = Inr () \<Longrightarrow> anchoredTypes m"
  by (auto simp: ValidateCompanyModuleAnchor_def anchoredTypes_def IsThis_def split: option.splits if_splits Expr.splits)

lemma loadRows_anchored:
  "loadRows known merged allowed owner rows = Inr (merged', allowed', owner') \<Longrightarrow> anchoredTypes merged \<Longrightarrow>
   anchoredTypes merged'"
proof (induction rows arbitrary: merged allowed owner)
  case (Cons r rows)
  show ?case
  proof (cases "effective known r")
    case False
    then obtain al where "loadRows known merged al owner rows = Inr (merged', allowed', owner')"
      using Cons.prems(1) by (auto simp: effective_def Let_def)
    with Cons show ?thesis by blast
  next
    case True
    then obtain al m ow me where m: "LoadModel (Fragment r) = Inr m" "ValidateCompanyModuleAnchor m = Inr ()"
        "Merge merged m = Inr me" "loadRows known me al ow rows = Inr (merged', allowed', owner')"
      using Cons.prems(1) by (auto simp: effective_def Let_def rbind_Inr_iff)
    have "distinct (map fst m)" using LoadModel_wfModel [OF m(1)] by (simp add: wfModel_def)
    then have "me = merged @ m" using m(3) Merge_Inr_iff by blast
    then have "anchoredTypes me" using Cons.prems(2) ValidateCompanyModuleAnchor_anchored [OF m(2)]
      by (auto simp: anchoredTypes_def)
    from Cons.IH [OF m(4) this] show ?thesis .
  qed
qed simp

lemma owned_type_anchored:
  assumes "effectiveEngine env = Inr l" "TypeOwner l ty = Some mk"
  shows "relDef (lModel l) ty ''company_module'' = Some kindThis"
proof -
  obtain known rows where l: "Load (Inr rows) known = Inr l" by (rule effectiveEngine_Load [OF assms(1)])
  have "anchoredTypes BaseModel" by (auto simp: anchoredTypes_def IsBaseType_iff rev_image_eqI)
  with loadRows_anchored [OF Load_Inr(1) [OF l]] have a: "anchoredTypes (lModel l)" by blast
  have "ty \<in> fst ` set (lModel l)" using Load_Inr(3) [OF l] assms(2) by (auto simp: loadInv_def dom_def)
  then obtain rels where "map_of (lModel l) ty = Some rels" using map_of_eq_None_iff by fastforce
  with a TypeOwner_not_base [OF assms] show ?thesis
    by (auto simp: relDef_def anchoredTypes_def dest: map_of_SomeD)
qed

text \<open>The tables hold only direct anchors.\<close>

definition directAnchors :: "authzDB \<Rightarrow> bool" where
  "directAnchors db \<longleftrightarrow> (\<forall>t \<in> set (tupleTab db). Relation t = ''company_module'' \<longrightarrow>
     SubjectType t = ''company_module'' \<and> SubjectRelation t = [])"

definition anchorTuple :: "string \<Rightarrow> string \<Rightarrow> string \<Rightarrow> Tuple" where
  "anchorTuple ot oi a = \<lparr>ObjectType = ot, ObjectID = oi, Relation = ''company_module'',
     SubjectType = ''company_module'', SubjectID = a, SubjectRelation = []\<rparr>"

lemma granted_anchor:
  assumes "directAnchors db" "relDef M ot ''company_module'' = Some kindThis"
    and "granted (rowsOf (storeRows db)) M (''company_module'', a) [] {} (ot, oi, ''company_module'')"
  shows "anchorTuple ot oi a \<in> set (tupleTab db)"
  using assms(3)
proof (cases rule: granted.cases)
  case (grant e)
  with assms(2) obtain r where r: "r \<in> rowsOf (storeRows db) ot oi ''company_module''"
      "supports (rowsOf (storeRows db)) (''company_module'', a) []
         (granted (rowsOf (storeRows db)) M (''company_module'', a) [] {}) r" by auto
  from r(1) have t: "\<lparr>ObjectType = ot, ObjectID = oi, Relation = ''company_module'', SubjectType = subjectType r,
      SubjectID = subjectID r, SubjectRelation = subjectRelation r\<rparr> \<in> set (tupleTab db)"
    by (simp add: rowsOf_storeRows)
  with assms(1) have "subjectRelation r = []" unfolding directAnchors_def by fastforce
  with r(2) t show ?thesis by (simp add: supports_def anchorTuple_def)
qed

lemma AnchorOf_unique:
  assumes "storeInv db" "t \<in> set (tupleTab db)" "isAnchor t"
  shows "AnchorOf db (ObjectType t) (ObjectID t) = SubjectID t"
proof -
  let ?P = "\<lambda>u. ObjectType u = ObjectType t \<and> ObjectID u = ObjectID t \<and> Relation u = ''company_module'' \<and>
      SubjectType u = ''company_module''"
  have "t \<in> set (filter ?P (tupleTab db))" using assms(2,3) by (simp add: isAnchor_def)
  then obtain u us where u: "filter ?P (tupleTab db) = u # us" by (cases "filter ?P (tupleTab db)") auto
  then have "u \<in> set (filter ?P (tupleTab db))" by simp
  then have "u \<in> set (tupleTab db)" "isAnchor u" "sameObject u t" by (simp_all add: isAnchor_def sameObject_def)
  with assms have "u = t" unfolding storeInv_def oneAnchor_def by blast
  with u show ?thesis by (simp add: AnchorOf_def)
qed

lemma AnchorOf_nonempty:
  assumes "AnchorOf db ot oi \<noteq> []"
  shows "\<exists>t \<in> set (tupleTab db). isAnchor t \<and> ObjectType t = ot \<and> ObjectID t = oi \<and> SubjectID t = AnchorOf db ot oi"
proof -
  let ?P = "\<lambda>u. ObjectType u = ot \<and> ObjectID u = oi \<and> Relation u = ''company_module'' \<and>
      SubjectType u = ''company_module''"
  from assms obtain u us where u: "filter ?P (tupleTab db) = u # us" by (auto simp: AnchorOf_def split: list.splits)
  then have "u \<in> set (filter ?P (tupleTab db))" by simp
  then have "u \<in> set (tupleTab db)" "?P u" by simp_all
  moreover have "AnchorOf db ot oi = SubjectID u" using u by (simp add: AnchorOf_def)
  ultimately show ?thesis unfolding isAnchor_def by metis
qed

text \<open>Anchors that a larger table contains are the anchors of that table.\<close>

lemma AnchorOf_grows:
  assumes "storeInv db'" "set (tupleTab db) \<subseteq> set (tupleTab db')" "anchorTuple ot oi a \<in> set (tupleTab db')"
  shows "AnchorOf db' ot oi = a" and "AnchorOf db ot oi \<in> {[], a}"
proof -
  have an: "isAnchor (anchorTuple ot oi a)" by (simp add: isAnchor_def anchorTuple_def)
  show db': "AnchorOf db' ot oi = a"
    using AnchorOf_unique [OF assms(1,3) an] by (simp add: anchorTuple_def)
  show "AnchorOf db ot oi \<in> {[], a}"
  proof (cases "AnchorOf db ot oi = []")
    case False
    from AnchorOf_nonempty [OF this] obtain t where t: "t \<in> set (tupleTab db')" "isAnchor t"
        "ObjectType t = ot" "ObjectID t = oi" "SubjectID t = AnchorOf db ot oi" using assms(2) by blast
    from AnchorOf_unique [OF assms(1) t(1,2)] t db' show ?thesis by simp
  qed simp
qed

lemma objectKey_inject:
  assumes "objectKey t = objectKey u" "CHR '':'' \<notin> set (ObjectType t)" "CHR '':'' \<notin> set (ObjectType u)"
  shows "sameObject t u"
proof -
  have cut: "takeWhile (\<lambda>c. c \<noteq> CHR '':'') (objectKey v) = ObjectType v"
    "dropWhile (\<lambda>c. c \<noteq> CHR '':'') (objectKey v) = CHR '':'' # ObjectID v"
    if "CHR '':'' \<notin> set (ObjectType v)" for v
    using that by (auto simp: objectKey_def takeWhile_append dropWhile_append)
  from cut [OF assms(2)] cut [OF assms(3)] assms(1) show ?thesis by (simp add: sameObject_def)
qed

lemma inRequestAnchor_key:
  assumes "key \<in> set (inRequestAnchor op a ts)"
  obtains t where "t \<in> set ts" "key = objectKey t" "t = anchorTuple (ObjectType t) (ObjectID t) a" "op = ''grant''"
  using assms that by (auto simp: inRequestAnchor_def anchorTuple_def split: if_splits)

text \<open>What one accepted tuple of a request says about its object, when the request read the tables it
  wrote to.\<close>

lemma accepted_anchor:
  assumes "objectInModule env (rowsOf (storeRows db)) l c req mk t" "t \<in> set (gwTuples req)"
    and "\<not> IsBaseType (ObjectType t)" "envPool env = Inr db" "effectiveEngine env = Inr l"
    and "storeInv db" "directAnchors db" "\<And>ty. TypeOwner l ty \<noteq> None \<Longrightarrow> CHR '':'' \<notin> set ty"
    and "\<And>u. u \<in> set (gwTuples req) \<Longrightarrow> TypeOwner l (ObjectType u) \<noteq> None \<or> ObjectType u = ''company_module''"
    and "if gwOp req = ''grant'' then Grant db sub corr (gwTuples req) = Inr db'
         else Revoke db sub corr (gwTuples req) = Inr db'"
  shows "TypeOwner l (ObjectType t) = Some mk \<and>
     AnchorOf db (ObjectType t) (ObjectID t) \<in> {[], gwCompanyID req @ ''/'' @ mk} \<and>
     (gwOp req = ''grant'' \<longrightarrow> AnchorOf db' (ObjectType t) (ObjectID t) = gwCompanyID req @ ''/'' @ mk)"
proof -
  let ?a = "gwCompanyID req @ ''/'' @ mk" and ?ot = "ObjectType t" and ?oi = "ObjectID t"
  have base: "IsBaseType ''company_module''" by code_simp
  with assms(1,3) have own: "TypeOwner l ?ot = Some mk"
    and c: "granted (rowsOf (storeRows db)) (lModel l) (''company_module'', ?a) [] {} (?ot, ?oi, ''company_module'') \<or>
         objectKey t \<in> set (inRequestAnchor (gwOp req) ?a (gwTuples req)) \<or>
         gwOp req = ''revoke'' \<and> AnchorOf db ?ot ?oi = []"
    using assms(4) by (auto simp: objectInModule_def Let_def)
  have grow: "storeInv db'" "set (tupleTab db) \<subseteq> set (tupleTab db')" "set (gwTuples req) \<subseteq> set (tupleTab db')"
    if "gwOp req = ''grant''"
    using assms(10) that Grant_inv assms(6) Grant_effect(1) by (auto split: if_splits)
  from c show ?thesis
  proof (elim disjE conjE)
    assume "granted (rowsOf (storeRows db)) (lModel l) (''company_module'', ?a) [] {} (?ot, ?oi, ''company_module'')"
    then have a: "anchorTuple ?ot ?oi ?a \<in> set (tupleTab db)"
      by (rule granted_anchor [OF assms(7) owned_type_anchored [OF assms(5) own]])
    have "AnchorOf db ?ot ?oi = ?a" using AnchorOf_grows(1) [OF assms(6) _ a, of db] by simp
    moreover have "gwOp req = ''grant'' \<Longrightarrow> AnchorOf db' ?ot ?oi = ?a"
      using AnchorOf_grows(1) [OF grow(1,2)] grow(2) a by blast
    ultimately show ?thesis using own by blast
  next
    assume "objectKey t \<in> set (inRequestAnchor (gwOp req) ?a (gwTuples req))"
    then obtain u where u: "u \<in> set (gwTuples req)" "objectKey t = objectKey u"
      "u = anchorTuple (ObjectType u) (ObjectID u) ?a" and g: "gwOp req = ''grant''"
      by (rule inRequestAnchor_key)
    have "CHR '':'' \<notin> set (ObjectType u)" using assms(8,9) u(1) by fastforce
    moreover have "CHR '':'' \<notin> set ?ot" using assms(8) own by simp
    ultimately have "sameObject t u" using objectKey_inject u(2) by blast
    with u have "anchorTuple ?ot ?oi ?a \<in> set (tupleTab db')"
      using grow(3) [OF g] by (auto simp: sameObject_def)
    from AnchorOf_grows [OF grow(1,2) [OF g] this] own g show ?thesis by blast
  next
    assume "gwOp req = ''revoke''" "AnchorOf db ?ot ?oi = []"
    with own show ?thesis by simp
  qed
qed

lemma changed_tuple:
  assumes "if op = ''grant'' then Grant db sub corr ts = Inr db' else Revoke db sub corr ts = Inr db'"
    and "(t \<in> set (tupleTab db)) \<noteq> (t \<in> set (tupleTab db'))"
  shows "\<exists>u \<in> set ts. sameObject t u"
  using assms Grant_effect(1) [of db sub corr ts db'] Revoke_effect(1) [of db sub corr ts db']
  by (auto simp: revoked_def sameObject_def split: if_splits)

text \<open>Two companies with one document each, and two requests of the first company's member: sharing
  a new document, and binding a new document to the other company's as well.\<close>

definition exTenantDB :: authzDB where
  "exTenantDB = exServiceDB\<lparr>tupleTab := tupleTab exServiceDB @ [anchorTuple ''doc'' ''2'' ''globex/docs''],
     grantLedger := map (ledgerRow ''root'' None OpGrant)
       (tupleTab exServiceDB @ [anchorTuple ''doc'' ''2'' ''globex/docs''])\<rparr>"

definition exGrant :: grantsRequestWire where
  "exGrant = \<lparr>gwOp = ''grant'', gwCompanyID = ''acme'', gwTuples = [anchorTuple ''doc'' ''3'' ''acme/docs'',
     \<lparr>ObjectType = ''doc'', ObjectID = ''3'', Relation = ''viewer'', SubjectType = ''user'', SubjectID = ''bob'',
       SubjectRelation = []\<rparr>], gwCorrelationID = []\<rparr>"

definition exShare :: grantsRequestWire where
  "exShare = exGrant\<lparr>gwTuples := [anchorTuple ''doc'' ''3'' ''acme/docs'',
     \<lparr>ObjectType = ''doc'', ObjectID = ''3'', Relation = ''company_module'', SubjectType = ''doc'', SubjectID = ''2'',
       SubjectRelation = ''company_module''\<rparr>]\<rparr>"

abbreviation (input) exAlice :: Claims where
  "exAlice \<equiv> \<lparr>clSubject = ''alice'', clClientID = []\<rparr>"

lemma exGrants_accepted:
  assumes "moduleGrantRules id (exEnv db) (serviceDeps (exEnv db) exLoaded) exLoaded exAlice req = Inr mk"
    and "\<not> isCompanyAdminAppointment req" "gwOp req \<in> {''grant'', ''revoke''}" "gwTuples req \<noteq> []"
  shows "handleGrants id (\<lambda>_. True) (exEnv db) None ''Bearer alice'' (Some req) db = writeGrants None ''alice'' mk req db"
proof -
  have "bearerClaims (exEnv db) ''Bearer alice'' = Inr exAlice"
    by (simp add: bearerClaims_def VerifyClaims_def exEnv_def hasPrefix_def trimPrefix_def)
  then have "authorizeGrants id (\<lambda>_. True) (exEnv db) ''Bearer alice'' (Some req) = Inr (''alice'', mk, req)"
    unfolding authorizeGrants_Inr using assms by (auto simp: grantsHead_Inr exEnv_effective)
  then show ?thesis by (simp add: handleGrants_def)
qed

lemma exGrant_rules:
  "moduleGrantRules id (exEnv exTenantDB) (serviceDeps (exEnv exTenantDB) exLoaded) exLoaded exAlice exGrant = Inr ''docs''"
  by code_simp

lemma exShare_rules:
  "moduleGrantRules id (exEnv exTenantDB) (serviceDeps (exEnv exTenantDB) exLoaded) exLoaded exAlice exShare = Inr ''docs''"
  by code_simp

text \<open>C17. Requests of one company do not touch the objects of another. When a request writes to the
  consistent tables it read, these hold only direct anchors, and the types that modules own have no
  colon in their names, every tuple it adds to or removes from a
  module's object belongs to an object that was anchored to the request's company and that module,
  or to nothing; after a grant it is anchored there.\<close>

theorem grants_isolated:
  assumes "handleGrants mapOrder uuidOK env fault header (Some req) db = (resp, ev, db')"
    and "(t \<in> set (tupleTab db)) \<noteq> (t \<in> set (tupleTab db'))" "\<not> IsBaseType (ObjectType t)"
    and "envTuples env = tableDB (storeRows db)" "envPool env = Inr db" "storeInv db" "directAnchors db"
    and "effectiveEngine env = Inr l" "KnownEnabled l [] = None" "nulFreeModel (lModel l)"
    and "\<And>ty. TypeOwner l ty \<noteq> None \<Longrightarrow> CHR '':'' \<notin> set ty"
    and "nulFreeRows (rowsOf (storeRows db))"
    and "\<forall>t \<in> set (gwTuples req). nul_free (ObjectType t) \<and> nul_free (ObjectID t)"
  shows "\<exists>mk. TypeOwner l (ObjectType t) = Some mk \<and>
     AnchorOf db (ObjectType t) (ObjectID t) \<in> {[], gwCompanyID req @ ''/'' @ mk} \<and>
     (gwOp req = ''grant'' \<longrightarrow> AnchorOf db' (ObjectType t) (ObjectID t) = gwCompanyID req @ ''/'' @ mk)"
proof -
  from assms(1) show ?thesis
  proof (cases rule: handleGrants_cases)
    case refused
    with assms(2) show ?thesis by simp
  next
    case (wrote sub mk req')
    then obtain c where req': "req' = req" "sub = clSubject c"
      and r: "if isCompanyAdminAppointment req
         then Allowed (Evaluate (serviceDeps env l) (appointRequest sub)) \<and> mk = FoundationModuleKey
         else moduleGrantRules mapOrder env (serviceDeps env l) l c req = Inr mk"
      using assms(8) by (auto simp: authorizeGrants_Inr grantsHead_Inr)
    note w = wrote(4) [unfolded req'(1)]
    obtain u where u: "u \<in> set (gwTuples req)" "sameObject t u" using changed_tuple [OF w assms(2)] by blast
    then have same: "ObjectType u = ObjectType t" "ObjectID u = ObjectID t" by (simp_all add: sameObject_def)
    have "IsBaseType ''company''" by code_simp
    with assms(3) same have "ObjectType u \<noteq> ''company''" by auto
    with u(1) have "\<not> isCompanyAdminAppointment req" by (auto simp: isCompanyAdminAppointment_def)
    with r have rules: "moduleGrantRules mapOrder env (serviceDeps env l) l c req = Inr mk" by simp
    have R: "answers (rowsOf (storeRows db)) ot oi rel (envTuples env ot oi rel)" for ot oi rel
      by (simp add: assms(4) tableDB_answers)
    have obj: "objectInModule env (rowsOf (storeRows db)) l c req mk v" if "v \<in> set (gwTuples req)" for v
      using moduleGrantRules_object [OF rules assms(8-10,12) R that] assms(13) that by blast
    then have types: "TypeOwner l (ObjectType v) \<noteq> None \<or> ObjectType v = ''company_module''"
      if "v \<in> set (gwTuples req)" for v
      using that by (auto simp: objectInModule_def Let_def)
    have "\<not> IsBaseType (ObjectType u)" using assms(3) same by simp
    from accepted_anchor [OF obj [OF u(1)] u(1) this assms(5,8,6,7,11) types w]
    show ?thesis unfolding same by blast
  qed
qed

lemma exTenant_facts:
  "storeInv exTenantDB" "directAnchors exTenantDB" "nulFreeRows (rowsOf (storeRows exTenantDB))"
  "KnownEnabled exLoaded [] = None" "TypeOwner exLoaded ty \<noteq> None \<Longrightarrow> CHR '':'' \<notin> set ty"
proof -
  note defs = exTenantDB_def exServiceDB_def emptyDB_def SuperadminTuple_def companyAnchorTuple_def
    companyModuleID_def anchorTuple_def SystemPlatformID_def
  have "replay (grantLedger exTenantDB) = {} \<union> set (tupleTab exTenantDB)"
    unfolding replay_def using replay_grants [of "{}" "''root''" None "tupleTab exTenantDB"] by (simp add: exTenantDB_def)
  then show "storeInv exTenantDB"
    unfolding storeInv_def by (simp add: oneAnchor_def) (simp add: defs isAnchor_def sameObject_def missingField_def)
  show "directAnchors exTenantDB" by (simp add: directAnchors_def defs)
  show "nulFreeRows (rowsOf (storeRows exTenantDB))"
    by (simp add: nulFreeRows_rowsOf storeRows_def defs nulFreeRow_def nul_free_def nul_def)
  show "KnownEnabled exLoaded [] = None" by (simp add: exLoaded_def exKnown_def)
  show "CHR '':'' \<notin> set ty" if "TypeOwner exLoaded ty \<noteq> None"
    using that by (auto simp: exLoaded_def split: if_splits)
qed

lemma exGrant_runs:
  "\<exists>ev db'. handleGrants id (\<lambda>_. True) (exEnv exTenantDB) None ''Bearer alice'' (Some exGrant) exTenantDB =
     (DataResponse 2, ev, db') \<and> anchorTuple ''doc'' ''3'' ''acme/docs'' \<in> set (tupleTab db') \<and>
     anchorTuple ''doc'' ''3'' ''acme/docs'' \<notin> set (tupleTab exTenantDB)"
proof -
  have "case writeGrants None ''alice'' ''docs'' exGrant exTenantDB of
      (DataResponse n, ev, db') \<Rightarrow> n = 2 \<and> anchorTuple ''doc'' ''3'' ''acme/docs'' \<in> set (tupleTab db') \<and>
        anchorTuple ''doc'' ''3'' ''acme/docs'' \<notin> set (tupleTab exTenantDB) | _ \<Rightarrow> False" by code_simp
  moreover have "handleGrants id (\<lambda>_. True) (exEnv exTenantDB) None ''Bearer alice'' (Some exGrant) exTenantDB =
      writeGrants None ''alice'' ''docs'' exGrant exTenantDB"
    by (rule exGrants_accepted [OF exGrant_rules]) code_simp+
  ultimately show ?thesis by (auto split: prod.splits response.splits)
qed

theorem grants_authorised_witness:
  "\<exists>mk. objectInModule (exEnv exTenantDB) (rowsOf (storeRows exTenantDB)) exLoaded exAlice exGrant mk
      (anchorTuple ''doc'' ''3'' ''acme/docs'') \<and>
     (ownsModule (exEnv exTenantDB) exAlice mk \<or>
      writesInCompany (exEnv exTenantDB) (rowsOf (storeRows exTenantDB)) (lModel exLoaded) exAlice ''acme'' mk)"
proof -
  obtain ev db' where h: "handleGrants id (\<lambda>_. True) (exEnv exTenantDB) None ''Bearer alice'' (Some exGrant) exTenantDB =
     (DataResponse 2, ev, db')" and ne: "db' \<noteq> exTenantDB" using exGrant_runs by blast
  have R: "answers (rowsOf (storeRows exTenantDB)) ot oi rel (envTuples (exEnv exTenantDB) ot oi rel)" for ot oi rel
    by (simp add: exEnv_def tableDB_answers)
  have nf: "nul_free (gwCompanyID exGrant)" "\<forall>t \<in> set (gwTuples exGrant). nul_free (ObjectType t) \<and> nul_free (ObjectID t)"
    by (simp_all add: exGrant_def anchorTuple_def nul_free_def nul_def)
  have b: "bearerClaims (exEnv exTenantDB) ''Bearer alice'' = Inr exAlice" by code_simp
  have "\<not> isCompanyAdminAppointment exGrant" "gwCompanyID exGrant = ''acme''"
    "anchorTuple ''doc'' ''3'' ''acme/docs'' \<in> set (gwTuples exGrant)"
    by (simp_all add: isCompanyAdminAppointment_def exGrant_def anchorTuple_def)
  with grants_authorised [OF h ne exEnv_effective exTenant_facts(4) exService_nulFree(2) exTenant_facts(3) R nf] b
  show ?thesis by auto
qed

theorem grants_isolated_witness:
  "\<exists>ev db'. handleGrants id (\<lambda>_. True) (exEnv exTenantDB) None ''Bearer alice'' (Some exGrant) exTenantDB =
     (DataResponse 2, ev, db') \<and> AnchorOf db' ''doc'' ''3'' = ''acme/docs''"
proof -
  let ?t = "anchorTuple ''doc'' ''3'' ''acme/docs''"
  obtain ev db' where h: "handleGrants id (\<lambda>_. True) (exEnv exTenantDB) None ''Bearer alice'' (Some exGrant) exTenantDB =
     (DataResponse 2, ev, db')" and ch: "(?t \<in> set (tupleTab exTenantDB)) \<noteq> (?t \<in> set (tupleTab db'))"
    using exGrant_runs by blast
  have env: "envTuples (exEnv exTenantDB) = tableDB (storeRows exTenantDB)" "envPool (exEnv exTenantDB) = Inr exTenantDB"
    by (simp_all add: exEnv_def)
  have nf: "\<forall>t \<in> set (gwTuples exGrant). nul_free (ObjectType t) \<and> nul_free (ObjectID t)"
    by (simp add: exGrant_def anchorTuple_def nul_free_def nul_def)
  have "\<not> IsBaseType (ObjectType ?t)" by code_simp
  from grants_isolated [OF h ch this env exTenant_facts(1,2) exEnv_effective exTenant_facts(4)
      exService_nulFree(2) exTenant_facts(5,3) nf] h
  show ?thesis by (auto simp: anchorTuple_def exGrant_def exLoaded_def split: if_splits)
qed

text \<open>C18. Direct anchors are not an invariant of the endpoint. A request that anchors a new object to its
  own company may carry a second \<open>company_module\<close> tuple on it whose subject is the anchor
  relation of another company's object; it is accepted, and the object is then bound to both
  companies.\<close>

theorem grants_second_binding:
  "\<exists>ev db'. handleGrants id (\<lambda>_. True) (exEnv exTenantDB) None ''Bearer alice'' (Some exShare) exTenantDB =
     (DataResponse 2, ev, db') \<and> directAnchors exTenantDB \<and> \<not> directAnchors db' \<and>
     fragment_Check (tableDB (storeRows db')) exLoaded ''doc'' ''3'' ''company_module'' ''company_module'' ''acme/docs'' = Inr True \<and>
     fragment_Check (tableDB (storeRows db')) exLoaded ''doc'' ''3'' ''company_module'' ''company_module'' ''globex/docs'' = Inr True"
proof -
  have "case writeGrants None ''alice'' ''docs'' exShare exTenantDB of
      (DataResponse n, ev, db') \<Rightarrow> n = 2 \<and> \<not> directAnchors db' \<and>
        fragment_Check (tableDB (storeRows db')) exLoaded ''doc'' ''3'' ''company_module'' ''company_module'' ''acme/docs'' = Inr True \<and>
        fragment_Check (tableDB (storeRows db')) exLoaded ''doc'' ''3'' ''company_module'' ''company_module'' ''globex/docs'' = Inr True
    | _ \<Rightarrow> False" by code_simp
  moreover have "handleGrants id (\<lambda>_. True) (exEnv exTenantDB) None ''Bearer alice'' (Some exShare) exTenantDB =
      writeGrants None ''alice'' ''docs'' exShare exTenantDB"
    by (rule exGrants_accepted [OF exShare_rules]) code_simp+
  ultimately show ?thesis using exTenant_facts(2) by (auto split: prod.splits response.splits)
qed

end
