(* ===== verification/Module_Clients.thy ===== *)
theory Module_Clients
  imports Modulekit Authz_Grants Kiban_Systems
begin

text \<open>
  The clients with which a module reaches authz and org (\<open>modulekit/authzclient.go\<close>,
  \<open>modulekit/orgclient.go\<close>). The calls to authz are answered by the model of the authz service on
  its own tables. The contract of a module's authorization gate is a locale; its lemma says what a
  caller holds whom the gate lets pass, and each module interprets it on its own gate.
\<close>

section \<open>Calls to other services\<close>

text \<open>What one call to another service met: it was delivered and answered, never sent, or handled
  with the answer lost.\<close>

datatype delivery = Delivered | NotSent | ReplyLost

record memberFacts =
  mfIsMember :: bool
  mfIsActive :: bool
  mfMemberID :: "string option"

definition CompanyModuleObjectID :: "string \<Rightarrow> string \<Rightarrow> string" where
  "CompanyModuleObjectID moduleKey company = company @ ''/'' @ moduleKey"

definition AnchorTuple :: "string \<Rightarrow> string \<Rightarrow> string \<Rightarrow> string \<Rightarrow> Tuple" where
  "AnchorTuple moduleKey objectType objectID company =
     \<lparr>ObjectType = objectType, ObjectID = objectID, Relation = ''company_module'',
      SubjectType = ''company_module'', SubjectID = CompanyModuleObjectID moduleKey company, SubjectRelation = []\<rparr>"

definition canRequestOf :: "string \<Rightarrow> string \<Rightarrow> string \<Rightarrow> string \<Rightarrow> canRequestWire" where
  "canRequestOf moduleKey featureKey company relation =
     \<lparr>cwActorOverride = [], cwFeatureKey = featureKey, cwModuleKey = moduleKey, cwScope = ''company'',
      cwCompanyID = company, cwRequiredPlatformRole = [], cwAllowPlatformOperator = False,
      cwRequiredCompanyRole = [],
      cwObject = (if relation \<noteq> [] then \<lparr>orType = ''company_module'', orID = CompanyModuleObjectID moduleKey company\<rparr>
                  else \<lparr>orType = [], orID = []\<rparr>),
      cwRelation = relation, cwRequiresEligibility = False\<rparr>"

text \<open>\<open>postJSON\<close> requires status 200; every other outcome is an error.\<close>

definition DoCan :: "delivery \<Rightarrow> authzEnv \<Rightarrow> string \<Rightarrow> canRequestWire \<Rightarrow> (unit, bool) result" where
  "DoCan net env rawBearer req =
     (if net \<noteq> Delivered then Inl ()
      else case fst (handleCan env rawBearer (Some req)) of
        ErrorResponse _ \<Rightarrow> Inl () | DataResponse w \<Rightarrow> Inr (dwAllowed w))"

definition modulekit_Can ::
  "delivery \<Rightarrow> authzEnv \<Rightarrow> string \<Rightarrow> string \<Rightarrow> string \<Rightarrow> string \<Rightarrow> string \<Rightarrow> (unit, bool) result" where
  "modulekit_Can net env moduleKey rawBearer featureKey company relation =
     DoCan net env rawBearer (canRequestOf moduleKey featureKey company relation)"

definition GrantOrRevoke ::
  "delivery \<Rightarrow> (string list \<Rightarrow> string list) \<Rightarrow> (string \<Rightarrow> bool) \<Rightarrow> (authzDB \<Rightarrow> authzEnv) \<Rightarrow> string \<Rightarrow> string \<Rightarrow> string \<Rightarrow>
   Tuple list \<Rightarrow> string \<Rightarrow> authzDB \<Rightarrow> bool \<times> authzDB" where
  "GrantOrRevoke net mapOrder uuidOK env rawBearer company op tuples correlationID adb =
     (if net = NotSent then (False, adb)
      else case handleGrants mapOrder uuidOK (env adb) None rawBearer
             (Some \<lparr>gwOp = op, gwCompanyID = company, gwTuples = tuples, gwCorrelationID = correlationID\<rparr>) adb of
        (resp, _, adb') \<Rightarrow> (net = Delivered \<and> (\<exists>n. resp = DataResponse n), adb'))"

definition MemberByKcSub :: "memberFacts httpResp \<Rightarrow> (string, string \<times> bool \<times> bool) result" where
  "MemberByKcSub resp = rbind (expectOK ''member-by-kcsub'' resp) (\<lambda>f.
     Inr (case mfMemberID f of None \<Rightarrow> [] | Some i \<Rightarrow> i, mfIsMember f, mfIsActive f))"

lemma GrantOrRevoke_step: "reaches serviceStep adb (snd (GrantOrRevoke net mo ok env raw company op ts corr adb))"
  by (auto simp: GrantOrRevoke_def intro: reaches_refl reaches_one serviceStep.grants split: prod.splits)

lemma DoCan_True:
  "DoCan net env raw req = Inr True \<longleftrightarrow>
     net = Delivered \<and> (\<exists>w ev. handleCan env raw (Some req) = (DataResponse w, ev) \<and> dwAllowed w)"
  by (cases "handleCan env raw (Some req)") (auto simp: DoCan_def split: response.splits)

text \<open>A header that authz accepts holds the same token for the module.\<close>

lemma lower_bearer: "map lowerChar ''Bearer '' = ''bearer ''"
  by code_simp

lemma bearer_same_token:
  assumes "bearerClaims env raw = Inr c"
  shows "VerifyClaims env (BearerFromHeader raw) = Some c"
proof -
  from assms have pre: "hasPrefix raw ''Bearer ''" and v: "VerifyClaims env (trimPrefix raw ''Bearer '') = Some c"
    by (auto simp: bearerClaims_def split: if_splits option.splits)
  obtain tok where raw: "raw = ''Bearer '' @ tok"
    using pre unfolding hasPrefix_def by (metis append_take_drop_id)
  have "VerifyClaims env tok = Some c" using v unfolding raw by (simp only: trimPrefix_append)
  moreover have "tok \<noteq> []" using calculation by (auto simp: VerifyClaims_def)
  moreover have "BearerFromHeader raw = tok" using \<open>tok \<noteq> []\<close> unfolding raw BearerFromHeader_def using lower_bearer by simp
  ultimately show ?thesis by simp
qed

lemma canRequestOf_fields [simp]:
  "cwScope (canRequestOf mk f c rel) = ''company''" "cwCompanyID (canRequestOf mk f c rel) = c"
  "cwModuleKey (canRequestOf mk f c rel) = mk" "cwFeatureKey (canRequestOf mk f c rel) = f"
  "cwRelation (canRequestOf mk f c rel) = rel" "\<not> cwAllowPlatformOperator (canRequestOf mk f c rel)"
  "cwObject (canRequestOf mk f c rel) = (if rel \<noteq> [] then \<lparr>orType = ''company_module'', orID = c @ ''/'' @ mk\<rparr> else \<lparr>orType = [], orID = []\<rparr>)"
  by (simp_all add: canRequestOf_def CompanyModuleObjectID_def)

lemma canRequestOf_nul_free:
  assumes "nul_free c" and "nul_free mk"
  shows "nul_free (orType (cwObject (canRequestOf mk f c rel)))" "nul_free (orID (cwObject (canRequestOf mk f c rel)))"
  using assms by (auto simp: nul_free_def nul_def)

section \<open>The gate of a module\<close>

text \<open>What a caller needs for a relation of a module in a company, in terms of the module's token
  verifier, the answers of identity, org and registry, and the tuple table \<open>R\<close> of authz.\<close>

definition moduleAccess ::
  "(string \<Rightarrow> string option) \<Rightarrow> authzEnv \<Rightarrow> string \<Rightarrow> tupleRel \<Rightarrow> string \<Rightarrow> string \<Rightarrow> string \<Rightarrow> string \<Rightarrow> bool" where
  "moduleAccess subject a moduleKey R raw company relation sub \<longleftrightarrow>
      subject (BearerFromHeader raw) = Some sub \<and>
      (\<exists>u. envIdentity a sub = HttpStatus 200 (Some u) \<and> usLifecycle u = ''active'' \<and> usKCEnabled u = ''true'') \<and>
      (\<exists>d. envCompany a company = HttpStatus 200 (Some d) \<and> cdExists d \<and> cdIsActive d) \<and>
      (\<exists>d. envMembership a company sub = HttpStatus 200 (Some d) \<and> mdIsMember d \<and> mdIsActive d) \<and>
      envCapability a moduleKey = HttpStatus 200 (Some True) \<and>
      (relation = [] \<or>
       (\<exists>l. effectiveEngine a = Inr l \<and>
          granted R (lModel l) (''user'', sub) company {} (''company_module'', company @ ''/'' @ moduleKey, relation)))"

text \<open>The hypotheses on authz that the modules' theorems share: its verifier names the same subject
  for a token as the module's, its tuple reads answer from the table \<open>R\<close>, and no name holds the
  separator of memo keys.\<close>

definition authzSound :: "(string \<Rightarrow> string option) \<Rightarrow> authzEnv \<Rightarrow> tupleRel \<Rightarrow> bool" where
  "authzSound subject a R \<longleftrightarrow>
     (\<forall>tok sub c. subject tok = Some sub \<longrightarrow> VerifyClaims a tok = Some c \<longrightarrow> clSubject c = sub) \<and>
     nulFreeRows R \<and> (\<forall>ot oi rel. answers R ot oi rel (envTuples a ot oi rel)) \<and>
     (\<forall>l. effectiveEngine a = Inr l \<longrightarrow> nulFreeModel (lModel l))"

lemma modulekit_Can_means:
  assumes can: "modulekit_Can net a moduleKey raw fkey company relation = Inr True"
    and subj: "subject (BearerFromHeader raw) = Some sub" and sound: "authzSound subject a R"
    and nf: "nul_free company" "nul_free moduleKey" "nul_free relation"
    and key: "moduleKey \<noteq> []" "moduleKey \<noteq> FoundationModuleKey"
  shows "moduleAccess subject a moduleKey R raw company relation sub"
proof -
  let ?req = "canRequestOf moduleKey fkey company relation"
  have agree: "\<And>tok s c. subject tok = Some s \<Longrightarrow> VerifyClaims a tok = Some c \<Longrightarrow> clSubject c = s"
    and rows: "nulFreeRows R" and db: "\<And>ot oi rel. answers R ot oi rel (envTuples a ot oi rel)"
    and model: "\<And>l. effectiveEngine a = Inr l \<Longrightarrow> nulFreeModel (lModel l)"
    using sound by (auto simp: authzSound_def)
  obtain w ev where can: "handleCan a raw (Some ?req) = (DataResponse w, ev)" "dwAllowed w"
    using can by (auto simp: modulekit_Can_def DoCan_True)
  have rel: "nul_free (cwRelation ?req)" using nf by simp
  have scope: "cwScope ?req \<noteq> ''global''" by simp
  have mk: "moduleOrFeaturePrefix moduleKey fkey = moduleKey" using key by (simp add: moduleOrFeaturePrefix_def)
  obtain c l where c: "bearerClaims a raw = Inr c" "effectiveEngine a = Inr l" and
    facts: "\<exists>u. envIdentity a (clSubject c) = HttpStatus 200 (Some u) \<and> usLifecycle u = ''active'' \<and> usKCEnabled u = ''true''"
      "\<exists>d. envCompany a company = HttpStatus 200 (Some d) \<and> cdExists d \<and> cdIsActive d"
      "\<exists>d. envMembership a company (clSubject c) = HttpStatus 200 (Some d) \<and> mdIsMember d \<and> mdIsActive d"
      "envCapability a moduleKey = HttpStatus 200 (Some True)"
      "relation = [] \<or> granted R (lModel l) (''user'', clSubject c) company {}
         (''company_module'', company @ ''/'' @ moduleKey, relation)"
    using can_allow_facts [OF can scope rows db model canRequestOf_nul_free [OF nf(1,2)] rel] mk key(2)
    by (cases "relation = []") auto
  have "clSubject c = sub" using agree [OF subj] bearer_same_token [OF c(1)] by blast
  then show ?thesis using c(2) subj facts by (auto simp: moduleAccess_def)
qed

text \<open>The contract of a gate: whom it lets pass in a company has a verified token, and authz allowed
  the request of the feature.\<close>

locale module_gate =
  fixes subject :: "string \<Rightarrow> string option" and net :: delivery and a :: authzEnv and moduleKey :: string
    and fkey :: "'f \<Rightarrow> string" and leg :: "'f \<Rightarrow> string"
    and auth :: "'f \<Rightarrow> string \<Rightarrow> string \<Rightarrow> (apiError, string) result"
  assumes gate_subject: "auth f raw company = Inr sub \<Longrightarrow> subject (BearerFromHeader raw) = Some sub"
    and gate_asks: "auth f raw company = Inr sub \<Longrightarrow> company \<noteq> [] \<Longrightarrow>
      modulekit_Can net a moduleKey raw (fkey f) company (leg f) = Inr True"
    and key_proper: "moduleKey \<noteq> []" "moduleKey \<noteq> FoundationModuleKey" "nul_free moduleKey"
    and leg_nul_free: "nul_free (leg f)"
begin

lemma gate_means:
  assumes "auth f raw company = Inr sub" and "company \<noteq> []" and "authzSound subject a R" and "nul_free company"
  shows "moduleAccess subject a moduleKey R raw company (leg f) sub"
  using modulekit_Can_means [OF gate_asks [OF assms(1,2)] gate_subject [OF assms(1)] assms(3,4)]
    key_proper leg_nul_free by blast

end

section \<open>An example service\<close>

text \<open>The authz service of the earlier examples with one module enabled and everyone a member.\<close>

definition exModuleAuthz :: "string \<Rightarrow> authzDB \<Rightarrow> authzEnv" where
  "exModuleAuthz key adb = (exEnv adb)\<lparr>envCapability := (\<lambda>m. HttpStatus 200 (Some (m = key))),
     envMembership := (\<lambda>c s. HttpStatus 200 (Some \<lparr>mdIsMember = True, mdIsActive = True\<rparr>))\<rparr>"

definition exVerify :: "string \<Rightarrow> string option" where
  "exVerify t = (if t = [] then None else Some t)"

lemma exModuleAuthz_effective: "effectiveEngine (exModuleAuthz key adb) = Inr exLoaded"
  using exEnv_effective [of adb] by (simp add: effectiveEngine_def exModuleAuthz_def)

lemma exModuleAuthz_sound:
  assumes "nulFreeRows (rowsOf (storeRows adb))"
  shows "authzSound exVerify (exModuleAuthz key adb) (rowsOf (storeRows adb))"
  unfolding authzSound_def exModuleAuthz_effective
  using assms exService_nulFree(2)
  by (auto simp: exVerify_def VerifyClaims_def exModuleAuthz_def exEnv_def tableDB_answers split: if_splits)

lemma modulekit_Can_allowed:
  assumes "bearerClaims (exModuleAuthz key adb) raw = Inr c"
    and "featureDeclared (exModuleAuthz key adb) (moduleOrFeaturePrefix key fkey) [fkey] = Inr ()"
    and "validateCanRequest (clSubject c) (canRequestOf key fkey company relation) = Inr ()"
    and "dReason (Evaluate (serviceDeps (exModuleAuthz key adb) exLoaded) (canRequest (canRequestOf key fkey company relation) (clSubject c))) = ReasonAllowed"
  shows "modulekit_Can Delivered (exModuleAuthz key adb) key raw fkey company relation = Inr True"
proof -
  let ?a = "exModuleAuthz key adb" and ?req = "canRequestOf key fkey company relation"
  let ?d = "Evaluate (serviceDeps ?a exLoaded) (canRequest ?req (clSubject c))"
  have allowed: "Allowed ?d" using assms(4) wellMadeD [OF Evaluate_wellMade] by metis
  have "handleCan ?a raw (Some ?req) = (DataResponse (toDecisionWire ?d), [])"
    unfolding handleCan_Data using assms exModuleAuthz_effective allowed
    by (intro exI [of _ c] exI [of _ ?req] exI [of _ exLoaded]) simp
  then show ?thesis using allowed by (simp add: modulekit_Can_def DoCan_True toDecisionWire_def)
qed

end
