(* ===== verification/Timesheet_Http.thy ===== *)
theory Timesheet_Http
  imports Timesheet_Workflow Module_Clients
begin

text \<open>
  The HTTP surface of the timesheet module (\<open>modules/timesheet/service/http*.go\<close> and
  \<open>authzclient.go\<close>). Its calls to authz are answered by the model of the authz service on its own
  tables, so a request to the module is followed through both services. Timestamps and message texts of responses are left out.
\<close>

section \<open>The environment of a request\<close>

text \<open>\<open>tsSubject\<close> is the module's token verifier. \<open>tsAuthz\<close> is the environment of the authz
  service for a state of its tables. \<open>tsParseUUID\<close> and \<open>tsUUID\<close> are the UUID library.
  \<open>tsGetMember\<close> answers the key of the member's linked user, empty when there is none.
  \<open>tsPre\<close> and \<open>tsLk\<close> are the states seen by the lookup of an idempotency key and by the locking
  read of an upsert; \<open>tsCfgRead\<close>, \<open>tsPrjRead\<close> and \<open>tsAsgRead\<close> what the reads of a configuration, a project
  and an assignment saw, if they did not fail.\<close>

record tsEnv =
  tsSubject :: "string \<Rightarrow> string option"
  tsAuthz :: "authzDB \<Rightarrow> authzEnv"
  tsDelivery :: "nat \<Rightarrow> delivery"
  tsMapOrder :: "string list \<Rightarrow> string list"
  tsMember :: "string \<Rightarrow> string \<Rightarrow> memberFacts httpResp"
  tsGetMember :: "string \<Rightarrow> string httpResp"
  tsParseUUID :: "string \<Rightarrow> uuid option"
  tsUUID :: "uuid \<Rightarrow> string"
  tsNum :: "rat \<Rightarrow> rat"
  tsSha :: "string \<Rightarrow> string"
  tsNow :: int
  tsNewID :: uuid
  tsNewRoot :: uuid
  tsPre :: tsDB
  tsCfgRead :: tsRead
  tsPrjRead :: tsRead
  tsAsgRead :: tsRead
  tsLk :: tsDB
  tsOrderProjects :: "Project list \<Rightarrow> Project list"
  tsOrderAssignments :: "Assignment list \<Rightarrow> Assignment list"
  tsOrderSubmissions :: "Submission list \<Rightarrow> Submission list"

definition timesheetKey :: string where "timesheetKey = ''timesheet''"

section \<open>Features and their relations\<close>

datatype tsFeature = ProjectsManage | ConfigManage | ApproversManage | SubmissionsSubmit | SubmissionsApprove | EntriesManageOwn

fun featureKey :: "tsFeature \<Rightarrow> string" where
  "featureKey ProjectsManage = ''timesheet.projects.manage''"
| "featureKey ConfigManage = ''timesheet.config.manage''"
| "featureKey ApproversManage = ''timesheet.approvers.manage''"
| "featureKey SubmissionsSubmit = ''timesheet.submissions.submit''"
| "featureKey SubmissionsApprove = ''timesheet.submissions.approve''"
| "featureKey EntriesManageOwn = ''timesheet.entries.manage-own''"

fun relationLeg :: "tsFeature \<Rightarrow> string" where
  "relationLeg ProjectsManage = ''admin''"
| "relationLeg ConfigManage = ''admin''"
| "relationLeg ApproversManage = ''admin''"
| "relationLeg SubmissionsSubmit = ''submitter''"
| "relationLeg SubmissionsApprove = ''approver''"
| "relationLeg EntriesManageOwn = []"

definition timesheet_Can :: "tsEnv \<Rightarrow> authzDB \<Rightarrow> string \<Rightarrow> tsFeature \<Rightarrow> string \<Rightarrow> (unit, bool) result" where
  "timesheet_Can env adb rawBearer feature company =
     modulekit_Can (tsDelivery env 0) (tsAuthz env adb) timesheetKey rawBearer (featureKey feature) company (relationLeg feature)"

definition GrantRelation ::
  "tsEnv \<Rightarrow> nat \<Rightarrow> string \<Rightarrow> string \<Rightarrow> string \<Rightarrow> string \<Rightarrow> string \<Rightarrow> authzDB \<Rightarrow> bool \<times> authzDB" where
  "GrantRelation env call rawBearer company relation kcSub correlationID adb =
     GrantOrRevoke (tsDelivery env call) (tsMapOrder env) (\<lambda>s. tsParseUUID env s \<noteq> None) (tsAuthz env) rawBearer company ''grant''
       [\<lparr>ObjectType = ''company_module'', ObjectID = CompanyModuleObjectID timesheetKey company, Relation = relation,
         SubjectType = ''user'', SubjectID = kcSub, SubjectRelation = []\<rparr>] correlationID adb"

definition withAuth :: "tsEnv \<Rightarrow> authzDB \<Rightarrow> tsFeature \<Rightarrow> string \<Rightarrow> string \<Rightarrow> (apiError, string) result" where
  "withAuth env adb feature rawBearer company =
     (case tsSubject env (BearerFromHeader rawBearer) of
        None \<Rightarrow> Inl (401, ''AUTH_TOKEN_INVALID'')
      | Some subject \<Rightarrow>
          if company = [] then Inr subject
          else case timesheet_Can env adb rawBearer feature company of
            Inl _ \<Rightarrow> Inl (503, ''AUTHORIZATION_UNAVAILABLE'')
          | Inr allowed \<Rightarrow> if \<not> allowed then Inl (403, ''AUTHORIZATION_DENIED'') else Inr subject)"

section \<open>Parsing and errors\<close>

definition ParsePathUUID :: "tsEnv \<Rightarrow> string \<Rightarrow> (apiError, uuid) result" where
  "ParsePathUUID env raw = (case tsParseUUID env raw of None \<Rightarrow> Inl (400, ''BAD_REQUEST'') | Some i \<Rightarrow> Inr i)"

definition resolveCallerMember :: "tsEnv \<Rightarrow> uuid \<Rightarrow> string \<Rightarrow> (apiError, uuid) result" where
  "resolveCallerMember env company subject =
     (case MemberByKcSub (tsMember env (tsUUID env company) subject) of
        Inl _ \<Rightarrow> Inl (503, ''INTERNAL_ERROR'')
      | Inr (memberID, isMember, isActive) \<Rightarrow>
          if \<not> isMember \<or> \<not> isActive then Inl (422, ''VALIDATION_ERROR'')
          else case tsParseUUID env memberID of None \<Rightarrow> Inl (500, ''INTERNAL_ERROR'') | Some i \<Rightarrow> Inr i)"

fun writeStoreError :: "tsError \<Rightarrow> apiError" where
  "writeStoreError (ValidationError _) = (422, ''VALIDATION_ERROR'')"
| "writeStoreError ErrProjectNotFound = (404, ''NOT_FOUND'')"
| "writeStoreError ErrEntryNotFound = (404, ''NOT_FOUND'')"
| "writeStoreError ErrSubmissionNotFound = (404, ''NOT_FOUND'')"
| "writeStoreError ErrEntryNotDraft = (422, ''VALIDATION_ERROR'')"
| "writeStoreError ErrNoDraftEntries = (422, ''VALIDATION_ERROR'')"
| "writeStoreError ErrNoApproverAssigned = (422, ''VALIDATION_ERROR'')"
| "writeStoreError ErrNotAssignedApprover = (403, ''AUTHORIZATION_DENIED'')"
| "writeStoreError ErrSubmissionSuperseded = (422, ''VALIDATION_ERROR'')"
| "writeStoreError ErrSubmissionNotSubmitted = (422, ''VALIDATION_ERROR'')"
| "writeStoreError ErrConflict = (409, ''CONFLICT'')"
| "writeStoreError ErrIdempotencyConflict = (409, ''IDEMPOTENCY_CONFLICT'')"
| "writeStoreError ErrDatabase = (500, ''INTERNAL_ERROR'')"

definition parseWeekStart :: "string \<Rightarrow> (apiError, int) result" where
  "parseWeekStart raw = (case parseDate raw of
     None \<Rightarrow> Inl (400, ''BAD_REQUEST'')
   | Some day \<Rightarrow> let t = day * 86400 in
       if t \<noteq> isoMonday t then Inl (422, ''VALIDATION_ERROR'') else Inr day)"

definition parseEntryDate :: "string \<Rightarrow> (apiError, int) result" where
  "parseEntryDate raw = (case parseDate raw of None \<Rightarrow> Inl (400, ''BAD_REQUEST'') | Some day \<Rightarrow> Inr (day * 86400))"

section \<open>Wire types\<close>

record configWire =
  cwiCompanyID :: string
  cwiEnforce :: bool
  cwiAbove :: bool
  cwiPrevious :: int
  cwiFuture :: int

definition toConfigWire :: "tsEnv \<Rightarrow> Config \<Rightarrow> configWire" where
  "toConfigWire env c = \<lparr>cwiCompanyID = tsUUID env (cfgCompanyID c), cwiEnforce = EnforceBillableWithinActual c,
     cwiAbove = AllowBillableAboveEightHours c, cwiPrevious = AllowedPreviousWeeks c, cwiFuture = AllowedFutureWeeks c\<rparr>"

record projectWire =
  pwID :: string
  pwCompanyID :: string
  pwCode :: string
  pwName :: string
  pwStatus :: string

definition toProjectWire :: "tsEnv \<Rightarrow> Project \<Rightarrow> projectWire" where
  "toProjectWire env p = \<lparr>pwID = tsUUID env (pID p), pwCompanyID = tsUUID env (pCompanyID p), pwCode = pCode p,
     pwName = pName p, pwStatus = pStatus p\<rparr>"

record approverAssignmentWire =
  awCompanyID :: string
  awMemberID :: string
  awApproverMemberID :: string

definition toApproverAssignmentWire :: "tsEnv \<Rightarrow> Assignment \<Rightarrow> approverAssignmentWire" where
  "toApproverAssignmentWire env a = \<lparr>awCompanyID = tsUUID env (aCompanyID a), awMemberID = tsUUID env (aMemberID a),
     awApproverMemberID = tsUUID env (aApproverMemberID a)\<rparr>"

record entryWire =
  ewID :: string
  ewCompanyID :: string
  ewMemberID :: string
  ewProjectID :: string
  ewEntryDate :: string
  ewRealHours :: rat
  ewBillableHours :: rat
  ewStatus :: string

definition toEntryWire :: "tsEnv \<Rightarrow> Entry \<Rightarrow> entryWire" where
  "toEntryWire env e = \<lparr>ewID = tsUUID env (eID e), ewCompanyID = tsUUID env (eCompanyID e),
     ewMemberID = tsUUID env (eMemberID e), ewProjectID = tsUUID env (eProjectID e), ewEntryDate = formatDate (eDate e),
     ewRealHours = eReal e, ewBillableHours = eBillable e, ewStatus = eStatus e\<rparr>"

record submissionWire =
  swID :: string
  swCompanyID :: string
  swMemberID :: string
  swWeekStart :: string
  swVersionNumber :: int
  swRootID :: string
  swSupersedesID :: "string option"
  swIsCurrent :: bool
  swStatus :: string
  swApproverMemberID :: string
  swRejectReason :: "string option"
  swCanApprove :: bool
  swCanReject :: bool
  swCanRevert :: bool

definition toSubmissionWire :: "tsEnv \<Rightarrow> Submission \<Rightarrow> bool \<Rightarrow> submissionWire" where
  "toSubmissionWire env s callerIsAssignedApprover =
     (let canDecide = callerIsAssignedApprover \<and> sCurrent s \<and> sStatus s = ''submitted'' in
      \<lparr>swID = tsUUID env (sID s), swCompanyID = tsUUID env (sCompanyID s), swMemberID = tsUUID env (sMemberID s),
       swWeekStart = formatDate (sWeekStart s), swVersionNumber = sVersion s, swRootID = tsUUID env (sRootID s),
       swSupersedesID = map_option (tsUUID env) (sSupersedes s), swIsCurrent = sCurrent s, swStatus = sStatus s,
       swApproverMemberID = tsUUID env (sApproverMemberID s), swRejectReason = sRejectReason s,
       swCanApprove = canDecide, swCanReject = canDecide, swCanRevert = False\<rparr>)"

datatype tsBody =
    BConfig configWire
  | BProject projectWire
  | BProjects "projectWire Page"
  | BAssignment approverAssignmentWire
  | BAssignments "approverAssignmentWire Page"
  | BEntry entryWire
  | BEntries "entryWire list"
  | BSubmission submissionWire
  | BSubmissions "submissionWire Page"
  | BNothing

section \<open>Handlers\<close>

text \<open>A handler answers an error envelope or a status with a body, and the tables it leaves. A
  body that does not decode is \<open>None\<close>.\<close>

type_synonym tsHandled = "(apiError, (nat \<times> tsBody) \<times> tsDB) result"

definition storeCall :: "(tsError, 'a) result \<Rightarrow> (apiError, 'a) result" where
  "storeCall r = (case r of Inl e \<Rightarrow> Inl (writeStoreError e) | Inr v \<Rightarrow> Inr v)"

definition handleGetConfig :: "tsEnv \<Rightarrow> tsDB \<Rightarrow> string \<Rightarrow> tsHandled" where
  "handleGetConfig env db company =
     rbind (ParsePathUUID env company) (\<lambda>c. Inr ((200, BConfig (toConfigWire env (GetConfig (tsCfgRead env) c))), db))"

definition handleUpdateConfig ::
  "tsEnv \<Rightarrow> tsDB \<Rightarrow> string \<Rightarrow> string \<Rightarrow> (bool \<times> bool \<times> int \<times> int) option \<Rightarrow> tsHandled" where
  "handleUpdateConfig env db subject company body =
     rbind (ParsePathUUID env company) (\<lambda>c.
     rbind (decodeBody body) (\<lambda>(enforce, above, prev, future).
     rbind (storeCall (UpdateConfig subject c \<lparr>cfgCompanyID = [], EnforceBillableWithinActual = enforce,
         AllowBillableAboveEightHours = above, AllowedPreviousWeeks = prev, AllowedFutureWeeks = future\<rparr> db)) (\<lambda>(cfg, db').
     Inr ((200, BConfig (toConfigWire env cfg)), db'))))"

definition handleCreateProject ::
  "tsEnv \<Rightarrow> tsDB \<Rightarrow> string \<Rightarrow> string \<Rightarrow> (string \<times> string \<times> string) option \<Rightarrow> tsHandled" where
  "handleCreateProject env db subject company body =
     rbind (ParsePathUUID env company) (\<lambda>c.
     rbind (decodeBody body) (\<lambda>(code, name, status).
     rbind (storeCall (CreateProject (tsNewID env) subject c code name status db)) (\<lambda>(p, db').
     Inr ((201, BProject (toProjectWire env p)), db'))))"

definition handleUpdateProject ::
  "tsEnv \<Rightarrow> tsDB \<Rightarrow> string \<Rightarrow> string \<Rightarrow> string \<Rightarrow> (string \<times> string \<times> string) option \<Rightarrow> tsHandled" where
  "handleUpdateProject env db subject company project body =
     rbind (ParsePathUUID env company) (\<lambda>c.
     rbind (ParsePathUUID env project) (\<lambda>p.
     rbind (decodeBody body) (\<lambda>(code, name, status).
     rbind (storeCall (UpdateProject subject c p code name status db)) (\<lambda>(p', db').
     Inr ((200, BProject (toProjectWire env p')), db')))))"

definition handleListProjects :: "tsEnv \<Rightarrow> tsDB \<Rightarrow> string \<Rightarrow> string \<Rightarrow> string \<Rightarrow> tsHandled" where
  "handleListProjects env db company rawPage rawSize =
     rbind (ParsePathUUID env company) (\<lambda>c.
     let (page, pageSize) = PageParams rawPage rawSize in
     rbind (storeCall (ListProjects (tsOrderProjects env) db c page pageSize)) (\<lambda>(items, count).
     Inr ((200, BProjects (WritePage items count page pageSize (toProjectWire env))), db)))"

definition linkedUser :: "tsEnv \<Rightarrow> uuid \<Rightarrow> (apiError, string) result" where
  "linkedUser env member =
     (case expectOK ''get-member'' (tsGetMember env (tsUUID env member)) of
        Inl _ \<Rightarrow> Inl (422, ''VALIDATION_ERROR'')
      | Inr kcSub \<Rightarrow> if kcSub = [] then Inl (422, ''VALIDATION_ERROR'') else Inr kcSub)"

text \<open>The grants are written first, each in its own call; a failure leaves the earlier ones.\<close>

definition handleAssignApprover ::
  "tsEnv \<Rightarrow> tsDB \<Rightarrow> authzDB \<Rightarrow> string \<Rightarrow> string \<Rightarrow> string \<Rightarrow> (string \<times> string) option \<Rightarrow> string \<Rightarrow>
   tsHandled \<times> authzDB" where
  "handleAssignApprover env db adb subject rawBearer company body correlationID =
     (case rbind (ParsePathUUID env company) (\<lambda>c.
           rbind (decodeBody body) (\<lambda>(rawMember, rawApprover).
           rbind (ParsePathUUID env rawMember) (\<lambda>member.
           rbind (ParsePathUUID env rawApprover) (\<lambda>approver.
           rbind (linkedUser env member) (\<lambda>memberKcSub.
           rbind (linkedUser env approver) (\<lambda>approverKcSub.
           Inr (c, member, approver, memberKcSub, approverKcSub))))))) of
        Inl err \<Rightarrow> (Inl err, adb)
      | Inr (c, member, approver, memberKcSub, approverKcSub) \<Rightarrow>
          (case GrantRelation env 1 rawBearer (tsUUID env c) ''submitter'' memberKcSub correlationID adb of
             (ok1, adb1) \<Rightarrow>
               if \<not> ok1 then (Inl (503, ''AUTHORIZATION_UNAVAILABLE''), adb1)
               else case GrantRelation env 2 rawBearer (tsUUID env c) ''approver'' approverKcSub correlationID adb1 of
                 (ok2, adb2) \<Rightarrow>
                   if \<not> ok2 then (Inl (503, ''AUTHORIZATION_UNAVAILABLE''), adb2)
                   else case RecordApproverAssignment subject c member approver memberKcSub approverKcSub db of
                     (a, db') \<Rightarrow> (Inr ((200, BAssignment (toApproverAssignmentWire env a)), db'), adb2)))"

definition handleListApprovers :: "tsEnv \<Rightarrow> tsDB \<Rightarrow> string \<Rightarrow> string \<Rightarrow> string \<Rightarrow> tsHandled" where
  "handleListApprovers env db company rawPage rawSize =
     rbind (ParsePathUUID env company) (\<lambda>c.
     let (page, pageSize) = PageParams rawPage rawSize in
     rbind (storeCall (ListApproverAssignments (tsOrderAssignments env) db c page pageSize)) (\<lambda>(items, count).
     Inr ((200, BAssignments (WritePage items count page pageSize (toApproverAssignmentWire env))), db)))"

definition handleListEntries :: "tsEnv \<Rightarrow> tsDB \<Rightarrow> string \<Rightarrow> string \<Rightarrow> string \<Rightarrow> tsHandled" where
  "handleListEntries env db subject company rawWeek =
     rbind (ParsePathUUID env company) (\<lambda>c.
     rbind (parseWeekStart rawWeek) (\<lambda>weekStart.
     rbind (resolveCallerMember env c subject) (\<lambda>member.
     Inr ((200, BEntries (map (toEntryWire env) (ListEntriesForWeek db c member weekStart))), db))))"

definition handleUpsertEntry ::
  "tsEnv \<Rightarrow> tsDB \<Rightarrow> string \<Rightarrow> string \<Rightarrow> (string \<times> string \<times> rat \<times> rat) option \<Rightarrow> tsHandled" where
  "handleUpsertEntry env db subject company body =
     rbind (ParsePathUUID env company) (\<lambda>c.
     rbind (decodeBody body) (\<lambda>(rawProject, rawDate, actual, billable).
     rbind (ParsePathUUID env rawProject) (\<lambda>project.
     rbind (parseEntryDate rawDate) (\<lambda>entryDate.
     rbind (resolveCallerMember env c subject) (\<lambda>member.
     rbind (storeCall (UpsertEntry (tsNum env) (tsNow env) (tsNewID env) (tsCfgRead env) (tsPrjRead env) (tsLk env) subject c member project
         entryDate actual billable db)) (\<lambda>(e, db').
     Inr ((200, BEntry (toEntryWire env e)), db')))))))"

definition handleDeleteEntry :: "tsEnv \<Rightarrow> tsDB \<Rightarrow> string \<Rightarrow> string \<Rightarrow> string \<Rightarrow> tsHandled" where
  "handleDeleteEntry env db subject company entry =
     rbind (ParsePathUUID env company) (\<lambda>c.
     rbind (ParsePathUUID env entry) (\<lambda>i.
     rbind (resolveCallerMember env c subject) (\<lambda>member.
     rbind (storeCall (DeleteEntry subject c member i db)) (\<lambda>db'. Inr ((204, BNothing), db')))))"

definition handleSubmitWeek ::
  "tsEnv \<Rightarrow> tsDB \<Rightarrow> string \<Rightarrow> string \<Rightarrow> string option \<Rightarrow> string \<Rightarrow> tsHandled" where
  "handleSubmitWeek env db subject company body idempotencyKey =
     rbind (ParsePathUUID env company) (\<lambda>c.
     rbind (decodeBody body) (\<lambda>rawWeek.
     rbind (parseWeekStart rawWeek) (\<lambda>weekStart.
     rbind (resolveCallerMember env c subject) (\<lambda>member.
     if 200 < length idempotencyKey then Inl (400, ''BAD_REQUEST'')
     else
       rbind (storeCall (SubmitWeek (tsSha env) formatDate (tsNewID env) (tsNewRoot env) (tsPre env) (tsAsgRead env) subject c member
           weekStart idempotencyKey db)) (\<lambda>((sub, created), db').
       Inr ((if created then 201 else 200, BSubmission (toSubmissionWire env sub (sApproverKcSub sub = subject))), db'))))))"

definition handleGetSubmission :: "tsEnv \<Rightarrow> tsDB \<Rightarrow> string \<Rightarrow> string \<Rightarrow> string \<Rightarrow> tsHandled" where
  "handleGetSubmission env db subject company submission =
     rbind (ParsePathUUID env company) (\<lambda>c.
     rbind (ParsePathUUID env submission) (\<lambda>i.
     rbind (storeCall (GetSubmission db c i)) (\<lambda>sub.
     Inr ((200, BSubmission (toSubmissionWire env sub (sApproverKcSub sub = subject))), db))))"

definition handleApproveSubmission :: "tsEnv \<Rightarrow> tsDB \<Rightarrow> string \<Rightarrow> string \<Rightarrow> string \<Rightarrow> tsHandled" where
  "handleApproveSubmission env db subject company submission =
     rbind (ParsePathUUID env company) (\<lambda>c.
     rbind (ParsePathUUID env submission) (\<lambda>i.
     rbind (storeCall (ApproveSubmission subject c i db)) (\<lambda>(sub, db').
     Inr ((200, BSubmission (toSubmissionWire env sub True)), db'))))"

definition handleRejectSubmission ::
  "tsEnv \<Rightarrow> tsDB \<Rightarrow> string \<Rightarrow> string \<Rightarrow> string \<Rightarrow> string option \<Rightarrow> tsHandled" where
  "handleRejectSubmission env db subject company submission body =
     rbind (ParsePathUUID env company) (\<lambda>c.
     rbind (ParsePathUUID env submission) (\<lambda>i.
     rbind (decodeBody body) (\<lambda>reason.
     rbind (storeCall (RejectSubmission subject c i reason db)) (\<lambda>(sub, db').
     Inr ((200, BSubmission (toSubmissionWire env sub True)), db')))))"

definition handleListSubmissions ::
  "tsEnv \<Rightarrow> tsDB \<Rightarrow> string \<Rightarrow> string \<Rightarrow> string \<Rightarrow> string \<Rightarrow> string \<Rightarrow> tsHandled" where
  "handleListSubmissions env db subject company rawView rawPage rawSize =
     rbind (ParsePathUUID env company) (\<lambda>c.
     let view = (if rawView = [] then ''mine'' else rawView) in
     rbind (resolveCallerMember env c subject) (\<lambda>member.
     let (page, pageSize) = PageParams rawPage rawSize in
     rbind (storeCall (ListSubmissions (tsOrderSubmissions env) db c view subject member page pageSize)) (\<lambda>(items, count).
     Inr ((200, BSubmissions (WritePage items count page pageSize
         (\<lambda>it. toSubmissionWire env it (sApproverKcSub it = subject)))), db))))"

section \<open>Routes\<close>

datatype tsRequest =
    GetConfigReq
  | UpdateConfigReq "(bool \<times> bool \<times> int \<times> int) option"
  | ListProjectsReq string string
  | CreateProjectReq "(string \<times> string \<times> string) option"
  | UpdateProjectReq string "(string \<times> string \<times> string) option"
  | ListApproversReq string string
  | AssignApproverReq "(string \<times> string) option" string
  | ListEntriesReq string
  | UpsertEntryReq "(string \<times> string \<times> rat \<times> rat) option"
  | DeleteEntryReq string
  | ListSubmissionsReq string string string
  | SubmitWeekReq "string option" string
  | GetSubmissionReq string
  | ApproveSubmissionReq string
  | RejectSubmissionReq string "string option"

fun routeFeature :: "tsRequest \<Rightarrow> tsFeature" where
  "routeFeature GetConfigReq = EntriesManageOwn"
| "routeFeature (UpdateConfigReq _) = ConfigManage"
| "routeFeature (ListProjectsReq _ _) = EntriesManageOwn"
| "routeFeature (CreateProjectReq _) = ProjectsManage"
| "routeFeature (UpdateProjectReq _ _) = ProjectsManage"
| "routeFeature (ListApproversReq _ _) = ApproversManage"
| "routeFeature (AssignApproverReq _ _) = ApproversManage"
| "routeFeature (ListEntriesReq _) = EntriesManageOwn"
| "routeFeature (UpsertEntryReq _) = EntriesManageOwn"
| "routeFeature (DeleteEntryReq _) = EntriesManageOwn"
| "routeFeature (ListSubmissionsReq _ _ _) = EntriesManageOwn"
| "routeFeature (SubmitWeekReq _ _) = SubmissionsSubmit"
| "routeFeature (GetSubmissionReq _) = EntriesManageOwn"
| "routeFeature (ApproveSubmissionReq _) = SubmissionsApprove"
| "routeFeature (RejectSubmissionReq _ _) = SubmissionsApprove"

fun dispatch :: "tsEnv \<Rightarrow> tsDB \<Rightarrow> authzDB \<Rightarrow> string \<Rightarrow> string \<Rightarrow> string \<Rightarrow> tsRequest \<Rightarrow> tsHandled \<times> authzDB" where
  "dispatch env db adb sub raw c GetConfigReq = (handleGetConfig env db c, adb)"
| "dispatch env db adb sub raw c (UpdateConfigReq body) = (handleUpdateConfig env db sub c body, adb)"
| "dispatch env db adb sub raw c (ListProjectsReq page sz) = (handleListProjects env db c page sz, adb)"
| "dispatch env db adb sub raw c (CreateProjectReq body) = (handleCreateProject env db sub c body, adb)"
| "dispatch env db adb sub raw c (UpdateProjectReq project body) = (handleUpdateProject env db sub c project body, adb)"
| "dispatch env db adb sub raw c (ListApproversReq page sz) = (handleListApprovers env db c page sz, adb)"
| "dispatch env db adb sub raw c (AssignApproverReq body corr) = handleAssignApprover env db adb sub raw c body corr"
| "dispatch env db adb sub raw c (ListEntriesReq week) = (handleListEntries env db sub c week, adb)"
| "dispatch env db adb sub raw c (UpsertEntryReq body) = (handleUpsertEntry env db sub c body, adb)"
| "dispatch env db adb sub raw c (DeleteEntryReq entry) = (handleDeleteEntry env db sub c entry, adb)"
| "dispatch env db adb sub raw c (ListSubmissionsReq view page sz) = (handleListSubmissions env db sub c view page sz, adb)"
| "dispatch env db adb sub raw c (SubmitWeekReq body key) = (handleSubmitWeek env db sub c body key, adb)"
| "dispatch env db adb sub raw c (GetSubmissionReq s) = (handleGetSubmission env db sub c s, adb)"
| "dispatch env db adb sub raw c (ApproveSubmissionReq s) = (handleApproveSubmission env db sub c s, adb)"
| "dispatch env db adb sub raw c (RejectSubmissionReq s body) = (handleRejectSubmission env db sub c s body, adb)"

text \<open>One request of a company-scoped route, through \<open>withAuth\<close>: the answer and the tables of
  both services.\<close>

datatype tsReply = Refused apiError | Replied nat tsBody

definition tsServe :: "tsEnv \<Rightarrow> string \<Rightarrow> string \<Rightarrow> tsRequest \<Rightarrow> tsDB \<times> authzDB \<Rightarrow> tsReply \<times> tsDB \<times> authzDB" where
  "tsServe env rawBearer company req st = (case st of (db, adb) \<Rightarrow>
     (case withAuth env adb (routeFeature req) rawBearer company of
        Inl err \<Rightarrow> (Refused err, db, adb)
      | Inr subject \<Rightarrow>
          (case dispatch env db adb subject rawBearer company req of
             (Inl err, adb') \<Rightarrow> (Refused err, db, adb')
           | (Inr ((status, body), db'), adb') \<Rightarrow> (Replied status body, db', adb'))))"

section \<open>Requests and the store\<close>

lemma storeCall_Inr [simp]: "storeCall r = Inr v \<longleftrightarrow> r = Inr v"
  by (auto simp: storeCall_def split: sum.splits)

lemma tsServe_cases:
  assumes "tsServe env raw company req (db, adb) = (r, db', adb')"
  obtains (refused) err where "withAuth env adb (routeFeature req) raw company = Inl err" "r = Refused err" "db' = db" "adb' = adb"
  | (failed) sub err where "withAuth env adb (routeFeature req) raw company = Inr sub"
      "dispatch env db adb sub raw company req = (Inl err, adb')" "r = Refused err" "db' = db"
  | (served) sub status body where "withAuth env adb (routeFeature req) raw company = Inr sub"
      "dispatch env db adb sub raw company req = (Inr ((status, body), db'), adb')" "r = Replied status body"
proof (cases "withAuth env adb (routeFeature req) raw company")
  case (Inl err)
  with assms show thesis by (intro refused) (auto simp: tsServe_def)
next
  case (Inr sub)
  obtain h adb2 where d: "dispatch env db adb sub raw company req = (h, adb2)" by fastforce
  show thesis
  proof (cases h)
    case (Inl err)
    with assms Inr d show thesis by (intro failed [OF Inr, of err]) (auto simp: tsServe_def)
  next
    case (Inr x)
    obtain status body db2 where "x = ((status, body), db2)" by (metis surj_pair)
    with assms Inr \<open>withAuth _ _ _ _ _ = Inr sub\<close> d show thesis
      by (intro served [of sub status body]) (auto simp: tsServe_def)
  qed
qed

text \<open>A served request is one step of the store, or leaves its tables alone.\<close>

lemma dispatch_step:
  assumes "dispatch env db adb sub raw company req = (Inr (rp, db'), adb')" and "\<And>key. lockHeld (tsLk env) db key"
  shows "db' = db \<or> tsStep (tsNum env) (tsSha env) formatDate db db'"
proof (cases req)
  case (UpdateConfigReq body)
  with assms(1) show ?thesis by (auto simp: handleUpdateConfig_def rbind_Inr_iff intro: tsStep.update_config)
next
  case (CreateProjectReq body)
  with assms(1) show ?thesis by (auto simp: handleCreateProject_def rbind_Inr_iff intro: tsStep.create_project)
next
  case (UpdateProjectReq p body)
  with assms(1) show ?thesis by (auto simp: handleUpdateProject_def rbind_Inr_iff intro: tsStep.update_project)
next
  case (AssignApproverReq body corr)
  with assms(1) have "\<exists>c m a k ak x. RecordApproverAssignment sub c m a k ak db = (x, db')"
    by (auto simp: handleAssignApprover_def split: sum.splits prod.splits if_splits) blast
  then show ?thesis by (auto intro: tsStep.assign_approver)
next
  case (UpsertEntryReq body)
  with assms(1) have "\<exists>c m p d a b e. UpsertEntry (tsNum env) (tsNow env) (tsNewID env) (tsCfgRead env) (tsPrjRead env) (tsLk env)
      sub c m p d a b db = Inr (e, db')"
    by (auto simp: handleUpsertEntry_def rbind_Inr_iff) blast
  then show ?thesis using assms(2) by (auto intro: tsStep.upsert_entry)
next
  case (DeleteEntryReq entry)
  with assms(1) show ?thesis by (auto simp: handleDeleteEntry_def rbind_Inr_iff intro: tsStep.delete_entry)
next
  case (SubmitWeekReq body key)
  with assms(1) have "\<exists>c m w x. SubmitWeek (tsSha env) formatDate (tsNewID env) (tsNewRoot env) (tsPre env) (tsAsgRead env) sub c m w key db = Inr (x, db')"
    by (auto simp: handleSubmitWeek_def rbind_Inr_iff split: if_splits) blast+
  then show ?thesis by (auto intro: tsStep.submit_week)
next
  case (ApproveSubmissionReq i)
  with assms(1) show ?thesis
    by (auto simp: handleApproveSubmission_def ApproveSubmission_def rbind_Inr_iff intro: tsStep.decide)
next
  case (RejectSubmissionReq i body)
  with assms(1) show ?thesis
    by (auto simp: handleRejectSubmission_def RejectSubmission_def rbind_Inr_iff intro: tsStep.decide)
qed (use assms(1) in \<open>auto simp: handleGetConfig_def handleListProjects_def handleListApprovers_def handleListEntries_def
      handleListSubmissions_def handleGetSubmission_def rbind_Inr_iff Let_def split_beta\<close>)

lemma tsServe_step:
  assumes "tsServe env raw company req (db, adb) = (r, db', adb')" and "\<And>key. lockHeld (tsLk env) db key"
  shows "db' = db \<or> tsStep (tsNum env) (tsSha env) formatDate db db'"
  using assms(1) by (cases rule: tsServe_cases) (use dispatch_step [OF _ assms(2)] in auto)

text \<open>The grants of an assignment are steps of the authz service.\<close>

lemma GrantRelation_step: "reaches serviceStep adb (snd (GrantRelation env call raw company relation kcSub corr adb))"
  by (simp add: GrantRelation_def GrantOrRevoke_step)

lemma tsServe_authz_step:
  assumes "tsServe env raw company req (db, adb) = (r, db', adb')"
  shows "reaches serviceStep adb adb'"
proof -
  have "reaches serviceStep adb (snd (handleAssignApprover env db adb sub raw company body corr))" for sub body corr
  proof -
    let ?g1 = "\<lambda>c k. snd (GrantRelation env 1 raw c ''submitter'' k corr adb)"
    have "reaches serviceStep adb (snd (GrantRelation env 2 raw c ''approver'' k2 corr (?g1 c k)))" for c k k2
      by (rule reaches_trans [OF GrantRelation_step GrantRelation_step])
    then show ?thesis using GrantRelation_step reaches_refl
      by (auto simp: handleAssignApprover_def split_beta split: sum.split)
  qed
  then have "reaches serviceStep adb (snd (dispatch env db adb sub raw company req))" for sub
    by (cases req) (simp_all add: reaches_refl)
  note disp = this
  from assms show ?thesis
  proof (cases rule: tsServe_cases)
    case refused
    then show ?thesis by (simp add: reaches_refl)
  next
    case (failed sub err)
    then show ?thesis using disp [of sub] by simp
  next
    case (served sub status body)
    then show ?thesis using disp [of sub] by simp
  qed
qed

section \<open>Authorization of a request\<close>

interpretation ts_gate: module_gate "tsSubject env" "tsDelivery env 0" "tsAuthz env adb" timesheetKey
  featureKey relationLeg "withAuth env adb" for env adb
proof
  show "nul_free (relationLeg f)" for f
    by (cases f) (simp_all add: nul_free_def nul_def)
qed (auto simp: withAuth_def timesheet_Can_def timesheetKey_def FoundationModuleKey_def nul_free_def nul_def
    split: option.splits sum.splits if_splits)

definition decides :: "tsRequest \<Rightarrow> string \<Rightarrow> bool" where
  "decides req i \<longleftrightarrow> req = ApproveSubmissionReq i \<or> (\<exists>body. req = RejectSubmissionReq i body)"

lemma dispatch_decides:
  assumes "dispatch env db adb sub raw company req = (Inr (rp, db'), adb')" and "decides req i"
  shows "\<exists>s \<in> set (tsSubmissions db). tsParseUUID env i = Some (sID s) \<and> sApproverKcSub s = sub \<and>
    sCurrent s \<and> sStatus s = ''submitted''"
proof -
  obtain c j approve reason s' where i: "tsParseUUID env i = Some j"
    and d: "decideSubmission sub c j approve reason db = Inr (s', db')"
    using assms by (auto simp: decides_def handleApproveSubmission_def handleRejectSubmission_def ApproveSubmission_def
        RejectSubmission_def ParsePathUUID_def rbind_Inr_iff split: option.splits)
  obtain s where "s \<in> set (tsSubmissions db)" "sID s = j" "sApproverKcSub s = sub" "sCurrent s" "sStatus s = ''submitted''"
    using d by (rule decideSubmission_effect) (rule that)
  then show ?thesis using i by blast
qed

text \<open>What a caller needs for a feature of the module in a company, in terms of the module's token
  verifier, the answers of identity, org and registry, and the tuple table \<open>R\<close> of authz.\<close>

definition timesheetAccess :: "tsEnv \<Rightarrow> authzDB \<Rightarrow> tupleRel \<Rightarrow> string \<Rightarrow> string \<Rightarrow> tsFeature \<Rightarrow> string \<Rightarrow> bool" where
  "timesheetAccess env adb R raw company feature sub \<longleftrightarrow>
     moduleAccess (tsSubject env) (tsAuthz env adb) ''timesheet'' R raw company (relationLeg feature) sub"

lemma withAuth_means:
  assumes "withAuth env adb feature raw company = Inr sub" and "company \<noteq> []"
    and "\<And>tok sub c. tsSubject env tok = Some sub \<Longrightarrow> VerifyClaims (tsAuthz env adb) tok = Some c \<Longrightarrow> clSubject c = sub"
    and "nulFreeRows R" "\<And>ot oi rel. answers R ot oi rel (envTuples (tsAuthz env adb) ot oi rel)"
    and "\<And>l. effectiveEngine (tsAuthz env adb) = Inr l \<Longrightarrow> nulFreeModel (lModel l)" "nul_free company"
  shows "timesheetAccess env adb R raw company feature sub"
proof -
  have "authzSound (tsSubject env) (tsAuthz env adb) R" using assms(3-6) unfolding authzSound_def by blast
  then show ?thesis using ts_gate.gate_means [OF assms(1,2) _ assms(7)] by (simp add: timesheetAccess_def timesheetKey_def)
qed

section \<open>An example service\<close>

text \<open>The authz service of the earlier examples with the timesheet module enabled, and its tables
  with the approver of company \<open>c\<close>; ids are their own text.\<close>

definition exAuthzDB :: authzDB where
  "exAuthzDB = emptyDB\<lparr>tupleTab := [SuperadminTuple ''root'',
     \<lparr>ObjectType = ''company_module'', ObjectID = ''c/timesheet'', Relation = ''approver'', SubjectType = ''user'',
       SubjectID = ''boss'', SubjectRelation = []\<rparr>]\<rparr>"

definition exAuthz :: "authzDB \<Rightarrow> authzEnv" where
  "exAuthz = exModuleAuthz ''timesheet''"

definition exTsEnv :: "tsDB \<Rightarrow> tsEnv" where
  "exTsEnv db = \<lparr>tsSubject = (\<lambda>t. if t = [] then None else Some t), tsAuthz = exAuthz, tsDelivery = (\<lambda>_. Delivered),
     tsMapOrder = (\<lambda>xs. xs), tsMember = (\<lambda>c s. HttpStatus 200 (Some \<lparr>mfIsMember = True, mfIsActive = True, mfMemberID = Some ''m''\<rparr>)),
     tsGetMember = (\<lambda>m. HttpStatus 200 (Some m)), tsParseUUID = Some, tsUUID = (\<lambda>u. u), tsNum = exNum, tsSha = exSha,
     tsNow = 345600, tsNewID = ''s9'', tsNewRoot = ''r9'', tsPre = db,
     tsCfgRead = Some db, tsPrjRead = Some db, tsAsgRead = Some db, tsLk = db,
     tsOrderProjects = (\<lambda>xs. xs), tsOrderAssignments = (\<lambda>xs. xs), tsOrderSubmissions = (\<lambda>xs. xs)\<rparr>"

lemma exAuthz_effective: "effectiveEngine (exAuthz adb) = Inr exLoaded"
  by (simp add: exAuthz_def exModuleAuthz_effective)

lemma exAuthz_nulFree: "nulFreeRows (rowsOf (storeRows exAuthzDB))"
  by (simp add: nulFreeRows_rowsOf storeRows_def exAuthzDB_def emptyDB_def SuperadminTuple_def
      nulFreeRow_def nul_free_def nul_def)

lemma exApprove_auth: "withAuth (exTsEnv db) exAuthzDB SubmissionsApprove ''Bearer boss'' ''c'' = Inr ''boss''"
proof -
  have "modulekit_Can Delivered (exModuleAuthz ''timesheet'' exAuthzDB) ''timesheet'' ''Bearer boss'' ''timesheet.submissions.approve''
      ''c'' ''approver'' = Inr True"
    by (rule modulekit_Can_allowed [where c = "\<lparr>clSubject = ''boss'', clClientID = []\<rparr>"]; code_simp)
  moreover have "BearerFromHeader ''Bearer boss'' = ''boss''" by code_simp
  ultimately show ?thesis by (simp add: withAuth_def timesheet_Can_def timesheetKey_def exTsEnv_def exAuthz_def)
qed

lemma ex_serve:
  "tsServe (exTsEnv exTwoSubmitted) ''Bearer boss'' ''c'' (ApproveSubmissionReq ''s2'') (exTwoSubmitted, exAuthzDB) =
     (Replied 200 (BSubmission (toSubmissionWire (exTsEnv exTwoSubmitted) (exSubmission ''s2'' 2 (Some ''s1'') True ''approved'') True)),
      exApproved, exAuthzDB)"
proof -
  have "handleApproveSubmission (exTsEnv exTwoSubmitted) exTwoSubmitted ''boss'' ''c'' ''s2'' =
      Inr ((200, BSubmission (toSubmissionWire (exTsEnv exTwoSubmitted) (exSubmission ''s2'' 2 (Some ''s1'') True ''approved'') True)), exApproved)"
    using ex_approve2 by (simp add: handleApproveSubmission_def ParsePathUUID_def exTsEnv_def storeCall_def)
  then show ?thesis using exApprove_auth by (simp add: tsServe_def)
qed

section \<open>Properties\<close>

text \<open>C27. Dates survive the way in and out: when a submit creates a submission, the week in the
  answer is the very text of the request, and that text names a Monday.\<close>

theorem submit_echoes_week:
  assumes "handleSubmitWeek env db subject company (Some week) key = Inr ((201, BSubmission w), db')"
  shows "swWeekStart w = week \<and> (\<exists>day. parseDate week = Some day \<and> weekday (day * 86400) = 1)"
proof -
  obtain c day member sub where p: "parseWeekStart week = Inr day"
    and s: "SubmitWeek (tsSha env) formatDate (tsNewID env) (tsNewRoot env) (tsPre env) (tsAsgRead env) subject c member day key db = Inr ((sub, True), db')"
    and w: "w = toSubmissionWire env sub (sApproverKcSub sub = subject)"
    using assms by (auto simp: handleSubmitWeek_def rbind_Inr_iff split: if_splits)
  have d: "parseDate week = Some day" "isoMonday (day * 86400) = day * 86400"
    using p by (auto simp: parseWeekStart_def Let_def split: option.splits if_splits)
  obtain k h approver where "submitTx (tsNewID env) (tsNewRoot env) subject c member day k h approver db = Inr (sub, db')"
    using s by (auto simp: SubmitWeek_def Let_def rbind_Inr_iff split: option.splits if_splits)
  then have "sWeekStart sub = day" by (rule submitTx_effect(9))
  then have "swWeekStart w = week"
    using formatDate_parseDate [OF d(1)] by (simp add: w toSubmissionWire_def Let_def)
  then show ?thesis using d isoMonday_fixed_iff by blast
qed

theorem submit_echoes_week_witness:
  "swWeekStart (toSubmissionWire (exTsEnv exOneDraft) (exSubmission ''s1'' 1 None True ''submitted'') False) = ''1970-01-05''"
proof -
  let ?env = "(exTsEnv exOneDraft)\<lparr>tsNewID := ''s1'', tsNewRoot := ''root''\<rparr>"
  have "parseWeekStart ''1970-01-05'' = Inr 4" "resolveCallerMember ?env ''c'' ''mia'' = Inr ''m''" by code_simp+
  moreover have "SubmitWeek exSha formatDate ''s1'' ''root'' exOneDraft (Some exOneDraft) ''mia'' ''c'' ''m'' 4 ''key-s1'' exOneDraft =
     Inr ((exSubmission ''s1'' 1 None True ''submitted'', True), exOneSubmitted)" by code_simp
  ultimately have "handleSubmitWeek ?env exOneDraft ''mia'' ''c'' (Some ''1970-01-05'') ''key-s1'' =
      Inr ((201, BSubmission (toSubmissionWire ?env (exSubmission ''s1'' 1 None True ''submitted'') False)), exOneSubmitted)"
    by (simp add: handleSubmitWeek_def ParsePathUUID_def exTsEnv_def storeCall_def decodeBody_def exSubmission_def)
  from submit_echoes_week [OF this] show ?thesis by (simp add: toSubmissionWire_def)
qed

text \<open>A page number beyond 64 bits is read as the largest integer. The offset then wraps: with pages
  of 100 it is negative and the list fails as an internal error; with pages of 25 it is a far
  positive one.\<close>

lemma page_number_overflow:
  "PageParams ''99999999999999999999'' ''100'' = (9223372036854775807, 100) \<and>
   ListProjects orderBy db company 9223372036854775807 100 = Inl ErrDatabase \<and>
   writeStoreError ErrDatabase = (500, ''INTERNAL_ERROR'') \<and>
   wrap64 (wrap64 (9223372036854775807 - 1) * 25) = 9223372036854775758"
proof (intro conjI)
  show "ListProjects orderBy db company 9223372036854775807 100 = Inl ErrDatabase"
    by (simp add: ListProjects_def queryPage_def ClampPage_def limitOffset_def wrap64_def Let_def)
  show "PageParams ''99999999999999999999'' ''100'' = (9223372036854775807, 100)" by code_simp
qed (simp_all add: wrap64_def)

end
