(* ===== verification/Webhook_Policy.thy ===== *)
theory Webhook_Policy
  imports Modulekit "HOL-Library.Word"
begin

text \<open>
  The target policy of webhooks and their delivery (\<open>modules/notification/service/webhook_policy.go\<close>
  and \<open>webhook.go\<close>): addresses as machine words with the class tests of \<open>net/netip\<close>, the
  validation of a target, and the sender whose connections are dialled to validated addresses
  only. The lemmas relate the class tests to address ranges and follow the addresses a sender
  contacts through any sequence of deliveries.
\<close>

unbundle bit_operations_syntax

section \<open>Addresses\<close>

text \<open>\<open>netip.Addr\<close>: invalid, an IPv4 address, or an IPv6 address with a zone, which is empty for
  an address without one.\<close>

datatype Addr = InvalidAddr | Addr4 "32 word" | Addr6 "128 word" string

definition v4 :: "32 word \<Rightarrow> nat \<Rightarrow> 8 word" where
  "v4 w i = ucast (drop_bit (24 - 8 * i) w)"

definition v6 :: "128 word \<Rightarrow> nat \<Rightarrow> 8 word" where
  "v6 w i = ucast (drop_bit (120 - 8 * i) w)"

definition v6u16 :: "128 word \<Rightarrow> nat \<Rightarrow> 16 word" where
  "v6u16 w i = ucast (drop_bit (112 - 16 * i) w)"

definition Is4In6 :: "Addr \<Rightarrow> bool" where
  "Is4In6 a = (case a of Addr6 w z \<Rightarrow> drop_bit 32 w = 0xffff | _ \<Rightarrow> False)"

definition Is6 :: "Addr \<Rightarrow> bool" where
  "Is6 a = (case a of Addr6 w z \<Rightarrow> True | _ \<Rightarrow> False)"

definition Unmap :: "Addr \<Rightarrow> Addr" where
  "Unmap a = (case a of Addr6 w z \<Rightarrow> if Is4In6 a then Addr4 (ucast w) else a | _ \<Rightarrow> a)"

definition IsLoopback :: "Addr \<Rightarrow> bool" where
  "IsLoopback a = (case Unmap a of Addr4 w \<Rightarrow> v4 w 0 = 127 | Addr6 w z \<Rightarrow> w = 1 | InvalidAddr \<Rightarrow> False)"

definition IsPrivate :: "Addr \<Rightarrow> bool" where
  "IsPrivate a = (case Unmap a of
     Addr4 w \<Rightarrow> v4 w 0 = 10 \<or> (v4 w 0 = 172 \<and> v4 w 1 AND 0xf0 = 16) \<or> (v4 w 0 = 192 \<and> v4 w 1 = 168)
   | Addr6 w z \<Rightarrow> v6 w 0 AND 0xfe = 0xfc
   | InvalidAddr \<Rightarrow> False)"

definition IsLinkLocalUnicast :: "Addr \<Rightarrow> bool" where
  "IsLinkLocalUnicast a = (case Unmap a of
     Addr4 w \<Rightarrow> v4 w 0 = 169 \<and> v4 w 1 = 254
   | Addr6 w z \<Rightarrow> v6u16 w 0 AND 0xffc0 = 0xfe80
   | InvalidAddr \<Rightarrow> False)"

definition IsLinkLocalMulticast :: "Addr \<Rightarrow> bool" where
  "IsLinkLocalMulticast a = (case Unmap a of
     Addr4 w \<Rightarrow> v4 w 0 = 224 \<and> v4 w 1 = 0 \<and> v4 w 2 = 0
   | Addr6 w z \<Rightarrow> v6u16 w 0 AND 0xff0f = 0xff02
   | InvalidAddr \<Rightarrow> False)"

definition IsInterfaceLocalMulticast :: "Addr \<Rightarrow> bool" where
  "IsInterfaceLocalMulticast a = (case Unmap a of
     Addr6 w z \<Rightarrow> v6u16 w 0 AND 0xff0f = 0xff01 | _ \<Rightarrow> False)"

definition IsMulticast :: "Addr \<Rightarrow> bool" where
  "IsMulticast a = (case Unmap a of
     Addr4 w \<Rightarrow> v4 w 0 AND 0xf0 = 0xe0 | Addr6 w z \<Rightarrow> v6 w 0 = 0xff | InvalidAddr \<Rightarrow> False)"

text \<open>\<open>IsUnspecified\<close> compares whole addresses, zone included.\<close>

definition IsUnspecified :: "Addr \<Rightarrow> bool" where
  "IsUnspecified a \<longleftrightarrow> a = Addr4 0 \<or> a = Addr6 0 []"

text \<open>\<open>Prefix.Contains\<close> for an IPv6 prefix: never for an address with a zone.\<close>

definition prefixContains6 :: "128 word \<Rightarrow> nat \<Rightarrow> Addr \<Rightarrow> bool" where
  "prefixContains6 p bits a = (case a of
     Addr6 w z \<Rightarrow> z = [] \<and> (w XOR p) AND NOT (mask (128 - bits)) = 0 | _ \<Rightarrow> False)"

definition siteLocalV6 :: "Addr \<Rightarrow> bool" where
  "siteLocalV6 = prefixContains6 0xfec00000000000000000000000000000 10"

definition isDisallowedWebhookAddr :: "Addr \<Rightarrow> bool" where
  "isDisallowedWebhookAddr addr =
     (if addr = InvalidAddr then True
      else let addr = Unmap addr in
        if IsLoopback addr \<or> IsPrivate addr \<or> IsLinkLocalUnicast addr \<or> IsLinkLocalMulticast addr \<or>
           IsInterfaceLocalMulticast addr \<or> IsMulticast addr \<or> IsUnspecified addr then True
        else Is6 addr \<and> siteLocalV6 addr)"

section \<open>The policy\<close>

text \<open>The part of a parsed URL the policy reads: \<open>url.Parse\<close> is a parameter, \<open>Hostname\<close> and
  \<open>Port\<close> split the host it answers.\<close>

record URL =
  uScheme :: string
  uHost :: string

definition validOptionalPort :: "string \<Rightarrow> bool" where
  "validOptionalPort port = (case port of [] \<Rightarrow> True | c # cs \<Rightarrow> c = CHR '':'' \<and> list_all isDigit cs)"

text \<open>The text before and from the last colon, if there is one.\<close>

definition lastColon :: "string \<Rightarrow> (string \<times> string) option" where
  "lastColon s = (let after = takeWhile (\<lambda>c. c \<noteq> CHR '':'') (rev s) in
     if length after = length s then None
     else Some (take (length s - length after - 1) s, drop (length s - length after - 1) s))"

definition splitHostPort :: "string \<Rightarrow> string \<times> string" where
  "splitHostPort hostPort =
     (let (host, port) = (case lastColon hostPort of
            Some (h, p) \<Rightarrow> if validOptionalPort p then (h, drop 1 p) else (hostPort, [])
          | None \<Rightarrow> (hostPort, []));
          host = (if host \<noteq> [] \<and> hd host = CHR ''['' \<and> last host = CHR '']'' then butlast (tl host) else host)
      in (host, port))"

text \<open>\<open>polAllowedHosts\<close> is the Go map's keys; \<open>nil\<close> and empty are both \<open>[]\<close>.\<close>

record WebhookPolicy =
  polAllowHTTP :: bool
  polAllowedHosts :: "string list"

text \<open>\<open>ToLower\<close> and \<open>TrimSpace\<close> on ASCII text.\<close>

definition ToLower :: "string \<Rightarrow> string" where
  "ToLower s = map lowerChar s"

definition isSpaceChar :: "char \<Rightarrow> bool" where
  "isSpaceChar c \<longleftrightarrow> (of_char c :: nat) \<in> {9, 10, 11, 12, 13, 32}"

definition TrimSpace :: "string \<Rightarrow> string" where
  "TrimSpace s = rev (dropWhile isSpaceChar (rev (dropWhile isSpaceChar s)))"

fun splitComma :: "string \<Rightarrow> string list" where
  "splitComma [] = [[]]"
| "splitComma (c # cs) =
     (if c = CHR '','' then [] # splitComma cs
      else case splitComma cs of [] \<Rightarrow> [[c]] | p # ps \<Rightarrow> (c # p) # ps)"

definition NewWebhookPolicyFromEnv :: "string \<Rightarrow> string \<Rightarrow> WebhookPolicy" where
  "NewWebhookPolicyFromEnv allowHTTP allowedHosts =
     \<lparr>polAllowHTTP = (allowHTTP = ''true''),
      polAllowedHosts = (if allowedHosts \<noteq> []
        then filter (\<lambda>h. h \<noteq> []) (map (\<lambda>h. ToLower (TrimSpace h)) (splitComma allowedHosts)) else [])\<rparr>"

record ResolvedWebhookTarget =
  rtURL :: URL
  rtPort :: string
  rtIPs :: "Addr list"

datatype WebhookPolicyError =
    NotAbsoluteURL | SchemeNotAllowed | NoHost | HostNotListed | ResolutionFailed | NoAddresses | AddrNotAllowed Addr

text \<open>What one validation meets outside the program: the URL and address parsers and the DNS
  answer, a list of byte slices.\<close>

record netEnv =
  neParseURL :: "string \<Rightarrow> URL option"
  neParseAddr :: "string \<Rightarrow> Addr option"
  neLookup :: "string \<Rightarrow> (string, 8 word list list) result"

definition AddrFromSlice :: "8 word list \<Rightarrow> Addr option" where
  "AddrFromSlice bs =
     (if length bs = 4 then Some (Addr4 (foldl (\<lambda>acc b. acc * 256 + ucast b) 0 bs))
      else if length bs = 16 then Some (Addr6 (foldl (\<lambda>acc b. acc * 256 + ucast b) 0 bs) [])
      else None)"

definition resolveHost :: "netEnv \<Rightarrow> string \<Rightarrow> (string, Addr list) result" where
  "resolveHost net host =
     (case neParseAddr net host of
        Some ip \<Rightarrow> Inr [Unmap ip]
      | None \<Rightarrow> rbind (neLookup net host) (\<lambda>ipAddrs. Inr (map Unmap (List.map_filter AddrFromSlice ipAddrs))))"

definition policy_Validate ::
  "WebhookPolicy \<Rightarrow> netEnv \<Rightarrow> string \<Rightarrow> (WebhookPolicyError, ResolvedWebhookTarget) result" where
  "policy_Validate p net rawURL =
     (case neParseURL net rawURL of
        None \<Rightarrow> Inl NotAbsoluteURL
      | Some u \<Rightarrow>
          if uHost u = [] then Inl NotAbsoluteURL
          else if uScheme u \<noteq> ''https'' \<and> \<not> (uScheme u = ''http'' \<and> polAllowHTTP p) then Inl SchemeNotAllowed
          else let (host, port) = splitHostPort (uHost u);
                   port' = (if port = [] then if uScheme u = ''https'' then ''443'' else ''80'' else port)
            in
            if host = [] then Inl NoHost
            else if polAllowedHosts p \<noteq> [] \<and> ToLower host \<notin> set (polAllowedHosts p) then Inl HostNotListed
            else case resolveHost net host of
              Inl _ \<Rightarrow> Inl ResolutionFailed
            | Inr addrs \<Rightarrow>
                if addrs = [] then Inl NoAddresses
                else case find isDisallowedWebhookAddr addrs of
                  Some addr \<Rightarrow> Inl (AddrNotAllowed addr)
                | None \<Rightarrow> Inr \<lparr>rtURL = u, rtPort = port', rtIPs = addrs\<rparr>)"

section \<open>Classes as ranges\<close>

text \<open>The reference for the class tests: blocks of consecutive addresses, first and last.\<close>

definition reserved4 :: "(nat \<times> nat) list" where
  "reserved4 = [(0, 0), (0x0a000000, 0x0affffff), (0x7f000000, 0x7fffffff), (0xa9fe0000, 0xa9feffff),
     (0xac100000, 0xac1fffff), (0xc0a80000, 0xc0a8ffff), (0xe0000000, 0xefffffff)]"

definition reserved6 :: "(nat \<times> nat) list" where
  "reserved6 = [(1, 1),
     (0xfc000000000000000000000000000000, 0xfdffffffffffffffffffffffffffffff),
     (0xfe800000000000000000000000000000, 0xfebfffffffffffffffffffffffffffff),
     (0xff000000000000000000000000000000, 0xffffffffffffffffffffffffffffffff)]"

text \<open>The two blocks whose test also looks at the zone.\<close>

definition zoneless6 :: "(nat \<times> nat) list" where
  "zoneless6 = [(0, 0), (0xfec00000000000000000000000000000, 0xfeffffffffffffffffffffffffffffff)]"

fun within :: "nat \<Rightarrow> (nat \<times> nat) list \<Rightarrow> bool" where
  "within n [] = False"
| "within n ((first, final) # blocks) = (first \<le> n \<and> n \<le> final \<or> within n blocks)"

definition reservedAddr :: "Addr \<Rightarrow> bool" where
  "reservedAddr a = (case a of
     InvalidAddr \<Rightarrow> True
   | Addr4 w \<Rightarrow> within (unat w) reserved4
   | Addr6 w z \<Rightarrow> within (unat w) reserved6 \<or> (z = [] \<and> within (unat w) zoneless6))"

lemma unat_v4: "i \<le> 3 \<Longrightarrow> unat (v4 w i) = unat w div 2 ^ (24 - 8 * i) mod 256"
  by (simp add: v4_def unsigned_ucast_eq unat_drop_bit_eq take_bit_eq_mod drop_bit_eq_div [where 'a = nat])

lemma unat_v6: "i \<le> 15 \<Longrightarrow> unat (v6 w i) = unat w div 2 ^ (120 - 8 * i) mod 256"
  by (simp add: v6_def unsigned_ucast_eq unat_drop_bit_eq take_bit_eq_mod drop_bit_eq_div [where 'a = nat])

lemma unat_v6u16: "i \<le> 7 \<Longrightarrow> unat (v6u16 w i) = unat w div 2 ^ (112 - 16 * i) mod 65536"
  by (simp add: v6u16_def unsigned_ucast_eq unat_drop_bit_eq take_bit_eq_mod drop_bit_eq_div [where 'a = nat])

lemma word_eq_unat: "(x :: 'a :: len word) = y \<longleftrightarrow> unat x = unat y"
  by (simp add: word_unat_eq_iff)

text \<open>A mask of leading ones keeps the quotient.\<close>

lemma and_leading:
  fixes n :: nat
  assumes "n < 2 ^ m" and "k \<le> m"
  shows "n AND (2 ^ m - 2 ^ k) = n div 2 ^ k * 2 ^ k"
proof -
  have "(2 :: nat) ^ m - 2 ^ k = push_bit k (mask (m - k))"
    using assms(2) by (simp add: push_bit_eq_mult mask_eq_exp_minus_1 diff_mult_distrib flip: power_add)
  then have "n AND (2 ^ m - 2 ^ k) = n AND push_bit k (mask (m - k))" by simp
  also have "\<dots> = push_bit k (drop_bit k n AND mask (m - k))"
    by (rule bit_eqI) (auto simp: bit_simps)
  also have "drop_bit k n AND mask (m - k) = drop_bit k n"
  proof -
    have "drop_bit k n < 2 ^ (m - k)"
      using assms by (simp add: drop_bit_eq_div less_mult_imp_div_less flip: power_add)
    then show ?thesis by (simp add: take_bit_nat_eq_self flip: take_bit_eq_mask)
  qed
  finally show ?thesis by (simp add: push_bit_eq_mult drop_bit_eq_div)
qed


lemma div_eq_range:
  fixes n :: nat
  assumes "0 < k"
  shows "n div k = q \<longleftrightarrow> q * k \<le> n \<and> n \<le> q * k + (k - 1)"
proof
  assume "n div k = q"
  then show "q * k \<le> n \<and> n \<le> q * k + (k - 1)"
    using assms div_mult_mod_eq [of n k] mod_less_divisor [of k n] by (metis Suc_diff_1 add_le_cancel_left le_add1 less_Suc_eq_le)
next
  assume "q * k \<le> n \<and> n \<le> q * k + (k - 1)"
  then show "n div k = q" using assms by (intro div_nat_eqI) (auto simp: mult.commute)
qed

lemma nat_bytes:
  fixes b :: nat
  assumes "b < 256"
  shows "b AND 240 = b div 16 * 16" and "b AND 254 = b div 2 * 2"
  using and_leading [of b 8 4] and_leading [of b 8 1] assms by simp_all

lemma nat_halves:
  fixes h :: nat
  assumes "h < 65536"
  shows "h AND 65472 = h div 64 * 64" and "h AND 65295 = c \<Longrightarrow> c div 256 = 255 \<Longrightarrow> h div 256 = 255"
proof -
  show "h AND 65472 = h div 64 * 64" using and_leading [of h 16 6] assms by simp
  assume "h AND 65295 = c" and c: "c div 256 = 255"
  then have "drop_bit 8 c = drop_bit 8 h AND drop_bit 8 65295" by (metis drop_bit_and)
  then have "255 = h div 256 AND 255" using c by (simp add: drop_bit_eq_div)
  moreover have "h div 256 AND 255 = h div 256 mod 256"
    using take_bit_eq_mask [of 8 "h div 256"] by (simp add: take_bit_eq_mod mask_eq_exp_minus_1)
  moreover have "h div 256 < 256" using assms by simp
  ultimately show "h div 256 = 255" by simp
qed

lemma Unmap_idem [simp]: "Unmap (Unmap a) = Unmap a"
  by (cases a) (auto simp: Unmap_def Is4In6_def)

lemma Unmap_4 [simp]: "Unmap (Addr4 w) = Addr4 w"
  by (simp add: Unmap_def)

lemma Unmap_valid [simp]: "Unmap a = InvalidAddr \<longleftrightarrow> a = InvalidAddr"
  by (cases a) (auto simp: Unmap_def Is4In6_def)

lemma unat_bounds: "unat (w :: 'a :: len word) < 2 ^ LENGTH('a)"
  by (rule unsigned_less)

lemma unat4_bounds: "unat (w :: 32 word) < 4294967296"
  using unat_bounds [of w] by simp

lemma unat6_bounds: "unat (w :: 128 word) < 2 ^ 128"
  using unat_bounds [of w] by simp

lemma div_mod_split:
  fixes q :: nat
  assumes "y < b"
  shows "q div b = x \<and> q mod b = y \<longleftrightarrow> q = x * b + y"
  using assms by auto

lemma v4_tests:
  fixes w :: "32 word"
  defines "n \<equiv> unat w"
  shows "v4 w 0 = 127 \<longleftrightarrow> 0x7f000000 \<le> n \<and> n \<le> 0x7fffffff"
    and "v4 w 0 = 10 \<longleftrightarrow> 0x0a000000 \<le> n \<and> n \<le> 0x0affffff"
    and "v4 w 0 = 172 \<and> v4 w 1 AND 0xf0 = 16 \<longleftrightarrow> 0xac100000 \<le> n \<and> n \<le> 0xac1fffff"
    and "v4 w 0 = 192 \<and> v4 w 1 = 168 \<longleftrightarrow> 0xc0a80000 \<le> n \<and> n \<le> 0xc0a8ffff"
    and "v4 w 0 = 169 \<and> v4 w 1 = 254 \<longleftrightarrow> 0xa9fe0000 \<le> n \<and> n \<le> 0xa9feffff"
    and "v4 w 0 AND 0xf0 = 0xe0 \<longleftrightarrow> 0xe0000000 \<le> n \<and> n \<le> 0xefffffff"
    and "v4 w 0 = 224 \<Longrightarrow> v4 w 0 AND 0xf0 = 0xe0"
proof -
  have n: "n < 4294967296" unfolding n_def by (rule unat4_bounds)
  have b0: "unat (v4 w 0) = n div 16777216" and b1: "unat (v4 w (Suc 0)) = n div 65536 mod 256"
    using n by (simp_all add: unat_v4 n_def)
  have m0: "unat (v4 w 0 AND 0xf0) = n div 268435456 * 16"
    using n by (simp add: unsigned_and_eq b0 nat_bytes flip: div_mult2_eq)
  have m1: "unat (v4 w (Suc 0) AND 0xf0) = n div 1048576 mod 16 * 16"
    proof -
    have "n div 65536 mod 256 div 16 = n div 65536 div 16 mod 16"
      using mod_mult2_eq [of "n div 65536" 16 16] by (simp)
    then show ?thesis by (simp add: unsigned_and_eq b1 nat_bytes div_mult2_eq [of n 65536 16, simplified])
  qed
  have two: "n div 16777216 = x \<and> n div 65536 mod 256 = y \<longleftrightarrow> n div 65536 = x * 256 + y" if "y < 256" for x y
    using div_mod_split [OF that, of "n div 65536" x] by (simp flip: div_mult2_eq)
  have half: "n div 16777216 = x \<and> n div 1048576 mod 16 = y \<longleftrightarrow> n div 1048576 = x * 16 + y" if "y < 16" for x y
    using div_mod_split [OF that, of "n div 1048576" x] by (simp flip: div_mult2_eq)
  note u = word_eq_unat b0 b1 m0 m1
  show "v4 w 0 = 127 \<longleftrightarrow> 0x7f000000 \<le> n \<and> n \<le> 0x7fffffff"
    and "v4 w 0 = 10 \<longleftrightarrow> 0x0a000000 \<le> n \<and> n \<le> 0x0affffff"
    by (simp_all add: u div_eq_range)
  show "v4 w 0 = 172 \<and> v4 w 1 AND 0xf0 = 16 \<longleftrightarrow> 0xac100000 \<le> n \<and> n \<le> 0xac1fffff"
    using half [of 1 172] by (simp add: u div_eq_range [of 1048576])
  show "v4 w 0 = 192 \<and> v4 w 1 = 168 \<longleftrightarrow> 0xc0a80000 \<le> n \<and> n \<le> 0xc0a8ffff"
    using two [of 168 192] by (simp add: u div_eq_range [of 65536])
  show "v4 w 0 = 169 \<and> v4 w 1 = 254 \<longleftrightarrow> 0xa9fe0000 \<le> n \<and> n \<le> 0xa9feffff"
    using two [of 254 169] by (simp add: u div_eq_range [of 65536])
  have "n div 268435456 * 16 = 224 \<longleftrightarrow> n div 268435456 = 14" by auto
  then show "v4 w 0 AND 0xf0 = 0xe0 \<longleftrightarrow> 0xe0000000 \<le> n \<and> n \<le> 0xefffffff"
    by (simp add: u div_eq_range)
  show "v4 w 0 = 224 \<Longrightarrow> v4 w 0 AND 0xf0 = 0xe0" by simp
qed

lemma v6_tests:
  fixes w :: "128 word"
  defines "n \<equiv> unat w"
  shows "v6 w 0 AND 0xfe = 0xfc \<longleftrightarrow>
      0xfc000000000000000000000000000000 \<le> n \<and> n \<le> 0xfdffffffffffffffffffffffffffffff"
    and "v6 w 0 = 0xff \<longleftrightarrow>
      0xff000000000000000000000000000000 \<le> n \<and> n \<le> 0xffffffffffffffffffffffffffffffff"
    and "v6u16 w 0 AND 0xffc0 = 0xfe80 \<longleftrightarrow>
      0xfe800000000000000000000000000000 \<le> n \<and> n \<le> 0xfebfffffffffffffffffffffffffffff"
    and "v6u16 w 0 AND 0xff0f = 0xff02 \<Longrightarrow> v6 w 0 = 0xff"
    and "v6u16 w 0 AND 0xff0f = 0xff01 \<Longrightarrow> v6 w 0 = 0xff"
proof -
  have n: "n < 2 ^ 128" unfolding n_def by (rule unat6_bounds)
  have b: "unat (v6 w 0) = n div 2 ^ 120" and h: "unat (v6u16 w 0) = n div 2 ^ 112"
    using n by (simp_all add: unat_v6 unat_v6u16 n_def)
  have bh: "n div 2 ^ 120 = n div 2 ^ 112 div 256" by (simp flip: div_mult2_eq)
  have h_lt: "n div 2 ^ 112 < 65536" and b_lt: "n div 2 ^ 120 < 256" using n by simp_all
  have mb: "unat (v6 w 0 AND 0xfe) = n div 2 ^ 120 div 2 * 2"
    using b_lt by (simp add: unsigned_and_eq b nat_bytes)
  have mh: "unat (v6u16 w 0 AND 0xffc0) = n div 2 ^ 112 div 64 * 64"
    using h_lt by (simp add: unsigned_and_eq h nat_halves)
  have "n div 2 ^ 120 div 2 * 2 = 252 \<longleftrightarrow> n div 2 ^ 121 = 126" by (auto simp flip: div_mult2_eq)
  then show "v6 w 0 AND 0xfe = 0xfc \<longleftrightarrow>
      0xfc000000000000000000000000000000 \<le> n \<and> n \<le> 0xfdffffffffffffffffffffffffffffff"
    by (simp add: word_eq_unat mb div_eq_range)
  show "v6 w 0 = 0xff \<longleftrightarrow>
      0xff000000000000000000000000000000 \<le> n \<and> n \<le> 0xffffffffffffffffffffffffffffffff"
    by (simp add: word_eq_unat b div_eq_range)
  have "n div 2 ^ 112 div 64 * 64 = 65152 \<longleftrightarrow> n div 2 ^ 118 = 1018" by (auto simp flip: div_mult2_eq)
  then show "v6u16 w 0 AND 0xffc0 = 0xfe80 \<longleftrightarrow>
      0xfe800000000000000000000000000000 \<le> n \<and> n \<le> 0xfebfffffffffffffffffffffffffffff"
    by (simp add: word_eq_unat mh div_eq_range)
  have multi: "v6 w 0 = 0xff" if "unat (v6u16 w 0 AND 0xff0f) = c" and "c div 256 = 255" for c
    using nat_halves(2) [OF h_lt, of c] that by (simp add: unsigned_and_eq h word_eq_unat b bh)
  show "v6u16 w 0 AND 0xff0f = 0xff02 \<Longrightarrow> v6 w 0 = 0xff" by (rule multi [of 65282]) simp_all
  show "v6u16 w 0 AND 0xff0f = 0xff01 \<Longrightarrow> v6 w 0 = 0xff" by (rule multi [of 65281]) simp_all
qed

lemma xor_zero_iff: "(a :: 'a :: len word) XOR b = 0 \<longleftrightarrow> a = b"
  by (auto simp: bit_eq_iff bit_simps)

lemma and_high_zero_iff: "(x :: 'a :: len word) AND NOT (mask n) = 0 \<longleftrightarrow> drop_bit n x = 0"
proof
  assume a: "x AND NOT (mask n) = 0"
  show "drop_bit n x = 0"
  proof (rule bit_eqI)
    fix k
    have "\<not> bit (x AND NOT (mask n)) (n + k)" unfolding a by simp
    then show "bit (drop_bit n x) k \<longleftrightarrow> bit 0 k" by (auto simp: bit_simps dest: bit_imp_le_length)
  qed
next
  assume a: "drop_bit n x = 0"
  show "x AND NOT (mask n) = 0"
  proof (rule bit_eqI)
    fix k
    have "\<not> bit (drop_bit n x) (k - n)" unfolding a by simp
    then show "bit (x AND NOT (mask n)) k \<longleftrightarrow> bit 0 k" by (cases "k < n") (auto simp: bit_simps)
  qed
qed

lemma siteLocal_range:
  fixes w :: "128 word"
  shows "(w XOR 0xfec00000000000000000000000000000) AND NOT (mask 118) = 0 \<longleftrightarrow>
    0xfec00000000000000000000000000000 \<le> unat w \<and> unat w \<le> 0xfeffffffffffffffffffffffffffffff"
proof -
  have p: "unat (drop_bit 118 (0xfec00000000000000000000000000000 :: 128 word)) = 1019"
    by (simp add: unat_drop_bit_eq drop_bit_eq_div [where 'a = nat])
  have "(w XOR 0xfec00000000000000000000000000000) AND NOT (mask 118) = 0 \<longleftrightarrow>
      drop_bit 118 w = drop_bit 118 0xfec00000000000000000000000000000"
    unfolding and_high_zero_iff drop_bit_xor xor_zero_iff by (rule refl)
  also have "\<dots> \<longleftrightarrow> unat w div 2 ^ 118 = 1019"
    unfolding word_eq_unat p by (simp only: unat_drop_bit_eq drop_bit_eq_div [where 'a = nat])
  finally show ?thesis by (simp add: div_eq_range)
qed

text \<open>The class tests reject exactly the reserved blocks.\<close>

lemma classes4:
  shows "IsLoopback (Addr4 w) \<longleftrightarrow> 0x7f000000 \<le> unat w \<and> unat w \<le> 0x7fffffff"
    and "IsPrivate (Addr4 w) \<longleftrightarrow> 0x0a000000 \<le> unat w \<and> unat w \<le> 0x0affffff \<or>
      0xac100000 \<le> unat w \<and> unat w \<le> 0xac1fffff \<or> 0xc0a80000 \<le> unat w \<and> unat w \<le> 0xc0a8ffff"
    and "IsLinkLocalUnicast (Addr4 w) \<longleftrightarrow> 0xa9fe0000 \<le> unat w \<and> unat w \<le> 0xa9feffff"
    and "IsMulticast (Addr4 w) \<longleftrightarrow> 0xe0000000 \<le> unat w \<and> unat w \<le> 0xefffffff"
    and "IsUnspecified (Addr4 w) \<longleftrightarrow> 0 \<le> unat w \<and> unat w \<le> 0"
    and "IsLinkLocalMulticast (Addr4 w) \<Longrightarrow> IsMulticast (Addr4 w)"
    and "\<not> IsInterfaceLocalMulticast (Addr4 w)"
    and "\<not> Is6 (Addr4 w)"
proof -
  show "IsLoopback (Addr4 w) \<longleftrightarrow> 0x7f000000 \<le> unat w \<and> unat w \<le> 0x7fffffff"
    unfolding IsLoopback_def Unmap_4 Addr.case by (rule v4_tests)
  show "IsPrivate (Addr4 w) \<longleftrightarrow> 0x0a000000 \<le> unat w \<and> unat w \<le> 0x0affffff \<or>
      0xac100000 \<le> unat w \<and> unat w \<le> 0xac1fffff \<or> 0xc0a80000 \<le> unat w \<and> unat w \<le> 0xc0a8ffff"
    unfolding IsPrivate_def Unmap_4 Addr.case v4_tests by (rule refl)
  show "IsLinkLocalUnicast (Addr4 w) \<longleftrightarrow> 0xa9fe0000 \<le> unat w \<and> unat w \<le> 0xa9feffff"
    unfolding IsLinkLocalUnicast_def Unmap_4 Addr.case by (rule v4_tests)
  show "IsMulticast (Addr4 w) \<longleftrightarrow> 0xe0000000 \<le> unat w \<and> unat w \<le> 0xefffffff"
    unfolding IsMulticast_def Unmap_4 Addr.case by (rule v4_tests)
  show "IsUnspecified (Addr4 w) \<longleftrightarrow> 0 \<le> unat w \<and> unat w \<le> 0"
    by (simp add: IsUnspecified_def unat_eq_zero)
  show "IsLinkLocalMulticast (Addr4 w) \<Longrightarrow> IsMulticast (Addr4 w)"
    unfolding IsLinkLocalMulticast_def IsMulticast_def Unmap_4 Addr.case using v4_tests(7) by blast
  show "\<not> IsInterfaceLocalMulticast (Addr4 w)" by (simp add: IsInterfaceLocalMulticast_def)
  show "\<not> Is6 (Addr4 w)" by (simp add: Is6_def)
qed

lemma classes6:
  assumes "\<not> Is4In6 (Addr6 w z)"
  shows "IsLoopback (Addr6 w z) \<longleftrightarrow> 1 \<le> unat w \<and> unat w \<le> 1"
    and "IsPrivate (Addr6 w z) \<longleftrightarrow> 0xfc000000000000000000000000000000 \<le> unat w \<and>
      unat w \<le> 0xfdffffffffffffffffffffffffffffff"
    and "IsLinkLocalUnicast (Addr6 w z) \<longleftrightarrow> 0xfe800000000000000000000000000000 \<le> unat w \<and>
      unat w \<le> 0xfebfffffffffffffffffffffffffffff"
    and "IsMulticast (Addr6 w z) \<longleftrightarrow> 0xff000000000000000000000000000000 \<le> unat w \<and>
      unat w \<le> 0xffffffffffffffffffffffffffffffff"
    and "IsUnspecified (Addr6 w z) \<longleftrightarrow> z = [] \<and> 0 \<le> unat w \<and> unat w \<le> 0"
    and "siteLocalV6 (Addr6 w z) \<longleftrightarrow> z = [] \<and> 0xfec00000000000000000000000000000 \<le> unat w \<and>
      unat w \<le> 0xfeffffffffffffffffffffffffffffff"
    and "IsLinkLocalMulticast (Addr6 w z) \<Longrightarrow> IsMulticast (Addr6 w z)"
    and "IsInterfaceLocalMulticast (Addr6 w z) \<Longrightarrow> IsMulticast (Addr6 w z)"
    and "Is6 (Addr6 w z)"
proof -
  have u: "Unmap (Addr6 w z) = Addr6 w z" using assms by (simp add: Unmap_def)
  show "IsLoopback (Addr6 w z) \<longleftrightarrow> 1 \<le> unat w \<and> unat w \<le> 1"
    unfolding IsLoopback_def u Addr.case word_eq_unat by (simp add: eq_iff conj_commute)
  show "IsPrivate (Addr6 w z) \<longleftrightarrow> 0xfc000000000000000000000000000000 \<le> unat w \<and>
      unat w \<le> 0xfdffffffffffffffffffffffffffffff"
    unfolding IsPrivate_def u Addr.case by (rule v6_tests)
  show "IsLinkLocalUnicast (Addr6 w z) \<longleftrightarrow> 0xfe800000000000000000000000000000 \<le> unat w \<and>
      unat w \<le> 0xfebfffffffffffffffffffffffffffff"
    unfolding IsLinkLocalUnicast_def u Addr.case by (rule v6_tests)
  show m: "IsMulticast (Addr6 w z) \<longleftrightarrow> 0xff000000000000000000000000000000 \<le> unat w \<and>
      unat w \<le> 0xffffffffffffffffffffffffffffffff"
    unfolding IsMulticast_def u Addr.case by (rule v6_tests)
  show "IsUnspecified (Addr6 w z) \<longleftrightarrow> z = [] \<and> 0 \<le> unat w \<and> unat w \<le> 0"
    by (auto simp: IsUnspecified_def unat_eq_zero)
  show "siteLocalV6 (Addr6 w z) \<longleftrightarrow> z = [] \<and> 0xfec00000000000000000000000000000 \<le> unat w \<and>
      unat w \<le> 0xfeffffffffffffffffffffffffffffff"
    using siteLocal_range [of w] by (simp add: siteLocalV6_def prefixContains6_def)
  show "IsLinkLocalMulticast (Addr6 w z) \<Longrightarrow> IsMulticast (Addr6 w z)"
    unfolding IsLinkLocalMulticast_def IsMulticast_def u Addr.case by (rule v6_tests)
  show "IsInterfaceLocalMulticast (Addr6 w z) \<Longrightarrow> IsMulticast (Addr6 w z)"
    unfolding IsInterfaceLocalMulticast_def IsMulticast_def u Addr.case by (rule v6_tests)
  show "Is6 (Addr6 w z)" by (simp add: Is6_def)
qed

lemma disallowed_classes:
  assumes "a \<noteq> InvalidAddr" and "Unmap a = a"
    and "IsLinkLocalMulticast a \<Longrightarrow> IsMulticast a" and "IsInterfaceLocalMulticast a \<Longrightarrow> IsMulticast a"
  shows "isDisallowedWebhookAddr a \<longleftrightarrow> IsLoopback a \<or> IsPrivate a \<or> IsLinkLocalUnicast a \<or> IsMulticast a \<or>
    IsUnspecified a \<or> Is6 a \<and> siteLocalV6 a"
  using assms by (auto simp: isDisallowedWebhookAddr_def)

lemma disallowed4: "isDisallowedWebhookAddr (Addr4 w) \<longleftrightarrow> reservedAddr (Addr4 w)"
proof -
  have "isDisallowedWebhookAddr (Addr4 w) \<longleftrightarrow> IsLoopback (Addr4 w) \<or> IsPrivate (Addr4 w) \<or>
      IsLinkLocalUnicast (Addr4 w) \<or> IsMulticast (Addr4 w) \<or> IsUnspecified (Addr4 w)"
    using disallowed_classes [of "Addr4 w"] classes4(6,7,8) [of w] by simp
  also have "\<dots> \<longleftrightarrow> reservedAddr (Addr4 w)"
    unfolding classes4(1-5) reservedAddr_def Addr.case reserved4_def within.simps by blast
  finally show ?thesis .
qed

lemma disallowed6:
  assumes "\<not> Is4In6 (Addr6 w z)"
  shows "isDisallowedWebhookAddr (Addr6 w z) \<longleftrightarrow> reservedAddr (Addr6 w z)"
proof -
  note c = classes6 [OF assms]
  have u: "Unmap (Addr6 w z) = Addr6 w z" using assms by (simp add: Unmap_def)
  have "isDisallowedWebhookAddr (Addr6 w z) \<longleftrightarrow> IsLoopback (Addr6 w z) \<or> IsPrivate (Addr6 w z) \<or>
      IsLinkLocalUnicast (Addr6 w z) \<or> IsMulticast (Addr6 w z) \<or> IsUnspecified (Addr6 w z) \<or> siteLocalV6 (Addr6 w z)"
    using disallowed_classes [OF _ u c(7) c(8)] c(9) by simp
  also have "\<dots> \<longleftrightarrow> reservedAddr (Addr6 w z)"
    unfolding c(1-6) reservedAddr_def Addr.case reserved6_def zoneless6_def within.simps by blast
  finally show ?thesis .
qed

lemma disallowed_reserved: "isDisallowedWebhookAddr a \<longleftrightarrow> reservedAddr (Unmap a)"
proof (cases a)
  case InvalidAddr
  then show ?thesis by (simp add: isDisallowedWebhookAddr_def reservedAddr_def Unmap_def)
next
  case (Addr4 w)
  then show ?thesis by (simp add: disallowed4)
next
  case a: (Addr6 w z)
  show ?thesis
  proof (cases "Is4In6 a")
    case True
    then have u: "Unmap a = Addr4 (ucast w)" using a by (simp add: Unmap_def)
    have "isDisallowedWebhookAddr a \<longleftrightarrow> isDisallowedWebhookAddr (Unmap a)"
      by (simp add: isDisallowedWebhookAddr_def Let_def)
    then show ?thesis by (simp add: u disallowed4)
  next
    case False
    then show ?thesis using disallowed6 [of w z] a by (simp add: Unmap_def)
  qed
qed

section \<open>Delivery\<close>

text \<open>A job as the sender sees it, and the request it builds: \<open>json.Marshal\<close> and HMAC-SHA256 are
  parameters.\<close>

record webhookJob =
  wjID :: string
  wjMessageID :: string
  wjTarget :: string
  wjSubjectLine :: string
  wjBody :: string

record webhookRequest =
  wrURL :: string
  wrHeaders :: "(string \<times> string) list"
  wrBody :: string

definition buildWebhookRequest ::
  "(json \<Rightarrow> string) \<Rightarrow> (string \<Rightarrow> string \<Rightarrow> string) \<Rightarrow> string \<Rightarrow> webhookJob \<Rightarrow> webhookRequest" where
  "buildWebhookRequest marshal hmac secret d =
     (let body = marshal (JObj [(''messageId'', JStr (wjMessageID d)), (''subjectLine'', JStr (wjSubjectLine d)),
                                (''body'', JStr (wjBody d))])
      in \<lparr>wrURL = wjTarget d,
          wrHeaders = [(''Content-Type'', ''application/json''), (''X-Notification-Signature'', hmac secret body),
                       (''X-Kiban-Delivery-Id'', wjID d)],
          wrBody = body\<rparr>)"

text \<open>The dialer tries the validated addresses in order and answers the first connection, with the
  addresses it tried.\<close>

fun pinnedDialContext :: "(Addr \<Rightarrow> string \<Rightarrow> bool) \<Rightarrow> string \<Rightarrow> Addr list \<Rightarrow> Addr option \<times> Addr list" where
  "pinnedDialContext dial port [] = (None, [])"
| "pinnedDialContext dial port (ip # ips) =
     (if dial ip port then (Some ip, [ip])
      else case pinnedDialContext dial port ips of (conn, tried) \<Rightarrow> (conn, ip # tried))"

text \<open>The connections the shared transport keeps, by scheme and host. What a request meets:
  the idle connection the transport picks, whether it still works, which dials succeed, the status
  of the answer, \<open>None\<close> when the exchange fails or the answer is a redirect with a location, and
  whether the connection goes back to the pool.\<close>

type_synonym pool = "((string \<times> string) \<times> Addr) list"

record httpWorld =
  hwPick :: "Addr list \<Rightarrow> nat option"
  hwAlive :: "Addr \<Rightarrow> bool"
  hwDial :: "Addr \<Rightarrow> string \<Rightarrow> bool"
  hwStatus :: "Addr \<Rightarrow> nat option"
  hwKeep :: bool

datatype deliverError = NonRetryable WebhookPolicyError | DeliveryFailed

definition idleFor :: "pool \<Rightarrow> string \<times> string \<Rightarrow> Addr list" where
  "idleFor pl key = map snd (filter (\<lambda>(k, a). k = key) pl)"

text \<open>The connection of a request and the addresses contacted to get it.\<close>

definition connect :: "httpWorld \<Rightarrow> pool \<Rightarrow> ResolvedWebhookTarget \<Rightarrow> Addr option \<times> Addr list" where
  "connect h pl target =
     (let idle = idleFor pl (uScheme (rtURL target), uHost (rtURL target)) in
      case hwPick h idle of
        Some i \<Rightarrow>
          if i < length idle then
            if hwAlive h (idle ! i) then (Some (idle ! i), [idle ! i])
            else case pinnedDialContext (hwDial h) (rtPort target) (rtIPs target) of
              (conn, tried) \<Rightarrow> (conn, idle ! i # tried)
          else pinnedDialContext (hwDial h) (rtPort target) (rtIPs target)
      | None \<Rightarrow> pinnedDialContext (hwDial h) (rtPort target) (rtIPs target))"

definition post ::
  "httpWorld \<Rightarrow> ResolvedWebhookTarget \<Rightarrow> pool \<Rightarrow> (deliverError, unit) result \<times> Addr list \<times> pool" where
  "post h target pl =
     (case connect h pl target of
        (None, tried) \<Rightarrow> (Inl DeliveryFailed, tried, pl)
      | (Some a, tried) \<Rightarrow>
          (case hwStatus h a of
             Some status \<Rightarrow> if 300 \<le> status then Inl DeliveryFailed else Inr ()
           | None \<Rightarrow> Inl DeliveryFailed,
           tried,
           if hwKeep h then ((uScheme (rtURL target), uHost (rtURL target)), a) # pl else pl))"

definition webhook_Deliver ::
  "WebhookPolicy \<Rightarrow> netEnv \<Rightarrow> httpWorld \<Rightarrow> webhookJob \<Rightarrow> pool \<Rightarrow> (deliverError, unit) result \<times> Addr list \<times> pool" where
  "webhook_Deliver p net h d pl =
     (case policy_Validate p net (wjTarget d) of
        Inl e \<Rightarrow> (Inl (NonRetryable e), [], pl)
      | Inr target \<Rightarrow> post h target pl)"

text \<open>A sequence of deliveries of one sender, each with what it meets.\<close>

fun deliverAll :: "WebhookPolicy \<Rightarrow> (netEnv \<times> httpWorld \<times> webhookJob) list \<Rightarrow> pool \<Rightarrow> Addr list \<times> pool" where
  "deliverAll p [] pl = ([], pl)"
| "deliverAll p ((net, h, d) # ds) pl =
     (case webhook_Deliver p net h d pl of (_, contacted, pl') \<Rightarrow>
        case deliverAll p ds pl' of (later, pl'') \<Rightarrow> (contacted @ later, pl''))"

lemma pinnedDial_addrs:
  "pinnedDialContext dial port ips = (conn, tried) \<Longrightarrow>
   set tried \<subseteq> set ips \<and> (\<forall>a. conn = Some a \<longrightarrow> a \<in> set tried \<and> dial a port)"
  by (induction ips arbitrary: conn tried) (auto split: if_splits prod.splits)

lemma resolved_unmapped: "resolveHost net host = Inr addrs \<Longrightarrow> a \<in> set addrs \<Longrightarrow> Unmap a = a"
  by (auto simp: resolveHost_def rbind_Inr_iff split: option.splits)

lemma Validate_Inr:
  "policy_Validate p net rawURL = Inr t \<longleftrightarrow>
   (\<exists>u host port addrs. neParseURL net rawURL = Some u \<and> uHost u \<noteq> [] \<and>
      (uScheme u = ''https'' \<or> uScheme u = ''http'' \<and> polAllowHTTP p) \<and>
      splitHostPort (uHost u) = (host, port) \<and> host \<noteq> [] \<and>
      (polAllowedHosts p = [] \<or> ToLower host \<in> set (polAllowedHosts p)) \<and>
      resolveHost net host = Inr addrs \<and> addrs \<noteq> [] \<and> list_all (\<lambda>a. \<not> reservedAddr a) addrs \<and>
      t = \<lparr>rtURL = u, rtPort = (if port = [] then if uScheme u = ''https'' then ''443'' else ''80'' else port),
           rtIPs = addrs\<rparr>)"
proof -
  have addrs: "find isDisallowedWebhookAddr addrs = None \<longleftrightarrow> list_all (\<lambda>a. \<not> reservedAddr a) addrs"
    if "resolveHost net host = Inr addrs" for host addrs
    using resolved_unmapped [OF that] by (auto simp: find_None_iff list_all_iff disallowed_reserved)
  show ?thesis
  proof (cases "neParseURL net rawURL")
    case None
    then show ?thesis by (simp add: policy_Validate_def)
  next
    case u: (Some u)
    obtain host port where sp: "splitHostPort (uHost u) = (host, port)" by fastforce
    show ?thesis
    proof (cases "resolveHost net host")
      case (Inl e)
      then show ?thesis by (simp add: policy_Validate_def u sp Let_def)
    next
      case r: (Inr as)
      show ?thesis
      proof (cases "find isDisallowedWebhookAddr as")
        case None
        then have "list_all (\<lambda>a. \<not> reservedAddr a) as" by (simp add: addrs [OF r])
        then show ?thesis using None by (auto simp: policy_Validate_def u sp r Let_def)
      next
        case (Some a)
        then have "\<not> list_all (\<lambda>a. \<not> reservedAddr a) as" by (simp flip: addrs [OF r])
        then show ?thesis using Some by (simp add: policy_Validate_def u sp r Let_def)
      qed
    qed
  qed
qed

lemma connect_addrs:
  assumes "connect h pl target = (conn, tried)"
  shows "set tried \<subseteq> snd ` set pl \<union> set (rtIPs target)" and "conn = Some a \<Longrightarrow> a \<in> set tried"
proof -
  have idle: "set (idleFor pl k) \<subseteq> snd ` set pl" for k by (auto simp: idleFor_def)
  have dial: "set ts \<subseteq> set (rtIPs target)" "c = Some a \<Longrightarrow> a \<in> set ts"
    if "pinnedDialContext (hwDial h) (rtPort target) (rtIPs target) = (c, ts)" for c ts
    using pinnedDial_addrs [OF that] by auto
  define idle where "idle = idleFor pl (uScheme (rtURL target), uHost (rtURL target))"
  obtain c ts where d: "pinnedDialContext (hwDial h) (rtPort target) (rtIPs target) = (c, ts)" by fastforce
  consider "(conn, tried) = (c, ts)"
    | i where "i < length idle" "(conn, tried) = (Some (idle ! i), [idle ! i]) \<or> (conn, tried) = (c, idle ! i # ts)"
    using assms by (auto simp: connect_def Let_def d idle_def split: option.splits if_splits)
  then have "set tried \<subseteq> snd ` set pl \<union> set (rtIPs target) \<and> (conn = Some a \<longrightarrow> a \<in> set tried)"
  proof cases
    case 1
    then show ?thesis using dial [OF d] by auto
  next
    case (2 i)
    then have "idle ! i \<in> snd ` set pl" using idle nth_mem unfolding idle_def by blast
    then show ?thesis using 2(2) dial [OF d] by (elim disjE; simp; blast)
  qed
  then show "set tried \<subseteq> snd ` set pl \<union> set (rtIPs target)" and "conn = Some a \<Longrightarrow> a \<in> set tried"
    by blast+
qed

definition poolPublic :: "pool \<Rightarrow> bool" where
  "poolPublic pl \<longleftrightarrow> (\<forall>a \<in> snd ` set pl. \<not> reservedAddr a)"

lemma post_public:
  assumes "post h target pl = (res, contacted, pl')" and "poolPublic pl"
    and "list_all (\<lambda>a. \<not> reservedAddr a) (rtIPs target)"
  shows "list_all (\<lambda>a. \<not> reservedAddr a) contacted \<and> poolPublic pl'"
proof -
  obtain conn tried where c: "connect h pl target = (conn, tried)" by fastforce
  have tried: "list_all (\<lambda>a. \<not> reservedAddr a) tried"
    using connect_addrs(1) [OF c] assms(2,3) by (auto simp: list_all_iff poolPublic_def)
  show ?thesis
  proof (cases conn)
    case None
    then show ?thesis using assms(1,2) c tried by (simp add: post_def)
  next
    case (Some a)
    then have "\<not> reservedAddr a" using connect_addrs(2) [OF c, of a] tried by (auto simp: list_all_iff)
    then show ?thesis using assms(1,2) c tried Some by (auto simp: post_def poolPublic_def split: if_splits)
  qed
qed

lemma Deliver_public:
  assumes "webhook_Deliver p net h d pl = (res, contacted, pl')" and "poolPublic pl"
  shows "list_all (\<lambda>a. \<not> reservedAddr a) contacted \<and> poolPublic pl'"
proof (cases "policy_Validate p net (wjTarget d)")
  case (Inl e)
  then show ?thesis using assms by (simp add: webhook_Deliver_def)
next
  case (Inr t)
  then have "list_all (\<lambda>a. \<not> reservedAddr a) (rtIPs t)" by (auto simp: Validate_Inr)
  then show ?thesis using post_public [of h t pl res contacted pl'] assms Inr by (simp add: webhook_Deliver_def)
qed

lemma deliverAll_public:
  "poolPublic pl \<Longrightarrow> deliverAll p ds pl = (contacted, pl') \<Longrightarrow>
   list_all (\<lambda>a. \<not> reservedAddr a) contacted \<and> poolPublic pl'"
proof (induction ds arbitrary: pl contacted)
  case Nil
  then show ?case by simp
next
  case (Cons x ds)
  obtain net h d where x: "x = (net, h, d)" by (cases x)
  obtain res c pl1 where d: "webhook_Deliver p net h d pl = (res, c, pl1)" by (cases "webhook_Deliver p net h d pl")
  obtain later pl2 where m: "deliverAll p ds pl1 = (later, pl2)" by fastforce
  have eq: "contacted = c @ later" "pl2 = pl'" using Cons.prems(2) by (simp_all add: x d m)
  have "list_all (\<lambda>a. \<not> reservedAddr a) c" and pl1: "poolPublic pl1"
    using Deliver_public [OF d Cons.prems(1)] by auto
  moreover have "list_all (\<lambda>a. \<not> reservedAddr a) later \<and> poolPublic pl'"
    by (rule Cons.IH [OF pl1]) (simp add: m eq)
  ultimately show ?case by (simp add: eq)
qed

section \<open>An example\<close>

definition exPolicy :: WebhookPolicy where
  "exPolicy = NewWebhookPolicyFromEnv [] []"

text \<open>A resolver whose answers the caller chooses, and a parser that reads one literal with a
  zone.\<close>

definition exNet :: "8 word list list \<Rightarrow> netEnv" where
  "exNet answer = \<lparr>
     neParseURL = (\<lambda>s. if s = ''https://[::%25lo]/'' then Some \<lparr>uScheme = ''https'', uHost = ''[::%lo]''\<rparr>
                       else if s = ''https://hooks.example:8443/in'' then Some \<lparr>uScheme = ''https'', uHost = ''hooks.example:8443''\<rparr>
                       else None),
     neParseAddr = (\<lambda>s. if s = ''::%lo'' then Some (Addr6 0 ''lo'') else None),
     neLookup = (\<lambda>host. Inr answer)\<rparr>"

section \<open>Properties\<close>

text \<open>C32. The address test of the policy is exact: an address is refused precisely when, after
  unmapping, it lies in one of the listed blocks (this host, private, loopback, link-local,
  multicast, unique-local; for an address without a zone also the unspecified address and the
  site-local block). And whatever the resolver answers from one delivery to the next, and whichever
  pooled connections are reused, a sender that starts without connections contacts only addresses
  outside these blocks.\<close>

theorem webhook_contacts_public:
  "isDisallowedWebhookAddr a = reservedAddr (Unmap a) \<and>
   list_all (\<lambda>a. \<not> reservedAddr a) (fst (deliverAll p ds []))"
  using deliverAll_public [of "[]" p ds]
  by (cases "deliverAll p ds []") (simp add: poolPublic_def disallowed_reserved)

text \<open>C33. A literal with a zone evades the unspecified-address test: with the default policy the
  target \<open>https://[::%25lo]/\<close> is accepted and the address \<open>::\<close> is dialled, although the same address
  without the zone is refused.\<close>

theorem webhook_zone_accepted:
  "policy_Validate exPolicy (exNet []) ''https://[::%25lo]/'' =
     Inr \<lparr>rtURL = \<lparr>uScheme = ''https'', uHost = ''[::%lo]''\<rparr>, rtPort = ''443'', rtIPs = [Addr6 0 ''lo'']\<rparr> \<and>
   isDisallowedWebhookAddr (Addr6 0 []) \<and> \<not> isDisallowedWebhookAddr (Addr6 0 ''lo'')"
proof -
  have four: "\<not> Is4In6 (Addr6 0 z)" for z by (simp add: Is4In6_def)
  have bad: "isDisallowedWebhookAddr (Addr6 0 [])" and ok: "\<not> isDisallowedWebhookAddr (Addr6 0 ''lo'')"
    by (simp_all add: disallowed6 four reservedAddr_def reserved6_def zoneless6_def)
  have sp: "splitHostPort ''[::%lo]'' = (''::%lo'', [])" by code_simp
  have "resolveHost (exNet []) ''::%lo'' = Inr [Addr6 0 ''lo'']"
    by (simp add: resolveHost_def exNet_def Unmap_def four)
  then have "policy_Validate exPolicy (exNet []) ''https://[::%25lo]/'' =
     Inr \<lparr>rtURL = \<lparr>uScheme = ''https'', uHost = ''[::%lo]''\<rparr>, rtPort = ''443'', rtIPs = [Addr6 0 ''lo'']\<rparr>"
    using ok by (simp add: policy_Validate_def exNet_def sp exPolicy_def NewWebhookPolicyFromEnv_def)
  then show ?thesis using bad ok by blast
qed

end
