(* ===== verification/Notification_Jobs.thy ===== *)
theory Notification_Jobs
  imports Modulekit Kiban_Systems
begin

text \<open>
  Leased background delivery of the notification module (\<open>modules/notification/service/worker.go\<close>):
  the job table with its fenced updates, and any number of workers that claim batches, deliver,
  heartbeat and crash, interleaved in any order under a common clock. The lemmas give the effect of
  each statement, an invariant that ties every lease a worker holds to the row it was taken from,
  and what follows for settling, retrying and giving up.
\<close>

section \<open>The job table\<close>

text \<open>Instants are microseconds, durations nanoseconds as in package \<open>time\<close>.\<close>

record DeliveryJob =
  jID :: string
  jMessageID :: string
  jKind :: string
  jTarget :: string
  jStatus :: string
  jAttempts :: int
  jLeasedUntil :: "int option"
  jLastError :: "string option"
  jLeaseToken :: "string option"
  jClaimGroup :: string
  jCreatedAt :: int

datatype jobError = ErrLeaseLost | JobDatabase

text \<open>The table and the audit rows of jobs given up: job, attempts and last error.\<close>

record jobDB =
  jdJobs :: "DeliveryJob list"
  jdDead :: "(string \<times> int \<times> string) list"

definition maxAttempts :: int where
  "maxAttempts = 8"

text \<open>An interval has microseconds; the literal the code prints is exact for whole
  microseconds.\<close>

definition intervalLiteral :: "int \<Rightarrow> int" where
  "intervalLiteral d = d div 1000"

definition claimable :: "int \<Rightarrow> string \<Rightarrow> DeliveryJob \<Rightarrow> bool" where
  "claimable now claimGroup j \<longleftrightarrow> jClaimGroup j = claimGroup \<and> jStatus j = ''pending'' \<and>
     (case jLeasedUntil j of None \<Rightarrow> True | Some t \<Rightarrow> t < now)"

text \<open>\<open>skip\<close> are the rows that concurrent statements hold locked, \<open>tie\<close> the order of rows created at
  the same instant, \<open>fresh\<close> the token generated for each row. An attempt counter at the end of its
  32-bit range fails the statement.\<close>

definition claimIDs :: "(DeliveryJob list \<Rightarrow> DeliveryJob list) \<Rightarrow> string list \<Rightarrow> int \<Rightarrow> string \<Rightarrow> nat \<Rightarrow>
    DeliveryJob list \<Rightarrow> string list" where
  "claimIDs tie skip now claimGroup limit jobs =
     map jID (take limit (filter (\<lambda>j. jID j \<notin> set skip) (sort_key jCreatedAt (tie (filter (claimable now claimGroup) jobs)))))"

definition claimRow :: "int \<Rightarrow> int \<Rightarrow> (string \<Rightarrow> string) \<Rightarrow> DeliveryJob \<Rightarrow> DeliveryJob" where
  "claimRow now lease fresh j = j\<lparr>jLeasedUntil := Some (now + intervalLiteral lease), jAttempts := jAttempts j + 1,
     jLeaseToken := Some (fresh (jID j))\<rparr>"

definition ClaimJobs ::
  "(DeliveryJob list \<Rightarrow> DeliveryJob list) \<Rightarrow> string list \<Rightarrow> (string \<Rightarrow> string) \<Rightarrow> int \<Rightarrow> string \<Rightarrow> int \<Rightarrow> nat \<Rightarrow>
   jobDB \<Rightarrow> (jobError, DeliveryJob list \<times> jobDB) result" where
  "ClaimJobs tie skip fresh now claimGroup lease limit db =
     (let ids = claimIDs tie skip now claimGroup limit (jdJobs db);
          claimed = map (claimRow now lease fresh) (filter (\<lambda>j. jID j \<in> set ids) (jdJobs db))
      in if list_ex (\<lambda>j. 2 ^ 31 - 1 < jAttempts j) claimed then Inl JobDatabase
         else Inr (claimed, db\<lparr>jdJobs := map (\<lambda>j. if jID j \<in> set ids then claimRow now lease fresh j else j) (jdJobs db)\<rparr>))"

definition CountJobsByState :: "jobDB \<Rightarrow> string \<Rightarrow> string \<Rightarrow> nat" where
  "CountJobsByState db claimGroup status =
     length (filter (\<lambda>j. jClaimGroup j = claimGroup \<and> jStatus j = status) (jdJobs db))"

text \<open>The fenced update \<open>WHERE id = $1 AND lease_token = $2\<close>: no row is a lost lease.\<close>

definition holds :: "string \<Rightarrow> string \<Rightarrow> DeliveryJob \<Rightarrow> bool" where
  "holds i token j \<longleftrightarrow> jID j = i \<and> jLeaseToken j = Some token"

definition fenced ::
  "string \<Rightarrow> string \<Rightarrow> (DeliveryJob \<Rightarrow> DeliveryJob) \<Rightarrow> jobDB \<Rightarrow> (jobError, jobDB) result" where
  "fenced i token upd db =
     (if list_ex (holds i token) (jdJobs db)
      then Inr (db\<lparr>jdJobs := map (\<lambda>j. if holds i token j then upd j else j) (jdJobs db)\<rparr>)
      else Inl ErrLeaseLost)"

definition CompleteJob :: "string \<Rightarrow> string \<Rightarrow> jobDB \<Rightarrow> (jobError, jobDB) result" where
  "CompleteJob i token db =
     fenced i token (\<lambda>j. j\<lparr>jStatus := ''done'', jLastError := None, jLeaseToken := None\<rparr>) db"

definition second :: int where
  "second = 1000000000"

definition maxRetryBackoff :: int where
  "maxRetryBackoff = 15 * 60 * second"

definition retryBackoff :: "int \<Rightarrow> int" where
  "retryBackoff attempts =
     (let attempts = (if attempts < 0 then 0 else attempts) in
      if 10 < attempts then maxRetryBackoff
      else min (wrap64 (wrap64 (2 ^ nat attempts) * second)) maxRetryBackoff)"

definition markJobDead :: "string \<Rightarrow> string \<Rightarrow> int \<Rightarrow> string \<Rightarrow> jobDB \<Rightarrow> (jobError, jobDB) result" where
  "markJobDead i token attempts errMsg db =
     (if \<not> nul_free errMsg then Inl JobDatabase
      else rbind (fenced i token (\<lambda>j. j\<lparr>jStatus := ''dead'', jLeasedUntil := None, jLeaseToken := None,
                                       jLastError := Some errMsg\<rparr>) db)
        (\<lambda>db'. Inr (db'\<lparr>jdDead := jdDead db' @ [(i, attempts, errMsg)]\<rparr>)))"

definition FailJob :: "int \<Rightarrow> string \<Rightarrow> string \<Rightarrow> int \<Rightarrow> string \<Rightarrow> jobDB \<Rightarrow> (jobError, jobDB) result" where
  "FailJob now i token attempts errMsg db =
     (if maxAttempts \<le> attempts then markJobDead i token attempts errMsg db
      else if \<not> nul_free errMsg then Inl JobDatabase
      else fenced i token (\<lambda>j. j\<lparr>jStatus := ''pending'', jLeasedUntil := Some (now + intervalLiteral (retryBackoff attempts)),
             jLeaseToken := None, jLastError := Some errMsg\<rparr>) db)"

definition FailJobPermanent :: "string \<Rightarrow> string \<Rightarrow> string \<Rightarrow> jobDB \<Rightarrow> (jobError, jobDB) result" where
  "FailJobPermanent i token errMsg db = markJobDead i token (- 1) errMsg db"

definition heldBy :: "string list \<Rightarrow> DeliveryJob \<Rightarrow> bool" where
  "heldBy tokens j \<longleftrightarrow> jStatus j = ''pending'' \<and> (case jLeaseToken j of None \<Rightarrow> False | Some t \<Rightarrow> t \<in> set tokens)"

definition ExtendLeaseBatch :: "int \<Rightarrow> string list \<Rightarrow> int \<Rightarrow> jobDB \<Rightarrow> string list \<times> jobDB" where
  "ExtendLeaseBatch now tokens lease db =
     (if tokens = [] then ([], db)
      else (List.map_filter jLeaseToken (filter (heldBy tokens) (jdJobs db)),
            db\<lparr>jdJobs := map (\<lambda>j. if heldBy tokens j then j\<lparr>jLeasedUntil := Some (now + intervalLiteral lease)\<rparr> else j)
                 (jdJobs db)\<rparr>))"

text \<open>\<open>failJob\<close> of the worker.\<close>

datatype deliveryOutcome = Sent | Failed string | Rejected string

definition failJob :: "int \<Rightarrow> DeliveryJob \<Rightarrow> string \<Rightarrow> bool \<Rightarrow> string \<Rightarrow> jobDB \<Rightarrow> (jobError, jobDB) result" where
  "failJob now job token nonRetryable errMsg db =
     (if nonRetryable then FailJobPermanent (jID job) token errMsg db
      else FailJob now (jID job) token (jAttempts job) errMsg db)"

text \<open>The statement with which a worker settles a delivery that returned.\<close>

definition settle :: "int \<Rightarrow> DeliveryJob \<Rightarrow> string \<Rightarrow> deliveryOutcome \<Rightarrow> jobDB \<Rightarrow> (jobError, jobDB) result" where
  "settle now job token res db = (case res of
     Sent \<Rightarrow> CompleteJob (jID job) token db
   | Failed e \<Rightarrow> failJob now job token False e db
   | Rejected e \<Rightarrow> failJob now job token True e db)"

section \<open>Workers\<close>

text \<open>\<open>batchLease\<close>: a claimed job with the token of its claim, whether its context is cancelled and
  whether it is settled.\<close>

record batchLease =
  blJob :: DeliveryJob
  blToken :: string
  blCancelled :: bool
  blSettled :: bool

text \<open>Where \<open>runOnce\<close> and \<open>deliverLeased\<close> are with the lease at the current position: at the head of
  the loop, inside \<open>Deliver\<close>, after its return, or about to settle. The heartbeat goroutine is
  waiting, has read the unsettled leases, or has the answer of its statement.\<close>

datatype deliveryPhase = AtLoop | Delivering | Returned deliveryOutcome | Settling deliveryOutcome

datatype heartbeat = HbWaiting | HbRead "nat list" | HbExtended "nat list" "string list"

record deliveryWorker =
  wkGroup :: string
  wkLeases :: "batchLease list"
  wkPos :: nat
  wkPhase :: deliveryPhase
  wkHeartbeat :: heartbeat

definition idleWorker :: "string \<Rightarrow> deliveryWorker" where
  "idleWorker claimGroup = \<lparr>wkGroup = claimGroup, wkLeases = [], wkPos = 0, wkPhase = AtLoop, wkHeartbeat = HbWaiting\<rparr>"

definition leaseOf :: "DeliveryJob \<Rightarrow> batchLease" where
  "leaseOf j = \<lparr>blJob = j, blToken = (case jLeaseToken j of None \<Rightarrow> [] | Some t \<Rightarrow> t), blCancelled = False, blSettled = False\<rparr>"

definition cancelLease :: "nat \<Rightarrow> deliveryWorker \<Rightarrow> deliveryWorker" where
  "cancelLease i wk = wk\<lparr>wkLeases := (wkLeases wk)[i := (wkLeases wk ! i)\<lparr>blCancelled := True\<rparr>]\<rparr>"

text \<open>\<open>l.settled.Store(true)\<close> and the next round of the loop.\<close>

definition settleLease :: "deliveryWorker \<Rightarrow> deliveryWorker" where
  "settleLease wk = wk\<lparr>wkLeases := (wkLeases wk)[wkPos wk := (wkLeases wk ! wkPos wk)\<lparr>blSettled := True\<rparr>],
     wkPos := wkPos wk + 1, wkPhase := AtLoop\<rparr>"

definition unsettled :: "deliveryWorker \<Rightarrow> nat list" where
  "unsettled wk = filter (\<lambda>i. \<not> blSettled (wkLeases wk ! i)) [0..<length (wkLeases wk)]"

text \<open>The last loop of \<open>batchHeartbeat\<close>: leases that were not extended and are still unsettled.\<close>

definition cancelLost :: "nat list \<Rightarrow> string list \<Rightarrow> deliveryWorker \<Rightarrow> deliveryWorker" where
  "cancelLost pending extended wk =
     fold (\<lambda>i wk. if blToken (wkLeases wk ! i) \<notin> set extended \<and> \<not> blSettled (wkLeases wk ! i)
                  then cancelLease i wk else wk) pending wk"

text \<open>The steps of a worker that leave the database alone. A statement that fails leaves it alone
  too; so does one that finds its lease lost.\<close>

inductive workerStep :: "deliveryWorker \<Rightarrow> deliveryWorker \<Rightarrow> bool" where
  skip_lost: "wkPhase wk = AtLoop \<Longrightarrow> wkPos wk < length (wkLeases wk) \<Longrightarrow> blCancelled (wkLeases wk ! wkPos wk) \<Longrightarrow>
    workerStep wk (settleLease wk)"
| load_failed: "wkPhase wk = AtLoop \<Longrightarrow> wkPos wk < length (wkLeases wk) \<Longrightarrow> \<not> blCancelled (wkLeases wk ! wkPos wk) \<Longrightarrow>
    workerStep wk (wk\<lparr>wkPhase := Settling (Failed e)\<rparr>)"
| no_deliverer: "wkPhase wk = AtLoop \<Longrightarrow> wkPos wk < length (wkLeases wk) \<Longrightarrow> \<not> blCancelled (wkLeases wk ! wkPos wk) \<Longrightarrow>
    workerStep wk (settleLease wk)"
| deliver: "wkPhase wk = AtLoop \<Longrightarrow> wkPos wk < length (wkLeases wk) \<Longrightarrow> \<not> blCancelled (wkLeases wk ! wkPos wk) \<Longrightarrow>
    workerStep wk (wk\<lparr>wkPhase := Delivering\<rparr>)"
| returned: "wkPhase wk = Delivering \<Longrightarrow> workerStep wk (wk\<lparr>wkPhase := Returned res\<rparr>)"
| lost_mid_delivery: "wkPhase wk = Returned res \<Longrightarrow> blCancelled (wkLeases wk ! wkPos wk) \<Longrightarrow>
    workerStep wk (settleLease wk)"
| kept: "wkPhase wk = Returned res \<Longrightarrow> \<not> blCancelled (wkLeases wk ! wkPos wk) \<Longrightarrow>
    workerStep wk ((cancelLease (wkPos wk) wk)\<lparr>wkPhase := Settling res\<rparr>)"
| settle_failed: "wkPhase wk = Settling res \<Longrightarrow> workerStep wk (settleLease wk)"
| heartbeat: "wkHeartbeat wk = HbWaiting \<Longrightarrow> unsettled wk \<noteq> [] \<Longrightarrow>
    workerStep wk (wk\<lparr>wkHeartbeat := HbRead (unsettled wk)\<rparr>)"
| heartbeat_failed: "wkHeartbeat wk = HbRead pending \<Longrightarrow> workerStep wk (wk\<lparr>wkHeartbeat := HbWaiting\<rparr>)"
| heartbeat_unanswered: "wkHeartbeat wk = HbExtended pending extended \<Longrightarrow> workerStep wk (wk\<lparr>wkHeartbeat := HbWaiting\<rparr>)"
| heartbeat_cancel: "wkHeartbeat wk = HbExtended pending extended \<Longrightarrow>
    workerStep wk ((cancelLost pending extended wk)\<lparr>wkHeartbeat := HbWaiting\<rparr>)"
| batch_done: "wkPhase wk = AtLoop \<Longrightarrow> wkPos wk = length (wkLeases wk) \<Longrightarrow> wkHeartbeat wk = HbWaiting \<Longrightarrow>
    workerStep wk (idleWorker (wkGroup wk))"
| crash: "workerStep wk (idleWorker (wkGroup wk))"

section \<open>The system\<close>

text \<open>\<open>jsTokens\<close> are the tokens generated and \<open>jsIDs\<close> the job ids inserted so far; both come from a
  random generator and are assumed new each time. \<open>jsSettled\<close> are the tokens whose claim was
  settled, \<open>jsSent\<close> the external sends, by job and token.\<close>

record jobSys =
  jsClock :: int
  jsDB :: jobDB
  jsWorkers :: "deliveryWorker list"
  jsTokens :: "string list"
  jsIDs :: "string list"
  jsSettled :: "string list"
  jsSent :: "(string \<times> string) list"

definition setWorker :: "nat \<Rightarrow> deliveryWorker \<Rightarrow> jobSys \<Rightarrow> jobSys" where
  "setWorker w wk s = s\<lparr>jsWorkers := (jsWorkers s)[w := wk]\<rparr>"

definition newJob :: "DeliveryJob \<Rightarrow> bool" where
  "newJob j \<longleftrightarrow> jStatus j = ''pending'' \<and> jAttempts j = 0 \<and> jLeasedUntil j = None \<and> jLeaseToken j = None"

inductive jobStep :: "int \<Rightarrow> nat \<Rightarrow> jobSys \<Rightarrow> jobSys \<Rightarrow> bool" for lease :: int and limit :: nat where
  tick: "0 \<le> d \<Longrightarrow> jobStep lease limit s (s\<lparr>jsClock := jsClock s + d\<rparr>)"
| enqueue: "newJob j \<Longrightarrow> jID j \<notin> set (jsIDs s) \<Longrightarrow>
    jobStep lease limit s (s\<lparr>jsDB := (jsDB s)\<lparr>jdJobs := jdJobs (jsDB s) @ [j]\<rparr>, jsIDs := jID j # jsIDs s\<rparr>)"
| cascade: "jobStep lease limit s
    (s\<lparr>jsDB := (jsDB s)\<lparr>jdJobs := filter (\<lambda>j. jMessageID j \<notin> set gone) (jdJobs (jsDB s))\<rparr>\<rparr>)"
| claim: "w < length (jsWorkers s) \<Longrightarrow> jsWorkers s ! w = idleWorker claimGroup \<Longrightarrow> (\<And>xs. set (tie xs) = set xs) \<Longrightarrow>
    ClaimJobs tie skip fresh (jsClock s) claimGroup lease limit (jsDB s) = Inr (claimed, db') \<Longrightarrow>
    distinct (map (fresh \<circ> jID) claimed) \<Longrightarrow> fresh ` jID ` set claimed \<inter> set (jsTokens s) = {} \<Longrightarrow>
    jobStep lease limit s ((setWorker w ((idleWorker claimGroup)\<lparr>wkLeases := map leaseOf claimed\<rparr>) s)
      \<lparr>jsDB := db', jsTokens := map (fresh \<circ> jID) claimed @ jsTokens s\<rparr>)"
| work: "w < length (jsWorkers s) \<Longrightarrow> workerStep (jsWorkers s ! w) wk \<Longrightarrow> jobStep lease limit s (setWorker w wk s)"
| send: "w < length (jsWorkers s) \<Longrightarrow> wkPhase (jsWorkers s ! w) = Delivering \<Longrightarrow>
    wkPos (jsWorkers s ! w) < length (wkLeases (jsWorkers s ! w)) \<Longrightarrow>
    l = wkLeases (jsWorkers s ! w) ! wkPos (jsWorkers s ! w) \<Longrightarrow>
    jobStep lease limit s (s\<lparr>jsSent := (jID (blJob l), blToken l) # jsSent s\<rparr>)"
| settled: "w < length (jsWorkers s) \<Longrightarrow> wkPhase (jsWorkers s ! w) = Settling res \<Longrightarrow>
    wkPos (jsWorkers s ! w) < length (wkLeases (jsWorkers s ! w)) \<Longrightarrow>
    l = wkLeases (jsWorkers s ! w) ! wkPos (jsWorkers s ! w) \<Longrightarrow>
    settle (jsClock s) (blJob l) (blToken l) res (jsDB s) = Inr db' \<Longrightarrow>
    jobStep lease limit s ((setWorker w (settleLease (jsWorkers s ! w)) s)
      \<lparr>jsDB := db', jsSettled := blToken l # jsSettled s\<rparr>)"
| extended: "w < length (jsWorkers s) \<Longrightarrow> wkHeartbeat (jsWorkers s ! w) = HbRead pending \<Longrightarrow>
    ExtendLeaseBatch (jsClock s) (map (\<lambda>i. blToken (wkLeases (jsWorkers s ! w) ! i)) pending) lease (jsDB s) = (tokens, db') \<Longrightarrow>
    jobStep lease limit s ((setWorker w ((jsWorkers s ! w)\<lparr>wkHeartbeat := HbExtended pending tokens\<rparr>) s)\<lparr>jsDB := db'\<rparr>)"

definition jobStart :: "string list \<Rightarrow> jobSys" where
  "jobStart groups = \<lparr>jsClock = 0, jsDB = \<lparr>jdJobs = [], jdDead = []\<rparr>, jsWorkers = map idleWorker groups, jsTokens = [],
     jsIDs = [], jsSettled = [], jsSent = []\<rparr>"

section \<open>The effect of statements and steps\<close>

lemma intervalLiteral_mono: "a \<le> b \<Longrightarrow> intervalLiteral a \<le> intervalLiteral b"
  by (simp add: intervalLiteral_def zdiv_mono1)

text \<open>What no statement changes of a row.\<close>

definition sameJob :: "DeliveryJob \<Rightarrow> DeliveryJob \<Rightarrow> bool" where
  "sameJob j k \<longleftrightarrow> jID j = jID k \<and> jMessageID j = jMessageID k \<and> jKind j = jKind k \<and> jTarget j = jTarget k \<and>
     jClaimGroup j = jClaimGroup k"

lemma sameJob_refl [simp]: "sameJob j j"
  by (simp add: sameJob_def)

lemma fenced_Inr:
  "fenced i token upd db = Inr db' \<longleftrightarrow> (\<exists>j \<in> set (jdJobs db). holds i token j) \<and>
     db' = db\<lparr>jdJobs := map (\<lambda>j. if holds i token j then upd j else j) (jdJobs db)\<rparr>"
  by (auto simp: fenced_def list_ex_iff)

text \<open>A settled row: the row that \<open>settle\<close> leaves, and the audit row it adds.\<close>

definition settledRow :: "int \<Rightarrow> DeliveryJob \<Rightarrow> deliveryOutcome \<Rightarrow> DeliveryJob \<Rightarrow> DeliveryJob" where
  "settledRow now job res j = (case res of
     Sent \<Rightarrow> j\<lparr>jStatus := ''done'', jLastError := None, jLeaseToken := None\<rparr>
   | Failed e \<Rightarrow>
       if maxAttempts \<le> jAttempts job
       then j\<lparr>jStatus := ''dead'', jLeasedUntil := None, jLeaseToken := None, jLastError := Some e\<rparr>
       else j\<lparr>jStatus := ''pending'', jLeasedUntil := Some (now + intervalLiteral (retryBackoff (jAttempts job))),
              jLeaseToken := None, jLastError := Some e\<rparr>
   | Rejected e \<Rightarrow> j\<lparr>jStatus := ''dead'', jLeasedUntil := None, jLeaseToken := None, jLastError := Some e\<rparr>)"

definition deadRows :: "DeliveryJob \<Rightarrow> deliveryOutcome \<Rightarrow> (string \<times> int \<times> string) list" where
  "deadRows job res = (case res of
     Sent \<Rightarrow> []
   | Failed e \<Rightarrow> if maxAttempts \<le> jAttempts job then [(jID job, jAttempts job, e)] else []
   | Rejected e \<Rightarrow> [(jID job, - 1, e)])"

lemma settle_effect:
  assumes "settle now job token res db = Inr db'"
  shows "(\<exists>j \<in> set (jdJobs db). holds (jID job) token j) \<and>
    jdJobs db' = map (\<lambda>j. if holds (jID job) token j then settledRow now job res j else j) (jdJobs db) \<and>
    jdDead db' = jdDead db @ deadRows job res"
proof (cases res)
  case Sent
  then show ?thesis using assms by (auto simp: settle_def CompleteJob_def fenced_Inr settledRow_def deadRows_def)
next
  case (Failed e)
  then show ?thesis using assms
    by (auto simp: settle_def failJob_def FailJob_def markJobDead_def rbind_Inr_iff fenced_Inr settledRow_def deadRows_def
        split: if_splits)
next
  case (Rejected e)
  then show ?thesis using assms
    by (auto simp: settle_def failJob_def FailJobPermanent_def markJobDead_def rbind_Inr_iff fenced_Inr settledRow_def
        deadRows_def split: if_splits)
qed

lemma settledRow_facts:
  "sameJob (settledRow now job res j) j" "jLeaseToken (settledRow now job res j) = None"
  "jAttempts (settledRow now job res j) = jAttempts j"
  by (cases res; simp add: settledRow_def sameJob_def)+

lemma claimIDs_claimable:
  assumes "\<And>xs. set (tie xs) = set xs" and "i \<in> set (claimIDs tie skip now claimGroup limit jobs)"
  shows "\<exists>j \<in> set jobs. jID j = i \<and> claimable now claimGroup j"
proof -
  have "i \<in> jID ` set (sort_key jCreatedAt (tie (filter (claimable now claimGroup) jobs)))"
    using assms(2) by (auto simp: claimIDs_def dest!: in_set_takeD)
  then show ?thesis using assms(1) by auto
qed

lemma ClaimJobs_effect:
  assumes "ClaimJobs tie skip fresh now claimGroup lease limit db = Inr (claimed, db')"
    and "\<And>xs. set (tie xs) = set xs" and "distinct (map jID (jdJobs db))"
  obtains ids where "claimed = map (claimRow now lease fresh) (filter (\<lambda>j. jID j \<in> set ids) (jdJobs db))"
    and "db' = db\<lparr>jdJobs := map (\<lambda>j. if jID j \<in> set ids then claimRow now lease fresh j else j) (jdJobs db)\<rparr>"
    and "\<And>j. j \<in> set (jdJobs db) \<Longrightarrow> jID j \<in> set ids \<Longrightarrow> claimable now claimGroup j"
proof
  let ?ids = "claimIDs tie skip now claimGroup limit (jdJobs db)"
  show "claimed = map (claimRow now lease fresh) (filter (\<lambda>j. jID j \<in> set ?ids) (jdJobs db))"
    and "db' = db\<lparr>jdJobs := map (\<lambda>j. if jID j \<in> set ?ids then claimRow now lease fresh j else j) (jdJobs db)\<rparr>"
    using assms(1) by (auto simp: ClaimJobs_def Let_def split: if_splits)
  fix j assume j: "j \<in> set (jdJobs db)" "jID j \<in> set ?ids"
  then obtain k where "k \<in> set (jdJobs db)" "jID k = jID j" "claimable now claimGroup k"
    using claimIDs_claimable [OF assms(2)] by blast
  then show "claimable now claimGroup j"
    using assms(3) j(1) by (auto simp: distinct_map dest: inj_onD)
qed

lemma claimRow_facts [simp]:
  "sameJob (claimRow now lease fresh j) j" "jID (claimRow now lease fresh j) = jID j"
  "jStatus (claimRow now lease fresh j) = jStatus j" "jLeaseToken (claimRow now lease fresh j) = Some (fresh (jID j))"
  "jLeasedUntil (claimRow now lease fresh j) = Some (now + intervalLiteral lease)"
  "jAttempts (claimRow now lease fresh j) = jAttempts j + 1"
  by (simp_all add: claimRow_def sameJob_def)

lemma Extend_effect:
  assumes "ExtendLeaseBatch now tokens lease db = (extended, db')"
  shows "jdJobs db' = map (\<lambda>j. if heldBy tokens j then j\<lparr>jLeasedUntil := Some (now + intervalLiteral lease)\<rparr> else j) (jdJobs db) \<and>
    jdDead db' = jdDead db"
proof (cases "tokens = []")
  case True
  then have "\<not> heldBy tokens j" for j by (auto simp: heldBy_def split: option.splits)
  then show ?thesis using assms True by (simp add: ExtendLeaseBatch_def)
next
  case False
  then show ?thesis using assms by (auto simp: ExtendLeaseBatch_def)
qed

text \<open>A worker keeps the jobs and tokens of its batch until it drops the batch.\<close>

definition claims :: "deliveryWorker \<Rightarrow> (DeliveryJob \<times> string) list" where
  "claims wk = map (\<lambda>l. (blJob l, blToken l)) (wkLeases wk)"

lemma claims_update:
  "blJob l' = blJob (wkLeases wk ! i) \<Longrightarrow> blToken l' = blToken (wkLeases wk ! i) \<Longrightarrow>
   claims (wk\<lparr>wkLeases := (wkLeases wk)[i := l']\<rparr>) = claims wk"
  by (cases "i < length (wkLeases wk)") (simp_all add: claims_def map_update list_update_same_conv list_update_beyond)

lemma claims_settleLease [simp]: "claims (settleLease wk) = claims wk"
  using claims_update [of "(wkLeases wk ! wkPos wk)\<lparr>blSettled := True\<rparr>" wk "wkPos wk"]
  by (simp add: settleLease_def claims_def)

lemma claims_cancelLease [simp]: "claims (cancelLease i wk) = claims wk"
  by (simp add: cancelLease_def claims_update)

lemma claims_cancelLost [simp]: "claims (cancelLost pending extended wk) = claims wk"
  unfolding cancelLost_def by (induction pending arbitrary: wk) auto

lemma claims_other [simp]:
  "claims (wk\<lparr>wkPhase := ph\<rparr>) = claims wk" "claims (wk\<lparr>wkHeartbeat := hb\<rparr>) = claims wk" "claims (idleWorker g) = []"
  by (simp_all add: claims_def idleWorker_def)

lemma workerStep_claims: "workerStep wk wk' \<Longrightarrow> claims wk' = claims wk \<or> claims wk' = []"
  by (induction rule: workerStep.induct) simp_all

section \<open>The invariant\<close>

definition tokenOk :: "int \<Rightarrow> string list \<Rightarrow> string list \<Rightarrow> DeliveryJob \<Rightarrow> bool" where
  "tokenOk horizon tokens settled j \<longleftrightarrow> (\<forall>t. jLeaseToken j = Some t \<longrightarrow>
     jStatus j = ''pending'' \<and> t \<in> set tokens \<and> t \<notin> set settled \<and> (\<exists>u. jLeasedUntil j = Some u \<and> u \<le> horizon))"

text \<open>A job is dead exactly when it has an audit row, one, that names its error and either the
  exhausted attempts or the code of a rejected target.\<close>

definition deadOk :: "(string \<times> int \<times> string) list \<Rightarrow> DeliveryJob \<Rightarrow> bool" where
  "deadOk dead j \<longleftrightarrow>
     (if jStatus j = ''dead'' then \<exists>a e. filter (\<lambda>d. fst d = jID j) dead = [(jID j, a, e)] \<and> jLastError j = Some e \<and>
        (a = - 1 \<or> a = jAttempts j \<and> maxAttempts \<le> a)
      else filter (\<lambda>d. fst d = jID j) dead = [])"

definition rowOk :: "int \<Rightarrow> jobSys \<Rightarrow> DeliveryJob \<Rightarrow> bool" where
  "rowOk lease s j \<longleftrightarrow> jID j \<in> set (jsIDs s) \<and> jStatus j \<in> {''pending'', ''done'', ''dead''} \<and> 0 \<le> jAttempts j \<and>
     tokenOk (jsClock s + intervalLiteral lease) (jsTokens s) (jsSettled s) j \<and> deadOk (jdDead (jsDB s)) j"

definition allClaims :: "jobSys \<Rightarrow> (DeliveryJob \<times> string) list" where
  "allClaims s = concat (map claims (jsWorkers s))"

text \<open>A claim is of the job its token is on, with the attempts of the row.\<close>

definition claimOk :: "jobSys \<Rightarrow> DeliveryJob \<times> string \<Rightarrow> bool" where
  "claimOk s c \<longleftrightarrow> jLeaseToken (fst c) = Some (snd c) \<and> snd c \<in> set (jsTokens s) \<and>
     (\<forall>j \<in> set (jdJobs (jsDB s)). jLeaseToken j = Some (snd c) \<longrightarrow> sameJob j (fst c) \<and> jAttempts j = jAttempts (fst c))"

definition tokensUnique :: "DeliveryJob list \<Rightarrow> bool" where
  "tokensUnique jobs \<longleftrightarrow> (\<forall>j \<in> set jobs. \<forall>k \<in> set jobs. jLeaseToken j \<noteq> None \<longrightarrow> jLeaseToken j = jLeaseToken k \<longrightarrow> jID j = jID k)"

definition jobInv :: "int \<Rightarrow> jobSys \<Rightarrow> bool" where
  "jobInv lease s \<longleftrightarrow> distinct (map jID (jdJobs (jsDB s))) \<and> (\<forall>j \<in> set (jdJobs (jsDB s)). rowOk lease s j) \<and>
     tokensUnique (jdJobs (jsDB s)) \<and> (\<forall>c \<in> set (allClaims s). claimOk s c) \<and> distinct (map snd (allClaims s)) \<and>
     distinct (jsSettled s) \<and> set (jsSettled s) \<subseteq> set (jsTokens s) \<and> fst ` set (jdDead (jsDB s)) \<subseteq> set (jsIDs s)"

lemma jobInvD:
  assumes "jobInv lease s"
  shows "distinct (map jID (jdJobs (jsDB s)))" "j \<in> set (jdJobs (jsDB s)) \<Longrightarrow> rowOk lease s j"
    "tokensUnique (jdJobs (jsDB s))" "c \<in> set (allClaims s) \<Longrightarrow> claimOk s c" "distinct (map snd (allClaims s))"
    "distinct (jsSettled s)" "set (jsSettled s) \<subseteq> set (jsTokens s)" "fst ` set (jdDead (jsDB s)) \<subseteq> set (jsIDs s)"
  using assms by (simp_all add: jobInv_def)

lemma same_row:
  "jobInv lease s \<Longrightarrow> j \<in> set (jdJobs (jsDB s)) \<Longrightarrow> k \<in> set (jdJobs (jsDB s)) \<Longrightarrow> jID j = jID k \<Longrightarrow> j = k"
  using jobInvD(1) inj_onD [of jID "set (jdJobs (jsDB s))" j k] by (auto simp: distinct_map)

lemma rowOkD:
  assumes "rowOk lease s j"
  shows "jID j \<in> set (jsIDs s)" "jStatus j \<in> {''pending'', ''done'', ''dead''}" "0 \<le> jAttempts j"
    "tokenOk (jsClock s + intervalLiteral lease) (jsTokens s) (jsSettled s) j" "deadOk (jdDead (jsDB s)) j"
  using assms by (simp_all add: rowOk_def)

lemma tokensUniqueD:
  "tokensUnique jobs \<Longrightarrow> j \<in> set jobs \<Longrightarrow> k \<in> set jobs \<Longrightarrow> jLeaseToken j = Some t \<Longrightarrow> jLeaseToken k = Some t \<Longrightarrow> jID j = jID k"
  unfolding tokensUnique_def by (drule bspec, assumption, drule bspec, assumption) simp

lemma tokensUniqueI:
  assumes "\<And>j k t. j \<in> set jobs \<Longrightarrow> k \<in> set jobs \<Longrightarrow> jLeaseToken j = Some t \<Longrightarrow> jLeaseToken k = Some t \<Longrightarrow> jID j = jID k"
  shows "tokensUnique jobs"
  unfolding tokensUnique_def
proof (intro ballI impI)
  fix j k assume jk: "j \<in> set jobs" "k \<in> set jobs" and n: "jLeaseToken j \<noteq> None" and e: "jLeaseToken j = jLeaseToken k"
  obtain t where "jLeaseToken j = Some t" using n by blast
  then show "jID j = jID k" using assms [OF jk] e by simp
qed

lemma jobInv_start: "jobInv lease (jobStart groups)"
  by (induction groups) (auto simp: jobInv_def jobStart_def tokensUnique_def allClaims_def)

lemma tokenOk_mono:
  "tokenOk h ts st j \<Longrightarrow> h \<le> h' \<Longrightarrow> set ts \<subseteq> set ts' \<Longrightarrow>
   (\<And>t. jLeaseToken j = Some t \<Longrightarrow> t \<notin> set st \<Longrightarrow> t \<notin> set st') \<Longrightarrow> tokenOk h' ts' st' j"
  by (fastforce simp: tokenOk_def)

text \<open>Replacing the claims of one worker.\<close>

lemma allClaims_setWorker:
  assumes "w < length (jsWorkers s)"
  shows "allClaims (setWorker w wk s) = concat (map claims (take w (jsWorkers s))) @ claims wk @
      concat (map claims (drop (Suc w) (jsWorkers s)))"
    and "allClaims s = concat (map claims (take w (jsWorkers s))) @ claims (jsWorkers s ! w) @
      concat (map claims (drop (Suc w) (jsWorkers s)))"
proof -
  show "allClaims (setWorker w wk s) = concat (map claims (take w (jsWorkers s))) @ claims wk @
      concat (map claims (drop (Suc w) (jsWorkers s)))"
    using assms by (simp add: allClaims_def setWorker_def upd_conv_take_nth_drop)
  have "jsWorkers s = take w (jsWorkers s) @ jsWorkers s ! w # drop (Suc w) (jsWorkers s)"
    using assms by (simp add: id_take_nth_drop [symmetric])
  then have "map claims (jsWorkers s) =
      map claims (take w (jsWorkers s)) @ claims (jsWorkers s ! w) # map claims (drop (Suc w) (jsWorkers s))"
    by (metis map_append list.simps(9))
  then show "allClaims s = concat (map claims (take w (jsWorkers s))) @ claims (jsWorkers s ! w) @
      concat (map claims (drop (Suc w) (jsWorkers s)))"
    by (simp add: allClaims_def)
qed

lemma claims_shrink:
  assumes "w < length (jsWorkers s)" and "claims wk = claims (jsWorkers s ! w) \<or> claims wk = []"
    and "distinct (map snd (allClaims s))"
  shows "set (allClaims (setWorker w wk s)) \<subseteq> set (allClaims s)" and "distinct (map snd (allClaims (setWorker w wk s)))"
proof -
  obtain A B where new: "allClaims (setWorker w wk s) = A @ claims wk @ B"
    and old: "allClaims s = A @ claims (jsWorkers s ! w) @ B"
    using allClaims_setWorker [OF assms(1)] by blast
  show "set (allClaims (setWorker w wk s)) \<subseteq> set (allClaims s)" using assms(2) by (auto simp: new old)
  show "distinct (map snd (allClaims (setWorker w wk s)))"
    using assms(2)
  proof
    assume "claims wk = claims (jsWorkers s ! w)"
    then show ?thesis using assms(3) by (simp only: new old)
  next
    assume e: "claims wk = []"
    have "distinct (map snd A @ map snd (claims (jsWorkers s ! w)) @ map snd B)" using assms(3) by (simp add: old)
    then have "distinct (map snd A @ map snd B)" unfolding distinct_append set_append by blast
    then show ?thesis by (simp add: new e)
  qed
qed

lemma setWorker_simps [simp]:
  "jsDB (setWorker w wk s) = jsDB s" "jsClock (setWorker w wk s) = jsClock s" "jsTokens (setWorker w wk s) = jsTokens s"
  "jsIDs (setWorker w wk s) = jsIDs s" "jsSettled (setWorker w wk s) = jsSettled s"
  by (simp_all add: setWorker_def)

lemma allClaims_more [simp]:
  "allClaims (s\<lparr>jsDB := db\<rparr>) = allClaims s" "allClaims (s\<lparr>jsClock := c\<rparr>) = allClaims s"
  "allClaims (s\<lparr>jsTokens := ts\<rparr>) = allClaims s" "allClaims (s\<lparr>jsIDs := is\<rparr>) = allClaims s"
  "allClaims (s\<lparr>jsSettled := st\<rparr>) = allClaims s" "allClaims (s\<lparr>jsSent := sn\<rparr>) = allClaims s"
  by (simp_all add: allClaims_def)

lemma in_allClaims:
  assumes "w < length (jsWorkers s)" and "i < length (wkLeases (jsWorkers s ! w))" and "l = wkLeases (jsWorkers s ! w) ! i"
  shows "(blJob l, blToken l) \<in> set (allClaims s)"
proof -
  have "(blJob l, blToken l) \<in> set (claims (jsWorkers s ! w))"
    using assms(2,3) by (auto simp: claims_def intro!: image_eqI [of _ _ l])
  then show ?thesis using assms(1) by (simp add: allClaims_setWorker(2))
qed

text \<open>Steps that leave the table alone.\<close>

lemma jobInv_same_table:
  assumes inv: "jobInv lease s" and "jsDB t = jsDB s" "jsTokens t = jsTokens s" "jsIDs t = jsIDs s" "jsSettled t = jsSettled s"
    and clock: "jsClock s \<le> jsClock t" and claims: "set (allClaims t) \<subseteq> set (allClaims s)" "distinct (map snd (allClaims t))"
  shows "jobInv lease t"
proof -
  have "rowOk lease t j" if "rowOk lease s j" for j
    using rowOkD [OF that] assms(2-5) clock tokenOk_mono [OF rowOkD(4) [OF that], of "jsClock t + intervalLiteral lease"]
    by (simp add: rowOk_def)
  moreover have "claimOk t c" if "claimOk s c" for c using that assms(2-5) by (simp add: claimOk_def)
  ultimately show ?thesis using jobInvD [OF inv] assms(2-5) claims by (auto simp: jobInv_def subset_iff)
qed

text \<open>Statements that rewrite rows: the invariant needs only facts about single rows.\<close>

lemma jobInv_map_table:
  assumes inv: "jobInv lease s"
    and jobs: "jdJobs (jsDB t) = map f (jdJobs (jsDB s))" and same: "\<And>j. jID (f j) = jID j"
    and row: "\<And>j. j \<in> set (jdJobs (jsDB s)) \<Longrightarrow> rowOk lease t (f j)"
    and tok: "tokensUnique (map f (jdJobs (jsDB s)))"
    and claim: "\<And>c. c \<in> set (allClaims t) \<Longrightarrow> claimOk t c" and "distinct (map snd (allClaims t))"
    and "distinct (jsSettled t)" "set (jsSettled t) \<subseteq> set (jsTokens t)" "fst ` set (jdDead (jsDB t)) \<subseteq> set (jsIDs t)"
  shows "jobInv lease t"
proof -
  have "map jID (jdJobs (jsDB t)) = map jID (jdJobs (jsDB s))" by (simp add: jobs same comp_def)
  then have "distinct (map jID (jdJobs (jsDB t)))" using jobInvD(1) [OF inv] by simp
  moreover have "\<forall>j \<in> set (jdJobs (jsDB t)). rowOk lease t j" using row by (simp add: jobs)
  ultimately show ?thesis unfolding jobInv_def using tok claim assms(7-10) by (simp add: jobs)
qed

text \<open>A rewrite that keeps or clears tokens.\<close>

definition keepsClaims :: "(DeliveryJob \<Rightarrow> DeliveryJob) \<Rightarrow> bool" where
  "keepsClaims f \<longleftrightarrow> (\<forall>j. sameJob (f j) j \<and> jAttempts (f j) = jAttempts j \<and> (jLeaseToken (f j) = None \<or> jLeaseToken (f j) = jLeaseToken j))"

lemma keepsClaimsD:
  assumes "keepsClaims f"
  shows "sameJob (f j) j" "jID (f j) = jID j" "jAttempts (f j) = jAttempts j"
    "jLeaseToken (f j) = Some t \<Longrightarrow> jLeaseToken j = Some t"
proof -
  have f: "sameJob (f j) j \<and> jAttempts (f j) = jAttempts j \<and> (jLeaseToken (f j) = None \<or> jLeaseToken (f j) = jLeaseToken j)"
    using assms by (simp add: keepsClaims_def)
  then show "sameJob (f j) j" "jAttempts (f j) = jAttempts j" by simp_all
  show "jID (f j) = jID j" using f by (simp add: sameJob_def)
  show "jLeaseToken (f j) = Some t \<Longrightarrow> jLeaseToken j = Some t" using f by auto
qed

lemma sameJob_trans: "sameJob a b \<Longrightarrow> sameJob b c \<Longrightarrow> sameJob a c"
  by (simp add: sameJob_def)

lemma keepsClaims_unique:
  assumes "keepsClaims f" and "tokensUnique jobs"
  shows "tokensUnique (map f jobs)"
proof (rule tokensUniqueI)
  fix x y t assume "x \<in> set (map f jobs)" "y \<in> set (map f jobs)" and t: "jLeaseToken x = Some t" "jLeaseToken y = Some t"
  then obtain j k where jk: "j \<in> set jobs" "k \<in> set jobs" "x = f j" "y = f k" by auto
  then have "jLeaseToken j = Some t" "jLeaseToken k = Some t" using t keepsClaimsD(4) [OF assms(1)] by blast+
  then have "jID j = jID k" by (rule tokensUniqueD [OF assms(2) jk(1,2)])
  then show "jID x = jID y" by (simp add: jk keepsClaimsD(2) [OF assms(1)])
qed

lemma keepsClaims_claimOk:
  assumes "keepsClaims f" and "claimOk s c" and "jdJobs (jsDB t) = map f (jdJobs (jsDB s))" and "jsTokens t = jsTokens s"
  shows "claimOk t c"
proof -
  have "sameJob (f j) (fst c) \<and> jAttempts (f j) = jAttempts (fst c)"
    if "j \<in> set (jdJobs (jsDB s))" "jLeaseToken (f j) = Some (snd c)" for j
  proof -
    have "jLeaseToken j = Some (snd c)" by (rule keepsClaimsD(4) [OF assms(1) that(2)])
    then have "sameJob j (fst c)" and "jAttempts j = jAttempts (fst c)" using assms(2) that(1) by (simp_all add: claimOk_def)
    then show ?thesis using sameJob_trans [OF keepsClaimsD(1) [OF assms(1)]] keepsClaimsD(3) [OF assms(1)] by simp
  qed
  then show ?thesis using assms(2,3,4) by (simp add: claimOk_def)
qed

lemma deadOk_cong:
  "deadOk dead j \<Longrightarrow> jID k = jID j \<Longrightarrow> jStatus k = jStatus j \<Longrightarrow> jLastError k = jLastError j \<Longrightarrow>
   jStatus j \<noteq> ''dead'' \<or> jAttempts k = jAttempts j \<Longrightarrow> deadOk dead k"
  by (auto simp: deadOk_def split: if_splits)

lemma pending_not_dead: "jStatus j = ''pending'' \<Longrightarrow> jStatus j \<noteq> ''dead''"
  by simp

lemma inv_extended:
  assumes inv: "jobInv lease s" and ext: "ExtendLeaseBatch (jsClock s) tokens lease (jsDB s) = (extended, db')"
    and t: "jsDB t = db'" "jsTokens t = jsTokens s" "jsIDs t = jsIDs s" "jsSettled t = jsSettled s" "jsClock t = jsClock s"
    and claims: "allClaims t = allClaims s"
  shows "jobInv lease t"
proof -
  let ?f = "\<lambda>j. if heldBy tokens j then j\<lparr>jLeasedUntil := Some (jsClock s + intervalLiteral lease)\<rparr> else j"
  have jobs: "jdJobs (jsDB t) = map ?f (jdJobs (jsDB s))" and dead: "jdDead db' = jdDead (jsDB s)"
    using Extend_effect [OF ext] by (simp_all add: t)
  have keeps: "keepsClaims ?f" by (simp add: keepsClaims_def sameJob_def)
  show ?thesis
  proof (rule jobInv_map_table [OF inv jobs])
    show "jID (?f j) = jID j" for j by simp
    show "rowOk lease t (?f j)" if "j \<in> set (jdJobs (jsDB s))" for j
    proof -
      note r = rowOkD [OF jobInvD(2) [OF inv that]]
      have "deadOk (jdDead (jsDB s)) (?f j)" using r(5) by (rule deadOk_cong) simp_all
      moreover have "tokenOk (jsClock s + intervalLiteral lease) (jsTokens s) (jsSettled s) (?f j)"
        using r(4) by (auto simp: tokenOk_def)
      ultimately show ?thesis using r(1-3) by (simp add: rowOk_def t dead)
    qed
    show "tokensUnique (map ?f (jdJobs (jsDB s)))" by (rule keepsClaims_unique [OF keeps jobInvD(3) [OF inv]])
    show "claimOk t c" if "c \<in> set (allClaims t)" for c
      using that by (intro keepsClaims_claimOk [OF keeps jobInvD(4) [OF inv] jobs t(2)]) (simp add: claims)
  qed (use jobInvD(5-8) [OF inv] in \<open>simp_all add: claims t dead\<close>)
qed

lemma deadOk_other:
  "deadOk dead j \<Longrightarrow> list_all (\<lambda>d. fst d \<noteq> jID j) extra \<Longrightarrow> deadOk (dead @ extra) j"
  by (induction extra) (auto simp: deadOk_def filter_empty_conv list_all_iff split: if_splits)

lemma deadOk_settled:
  assumes "deadOk dead j" and "jStatus j = ''pending''" and "jID job = jID j" and "jAttempts job = jAttempts j"
  shows "deadOk (dead @ deadRows job res) (settledRow now job res j)"
  using assms by (cases res) (auto simp: deadOk_def settledRow_def deadRows_def)

lemma inv_settled:
  assumes inv: "jobInv lease s" and c: "(job, token) \<in> set (allClaims s)"
    and set: "settle (jsClock s) job token res (jsDB s) = Inr db'"
    and t: "jsDB t = db'" "jsTokens t = jsTokens s" "jsIDs t = jsIDs s" "jsSettled t = token # jsSettled s" "jsClock t = jsClock s"
    and claims: "set (allClaims t) \<subseteq> set (allClaims s)" "distinct (map snd (allClaims t))"
  shows "jobInv lease t"
proof -
  let ?f = "\<lambda>j. if holds (jID job) token j then settledRow (jsClock s) job res j else j"
  have ex: "\<exists>j \<in> set (jdJobs (jsDB s)). holds (jID job) token j"
    and jobs: "jdJobs (jsDB t) = map ?f (jdJobs (jsDB s))" and dead: "jdDead db' = jdDead (jsDB s) @ deadRows job res"
    using settle_effect [OF set] by (simp_all add: t)
  have cl: "claimOk s (job, token)" by (rule jobInvD(4) [OF inv c])
  have keeps: "keepsClaims ?f" by (simp add: keepsClaims_def settledRow_facts)
  obtain j0 where j0: "j0 \<in> set (jdJobs (jsDB s))" "jID j0 = jID job" "jLeaseToken j0 = Some token"
    using ex by (auto simp: holds_def)
  note r0 = rowOkD [OF jobInvD(2) [OF inv j0(1)]]
  have tok: "token \<notin> set (jsSettled s)" "token \<in> set (jsTokens s)" using r0(4) j0(3) by (auto simp: tokenOk_def)
  have extra: "list_all (\<lambda>d. fst d = jID job) (deadRows job res)" by (cases res) (simp_all add: deadRows_def)
  show ?thesis
  proof (rule jobInv_map_table [OF inv jobs])
    show "jID (?f j) = jID j" for j by (rule keepsClaimsD(2) [OF keeps])
    show "rowOk lease t (?f j)" if j: "j \<in> set (jdJobs (jsDB s))" for j
    proof -
      note r = rowOkD [OF jobInvD(2) [OF inv j]]
      show ?thesis
      proof (cases "holds (jID job) token j")
        case True
        then have h: "jID j = jID job" "jLeaseToken j = Some token" by (simp_all add: holds_def)
        then have "jStatus j = ''pending''" "jAttempts j = jAttempts job"
          using r(4) cl j by (auto simp: tokenOk_def claimOk_def)
        then have d: "deadOk (jdDead db') (settledRow (jsClock s) job res j)"
          unfolding dead using deadOk_settled [OF r(5)] h(1) by simp
        have "jStatus (settledRow (jsClock s) job res j) \<in> {''pending'', ''done'', ''dead''}"
          by (cases res) (simp_all add: settledRow_def)
        moreover have "jID (settledRow (jsClock s) job res j) = jID j"
          using settledRow_facts(1) [of "jsClock s" job res j] by (simp add: sameJob_def)
        ultimately show ?thesis using True d r(1,3) by (simp add: rowOk_def t tokenOk_def settledRow_facts)
      next
        case False
        have "jID j \<noteq> jID job"
        proof
          assume e: "jID j = jID job"
          then have "j = j0" using same_row [OF inv j j0(1)] j0(2) by simp
          then show False using False e j0(3) by (simp add: holds_def)
        qed
        then have d: "deadOk (jdDead db') j" unfolding dead using extra by (intro deadOk_other [OF r(5)]) (auto simp: list_all_iff)
        have "jLeaseToken j \<noteq> Some token"
        proof
          assume "jLeaseToken j = Some token"
          then have "jID j = jID j0" using j0(3) by (rule tokensUniqueD [OF jobInvD(3) [OF inv] j j0(1)])
          then show False using \<open>jID j \<noteq> jID job\<close> j0(2) by simp
        qed
        then have "tokenOk (jsClock s + intervalLiteral lease) (jsTokens s) (token # jsSettled s) j"
          using r(4) by (auto simp: tokenOk_def)
        then show ?thesis using False d r(1-3) by (simp add: rowOk_def t)
      qed
    qed
    show "tokensUnique (map ?f (jdJobs (jsDB s)))" by (rule keepsClaims_unique [OF keeps jobInvD(3) [OF inv]])
    show "claimOk t c" if "c \<in> set (allClaims t)" for c
      by (rule keepsClaims_claimOk [OF keeps jobInvD(4) [OF inv] jobs t(2)]) (use claims(1) that in blast)
    show "distinct (map snd (allClaims t))" by (rule claims(2))
    show "distinct (jsSettled t)" "set (jsSettled t) \<subseteq> set (jsTokens t)"
      using jobInvD(6,7) [OF inv] tok by (simp_all add: t)
    show "fst ` set (jdDead (jsDB t)) \<subseteq> set (jsIDs t)"
      using jobInvD(8) [OF inv] extra r0(1) j0(2) by (auto simp: t dead list_all_iff)
  qed
qed

lemma inv_enqueue:
  assumes inv: "jobInv lease s" and new: "newJob j" "jID j \<notin> set (jsIDs s)"
  shows "jobInv lease (s\<lparr>jsDB := (jsDB s)\<lparr>jdJobs := jdJobs (jsDB s) @ [j]\<rparr>, jsIDs := jID j # jsIDs s\<rparr>)" (is "jobInv lease ?t")
proof -
  have ids: "jID k \<in> set (jsIDs s)" if "k \<in> set (jdJobs (jsDB s))" for k using rowOkD(1) [OF jobInvD(2) [OF inv that]] .
  have n: "jLeaseToken j = None" "jStatus j = ''pending''" "jAttempts j = 0" using new(1) by (simp_all add: newJob_def)
  have "filter (\<lambda>d. fst d = jID j) (jdDead (jsDB s)) = []"
    using jobInvD(8) [OF inv] new(2) by (auto simp: filter_empty_conv)
  then have "rowOk lease ?t j" using n by (simp add: rowOk_def tokenOk_def deadOk_def)
  moreover have "rowOk lease ?t k" if "k \<in> set (jdJobs (jsDB s))" for k
    using jobInvD(2) [OF inv that] by (simp add: rowOk_def)
  moreover have "tokensUnique (jdJobs (jsDB s) @ [j])"
  proof (rule tokensUniqueI)
    fix x y t assume x: "x \<in> set (jdJobs (jsDB s) @ [j])" "y \<in> set (jdJobs (jsDB s) @ [j])"
      and t: "jLeaseToken x = Some t" "jLeaseToken y = Some t"
    then have "x \<in> set (jdJobs (jsDB s))" "y \<in> set (jdJobs (jsDB s))" using n(1) by auto
    then show "jID x = jID y" using t by (rule tokensUniqueD [OF jobInvD(3) [OF inv]])
  qed
  moreover have "claimOk ?t c" if "c \<in> set (allClaims s)" for c
    using jobInvD(4) [OF inv that] n(1) by (auto simp: claimOk_def)
  moreover have "jID j \<notin> jID ` set (jdJobs (jsDB s))" using ids new(2) by auto
  ultimately show ?thesis unfolding jobInv_def using jobInvD(1,5,6,7,8) [OF inv] by (auto simp: subset_iff)
qed

lemma inv_cascade:
  assumes inv: "jobInv lease s"
  shows "jobInv lease (s\<lparr>jsDB := (jsDB s)\<lparr>jdJobs := filter P (jdJobs (jsDB s))\<rparr>\<rparr>)" (is "jobInv lease ?t")
proof -
  have "rowOk lease ?t k" if "k \<in> set (jdJobs (jsDB s))" for k
    using jobInvD(2) [OF inv that] by (simp add: rowOk_def)
  moreover have "tokensUnique (filter P (jdJobs (jsDB s)))"
    by (rule tokensUniqueI) (auto intro: tokensUniqueD [OF jobInvD(3) [OF inv]])
  moreover have "claimOk ?t c" if "c \<in> set (allClaims s)" for c
    using jobInvD(4) [OF inv that] by (simp add: claimOk_def)
  ultimately show ?thesis unfolding jobInv_def using jobInvD(1,5,6,7,8) [OF inv] by (simp add: distinct_map_filter)
qed

lemma claims_leaseOf:
  "claims (wk\<lparr>wkLeases := map leaseOf (map (claimRow now lease fresh) rows)\<rparr>) =
   map (\<lambda>j. (claimRow now lease fresh j, fresh (jID j))) rows"
  by (simp add: claims_def leaseOf_def comp_def)

lemma claimOkI:
  assumes "jLeaseToken (fst c) = Some (snd c)" and "snd c \<in> set (jsTokens t)" and "jdJobs (jsDB t) = map f jobs"
    and "\<And>j. j \<in> set jobs \<Longrightarrow> jLeaseToken (f j) = Some (snd c) \<Longrightarrow> sameJob (f j) (fst c) \<and> jAttempts (f j) = jAttempts (fst c)"
  shows "claimOk t c"
  using assms by (simp add: claimOk_def)

lemma inv_claim:
  assumes inv: "jobInv lease s" and w: "w < length (jsWorkers s)" "jsWorkers s ! w = idleWorker claimGroup"
    and tie: "\<And>xs. set (tie xs) = set xs"
    and cj: "ClaimJobs tie skip fresh (jsClock s) claimGroup lease limit (jsDB s) = Inr (claimed, db')"
    and fr: "distinct (map (fresh \<circ> jID) claimed)" "fresh ` jID ` set claimed \<inter> set (jsTokens s) = {}"
    and t: "t = (setWorker w ((idleWorker claimGroup)\<lparr>wkLeases := map leaseOf claimed\<rparr>) s)
      \<lparr>jsDB := db', jsTokens := map (fresh \<circ> jID) claimed @ jsTokens s\<rparr>"
  shows "jobInv lease t"
proof -
  obtain ids where claimed: "claimed = map (claimRow (jsClock s) lease fresh) (filter (\<lambda>j. jID j \<in> set ids) (jdJobs (jsDB s)))"
    and db': "db' = (jsDB s)\<lparr>jdJobs := map (\<lambda>j. if jID j \<in> set ids then claimRow (jsClock s) lease fresh j else j) (jdJobs (jsDB s))\<rparr>"
    and cl: "\<And>j. j \<in> set (jdJobs (jsDB s)) \<Longrightarrow> jID j \<in> set ids \<Longrightarrow> claimable (jsClock s) claimGroup j"
    using ClaimJobs_effect [OF cj tie jobInvD(1) [OF inv]] by blast
  let ?f = "\<lambda>j. if jID j \<in> set ids then claimRow (jsClock s) lease fresh j else j"
  let ?rows = "filter (\<lambda>j. jID j \<in> set ids) (jdJobs (jsDB s))"
  have jobs: "jdJobs (jsDB t) = map ?f (jdJobs (jsDB s))" and dead: "jdDead (jsDB t) = jdDead (jsDB s)" by (simp_all add: t db')
  have toks: "jsTokens t = map (\<lambda>j. fresh (jID j)) ?rows @ jsTokens s" by (simp add: t claimed comp_def)
  have rest: "jsIDs t = jsIDs s" "jsSettled t = jsSettled s" "jsClock t = jsClock s" by (simp_all add: t)
  have old: "fresh (jID j) \<notin> set (jsTokens s)" if "j \<in> set ?rows" for j
  proof -
    have "claimRow (jsClock s) lease fresh j \<in> set claimed" using that by (simp add: claimed)
    then have "fresh (jID j) \<in> fresh ` jID ` set claimed" using claimRow_facts(2) by (metis imageI)
    then show ?thesis using fr(2) by blast
  qed
  have inj: "distinct (map (\<lambda>j. fresh (jID j)) ?rows)" using fr(1) by (simp add: claimed comp_def)
  have rowTok: "k \<in> set (jdJobs (jsDB s)) \<Longrightarrow> jLeaseToken k = Some u \<Longrightarrow> u \<in> set (jsTokens s)" for k u
    using rowOkD(4) [OF jobInvD(2) [OF inv]] by (auto simp: tokenOk_def)
  obtain A B where new: "allClaims t = A @ map (\<lambda>j. (claimRow (jsClock s) lease fresh j, fresh (jID j))) ?rows @ B"
    and was: "allClaims s = A @ B"
    using allClaims_setWorker [OF w(1)] by (simp add: t w(2) claimed claims_leaseOf del: map_map)
  show ?thesis
  proof (rule jobInv_map_table [OF inv jobs])
    show "jID (?f j) = jID j" for j by simp
    show "rowOk lease t (?f j)" if j: "j \<in> set (jdJobs (jsDB s))" for j
    proof -
      note r = rowOkD [OF jobInvD(2) [OF inv j]]
      show ?thesis
      proof (cases "jID j \<in> set ids")
        case True
        then have p: "jStatus j = ''pending''" using cl [OF j] by (simp add: claimable_def)
        have "fresh (jID j) \<notin> set (jsSettled s)" using old [of j] j True jobInvD(7) [OF inv] by auto
        then have "tokenOk (jsClock s + intervalLiteral lease) (jsTokens t) (jsSettled s) (claimRow (jsClock s) lease fresh j)"
          using p j True by (auto simp: tokenOk_def toks)
        moreover have "deadOk (jdDead (jsDB s)) (claimRow (jsClock s) lease fresh j)"
          using r(5) p by (simp add: deadOk_def)
        ultimately show ?thesis using True r(1-3) by (simp add: rowOk_def rest dead)
      next
        case False
        then show ?thesis using r tokenOk_mono [OF r(4), of _ "jsTokens t" "jsSettled s"] by (simp add: rowOk_def rest dead toks)
      qed
    qed
    show "tokensUnique (map ?f (jdJobs (jsDB s)))"
    proof (rule tokensUniqueI)
      fix x y u assume "x \<in> set (map ?f (jdJobs (jsDB s)))" "y \<in> set (map ?f (jdJobs (jsDB s)))"
        and u: "jLeaseToken x = Some u" "jLeaseToken y = Some u"
      then obtain j k where j: "j \<in> set (jdJobs (jsDB s))" "x = ?f j" and k: "k \<in> set (jdJobs (jsDB s))" "y = ?f k" by auto
      consider "jID j \<in> set ids" "jID k \<in> set ids" | "jID j \<in> set ids" "jID k \<notin> set ids"
        | "jID j \<notin> set ids" "jID k \<in> set ids" | "jID j \<notin> set ids" "jID k \<notin> set ids" by blast
      then show "jID x = jID y"
      proof cases
        case 1
        then have "fresh (jID j) = fresh (jID k)" using u j k by simp
        moreover have "inj_on (\<lambda>j. fresh (jID j)) (set ?rows)" using inj by (simp add: distinct_map)
        ultimately have "j = k" using 1 j(1) k(1) by (auto dest: inj_onD)
        then show ?thesis using j k by simp
      next
        case 2
        then show ?thesis using old [of j] rowTok [OF k(1), of u] u j k by simp
      next
        case 3
        then show ?thesis using old [of k] rowTok [OF j(1), of u] u j k by simp
      next
        case 4
        then show ?thesis using tokensUniqueD [OF jobInvD(3) [OF inv] j(1) k(1)] u j k by simp
      qed
    qed
    show "claimOk t c" if c: "c \<in> set (allClaims t)" for c
    proof (cases "c \<in> set (allClaims s)")
      case True
      note o = jobInvD(4) [OF inv True]
      then have tk: "snd c \<in> set (jsTokens s)" by (simp add: claimOk_def)
      have "sameJob (?f j) (fst c) \<and> jAttempts (?f j) = jAttempts (fst c)"
        if "j \<in> set (jdJobs (jsDB s))" "jLeaseToken (?f j) = Some (snd c)" for j
        using that o old [of j] tk by (cases "jID j \<in> set ids") (auto simp: claimOk_def)
      moreover have "snd c \<in> set (jsTokens t)" using tk by (simp add: toks)
      moreover have "jLeaseToken (fst c) = Some (snd c)" using o by (simp add: claimOk_def)
      ultimately show ?thesis by (intro claimOkI [OF _ _ jobs])
    next
      case False
      then obtain j where j: "j \<in> set ?rows" "c = (claimRow (jsClock s) lease fresh j, fresh (jID j))"
        using c by (auto simp: new was)
      have "sameJob (?f k) (fst c) \<and> jAttempts (?f k) = jAttempts (fst c)"
        if k: "k \<in> set (jdJobs (jsDB s))" "jLeaseToken (?f k) = Some (snd c)" for k
      proof (cases "jID k \<in> set ids")
        case True
        then have "fresh (jID k) = fresh (jID j)" using k j by simp
        moreover have "inj_on (\<lambda>j. fresh (jID j)) (set ?rows)" using inj by (simp add: distinct_map)
        ultimately have "k = j" using True j(1) k(1) by (auto dest: inj_onD)
        then show ?thesis using True j by simp
      next
        case False
        then show ?thesis using k old [OF j(1)] rowTok [OF k(1)] j by simp
      qed
      moreover have "snd c \<in> set (jsTokens t)" using j by (simp add: toks)
      ultimately show ?thesis using j(2) by (intro claimOkI [OF _ _ jobs]) simp_all
    qed
    show "distinct (map snd (allClaims t))"
    proof -
      have "distinct (map snd A @ map snd B)" using jobInvD(5) [OF inv] by (simp add: was)
      moreover have "snd c \<in> set (jsTokens s)" if "c \<in> set A \<union> set B" for c
        using jobInvD(4) [OF inv, of c] that by (simp add: was claimOk_def)
      then have "set (map (\<lambda>j. fresh (jID j)) ?rows) \<inter> (set (map snd A) \<union> set (map snd B)) = {}"
        using old by fastforce
      ultimately have "distinct (map snd A @ map (\<lambda>j. fresh (jID j)) ?rows @ map snd B)"
        using inj unfolding distinct_append set_append by blast
      then show ?thesis by (simp add: new comp_def)
    qed
    show "distinct (jsSettled t)" "set (jsSettled t) \<subseteq> set (jsTokens t)" "fst ` set (jdDead (jsDB t)) \<subseteq> set (jsIDs t)"
      using jobInvD(6-8) [OF inv] by (auto simp: rest toks dead)
  qed
qed

lemma jobInv_step:
  assumes inv: "jobInv lease s" and step: "jobStep lease limit s t"
  shows "jobInv lease t"
  using step
proof (cases (no_simp))
  case tick0: (tick d s')
  note tick = tick0(2-) [folded tick0(1)]
  show ?thesis by (rule jobInv_same_table [OF inv]) (use jobInvD(5) [OF inv] tick in simp_all)
next
  case enqueue0: (enqueue j s')
  note enqueue = enqueue0(2-) [folded enqueue0(1)]
  from enqueue show ?thesis using inv_enqueue [OF inv] by simp
next
  case cascade0: (cascade s' gone)
  note cascade = cascade0(2-) [folded cascade0(1)]
  from cascade show ?thesis using inv_cascade [OF inv] by simp
next
  case claim0: (claim w s' claimGroup tie skip fresh claimed db')
  note claim = claim0(2-) [folded claim0(1)]
  from claim show ?thesis using inv_claim [OF inv claim(2-7) claim(1)] by simp
next
  case work0: (work w s' wk)
  note work = work0(2-) [folded work0(1)]
  have c: "claims wk = claims (jsWorkers s ! w) \<or> claims wk = []" using work(3) by (rule workerStep_claims)
  show ?thesis
    by (rule jobInv_same_table [OF inv]) (use claims_shrink [OF work(2) c jobInvD(5) [OF inv]] work in simp_all)
next
  case send0: (send w s' l)
  note send = send0(2-) [folded send0(1)]
  show ?thesis by (rule jobInv_same_table [OF inv]) (use jobInvD(5) [OF inv] send in simp_all)
next
  case settled0: (settled w s' res l db')
  note settled = settled0(2-) [folded settled0(1)]
  have "claims (settleLease (jsWorkers s ! w)) = claims (jsWorkers s ! w) \<or> claims (settleLease (jsWorkers s ! w)) = []"
    by simp
  note c = claims_shrink [OF settled(2) this jobInvD(5) [OF inv]]
  show ?thesis
    by (rule inv_settled [OF inv in_allClaims [OF settled(2,4,5)] settled(6)]) (use c settled(1) in simp_all)
next
  case extended0: (extended w s' pending tokens db')
  note extended = extended0(2-) [folded extended0(1)]
  have c: "allClaims (setWorker w ((jsWorkers s ! w)\<lparr>wkHeartbeat := HbExtended pending tokens\<rparr>) s) = allClaims s"
    using allClaims_setWorker [OF extended(2)] by simp
  show ?thesis by (rule inv_extended [OF inv extended(4)]) (use c extended(1) in simp_all)
qed

interpretation job_system: invariant_system "jobStep lease limit" "jobStart groups" "jobInv lease"
  by unfold_locales (auto intro: jobInv_start jobInv_step)

section \<open>Along a run\<close>

text \<open>What a single step does to a row that exists before and after.\<close>

inductive rowChange :: "int \<Rightarrow> int \<Rightarrow> string list \<Rightarrow> DeliveryJob \<Rightarrow> DeliveryJob \<Rightarrow> bool" for lease now settledTokens where
  kept_row: "rowChange lease now settledTokens j j"
| claimed_row: "jStatus j = ''pending'' \<Longrightarrow> (\<And>u. jLeasedUntil j = Some u \<Longrightarrow> u < now) \<Longrightarrow>
    rowChange lease now settledTokens j (claimRow now lease fresh j)"
| settled_row: "jLeaseToken j = Some token \<Longrightarrow> token \<in> set settledTokens \<Longrightarrow> jAttempts job = jAttempts j \<Longrightarrow>
    rowChange lease now settledTokens j (settledRow now job res j)"
| extended_row: "jLeaseToken j \<noteq> None \<Longrightarrow>
    rowChange lease now settledTokens j (j\<lparr>jLeasedUntil := Some (now + intervalLiteral lease)\<rparr>)"

lemma jobStep_rows:
  assumes inv: "jobInv lease s" and step: "jobStep lease limit s t" and j: "j \<in> set (jdJobs (jsDB s))"
    and k: "k \<in> set (jdJobs (jsDB t))" and same: "jID k = jID j"
  shows "rowChange lease (jsClock s) (jsSettled t) j k"
proof -
  have old: "rowChange lease (jsClock s) (jsSettled t) j k" if "k \<in> set (jdJobs (jsDB s))"
    using same_row [OF inv that j same] by (simp add: kept_row)
  show ?thesis
    using step
  proof (cases (no_simp))
    case (tick d s')
    then show ?thesis using k by (intro old) simp
  next
    case (enqueue x s')
    then have new: "jID x \<notin> set (jsIDs s)" and t: "jdJobs (jsDB t) = jdJobs (jsDB s) @ [x]" by simp_all
    have "k \<noteq> x" using new same rowOkD(1) [OF jobInvD(2) [OF inv j]] by metis
    then show ?thesis using k by (intro old) (simp add: t)
  next
    case (cascade s' gone)
    then show ?thesis using k by (intro old) simp
  next
    case claim0: (claim w s' claimGroup tie skip fresh claimed db')
    note claim = claim0(2-) [folded claim0(1)]
    obtain ids where "claimed = map (claimRow (jsClock s) lease fresh) (filter (\<lambda>j. jID j \<in> set ids) (jdJobs (jsDB s)))"
      and db': "db' = (jsDB s)\<lparr>jdJobs := map (\<lambda>j. if jID j \<in> set ids then claimRow (jsClock s) lease fresh j else j) (jdJobs (jsDB s))\<rparr>"
      and cl: "\<And>j. j \<in> set (jdJobs (jsDB s)) \<Longrightarrow> jID j \<in> set ids \<Longrightarrow> claimable (jsClock s) claimGroup j"
      using ClaimJobs_effect [OF claim(5) claim(4) jobInvD(1) [OF inv]] by blast
    have "jdJobs (jsDB t) = map (\<lambda>j. if jID j \<in> set ids then claimRow (jsClock s) lease fresh j else j) (jdJobs (jsDB s))"
      by (simp add: claim(1) db')
    then obtain i where i: "i \<in> set (jdJobs (jsDB s))" "k = (if jID i \<in> set ids then claimRow (jsClock s) lease fresh i else i)"
      using k by auto
    have "jID k = jID i" by (simp add: i(2))
    then have ij: "i = j" using same by (intro same_row [OF inv i(1) j]) simp
    show ?thesis
    proof (cases "jID j \<in> set ids")
      case True
      note c = cl [OF j True]
      then have "jStatus j = ''pending''" by (simp add: claimable_def)
      moreover have "u < jsClock s" if "jLeasedUntil j = Some u" for u using c that by (simp add: claimable_def)
      ultimately show ?thesis using True by (simp add: i(2) ij claimed_row)
    next
      case False
      then show ?thesis by (simp add: i(2) ij kept_row)
    qed
  next
    case (work w s' wk)
    then show ?thesis using k by (intro old) simp
  next
    case (send w s' l)
    then show ?thesis using k by (intro old) simp
  next
    case settled0: (settled w s' res l db')
    note settled = settled0(2-) [folded settled0(1)]
    have c: "claimOk s (blJob l, blToken l)" by (rule jobInvD(4) [OF inv in_allClaims [OF settled(2,4,5)]])
    have "jdJobs (jsDB t) = map (\<lambda>j. if holds (jID (blJob l)) (blToken l) j then settledRow (jsClock s) (blJob l) res j else j) (jdJobs (jsDB s))"
      using settle_effect [OF settled(6)] by (simp add: settled(1))
    then obtain i where i: "i \<in> set (jdJobs (jsDB s))"
      "k = (if holds (jID (blJob l)) (blToken l) i then settledRow (jsClock s) (blJob l) res i else i)"
      using k by auto
    have "jID k = jID i" using settledRow_facts(1) [of "jsClock s" "blJob l" res i] by (simp add: i(2) sameJob_def)
    then have ij: "i = j" using same by (intro same_row [OF inv i(1) j]) simp
    show ?thesis
    proof (cases "holds (jID (blJob l)) (blToken l) j")
      case True
      then have tk: "jLeaseToken j = Some (blToken l)" by (simp add: holds_def)
      moreover have "jAttempts (blJob l) = jAttempts j" using c j tk by (simp add: claimOk_def)
      moreover have "blToken l \<in> set (jsSettled t)" by (simp add: settled(1))
      ultimately show ?thesis using True by (simp add: i(2) ij settled_row)
    next
      case False
      then show ?thesis by (simp add: i(2) ij kept_row)
    qed
  next
    case extended0: (extended w s' pending tokens db')
    note extended = extended0(2-) [folded extended0(1)]
    let ?h = "heldBy (map (\<lambda>i. blToken (wkLeases (jsWorkers s ! w) ! i)) pending)"
    have "jdJobs (jsDB t) = map (\<lambda>j. if ?h j then j\<lparr>jLeasedUntil := Some (jsClock s + intervalLiteral lease)\<rparr> else j) (jdJobs (jsDB s))"
      using Extend_effect [OF extended(4)] by (simp add: extended(1))
    then obtain i where i: "i \<in> set (jdJobs (jsDB s))"
      "k = (if ?h i then i\<lparr>jLeasedUntil := Some (jsClock s + intervalLiteral lease)\<rparr> else i)"
      using k by auto
    have "jID k = jID i" by (simp add: i(2))
    then have ij: "i = j" using same by (intro same_row [OF inv i(1) j]) simp
    show ?thesis
    proof (cases "?h j")
      case True
      then have "jLeaseToken j \<noteq> None" by (auto simp: heldBy_def split: option.splits)
      then show ?thesis using True by (simp add: i(2) ij extended_row)
    next
      case False
      then show ?thesis by (simp add: i(2) ij kept_row)
    qed
  qed
qed

end
