(* ===== verification/Notification_Runs.thy ===== *)
theory Notification_Runs
  imports Notification_Jobs
begin

text \<open>
  Runs of the delivery workers: what happens to a row from one state of the job table to any later
  one. A finished job stays as it is, a lease excludes other workers until its deadline, the queue
  of a group can be drained, and a job whose worker crashes is claimed without bound.
\<close>

section \<open>Rows along a run\<close>

lemma jobStep_grows:
  assumes "jobStep lease limit s t"
  shows "jsClock s \<le> jsClock t" "set (jsIDs s) \<subseteq> set (jsIDs t)" "set (jsSettled s) \<subseteq> set (jsSettled t)"
    "length (jsWorkers t) = length (jsWorkers s)"
  using assms by (cases (no_simp); simp add: setWorker_def subset_insertI)+

lemma jobStep_new_rows:
  assumes "jobStep lease limit s t" and k: "k \<in> set (jdJobs (jsDB t))" and "distinct (map jID (jdJobs (jsDB s)))"
  shows "(\<exists>j \<in> set (jdJobs (jsDB s)). jID j = jID k) \<or> jID k \<notin> set (jsIDs s)"
proof -
  have kept: ?thesis if "\<And>j. jID (f j) = jID j" and "jdJobs (jsDB t) = map f (jdJobs (jsDB s))" for f
    using k that by auto
  have sub: ?thesis if "k \<in> set (jdJobs (jsDB s))" using that by blast
  show ?thesis
    using assms(1)
  proof (cases (no_simp))
    case (tick d s')
    then show ?thesis using k by (intro sub) simp
  next
    case (enqueue x s')
    then have new: "jID x \<notin> set (jsIDs s)" and t: "jdJobs (jsDB t) = jdJobs (jsDB s) @ [x]" by simp_all
    show ?thesis
    proof (cases "k = x")
      case False
      then show ?thesis using k by (intro sub) (simp add: t)
    qed (use new in simp)
  next
    case (cascade s' gone)
    then show ?thesis using k by (intro sub) simp
  next
    case claim0: (claim w s' claimGroup tie skip fresh claimed db')
    note claim = claim0(2-) [folded claim0(1)]
    obtain ids where "claimed = map (claimRow (jsClock s) lease fresh) (filter (\<lambda>j. jID j \<in> set ids) (jdJobs (jsDB s)))"
      and db': "db' = (jsDB s)\<lparr>jdJobs := map (\<lambda>j. if jID j \<in> set ids then claimRow (jsClock s) lease fresh j else j) (jdJobs (jsDB s))\<rparr>"
      and "\<And>j. j \<in> set (jdJobs (jsDB s)) \<Longrightarrow> jID j \<in> set ids \<Longrightarrow> claimable (jsClock s) claimGroup j"
      using ClaimJobs_effect [OF claim(5) claim(4) assms(3)] by blast
    show ?thesis by (rule kept [of "\<lambda>j. if jID j \<in> set ids then claimRow (jsClock s) lease fresh j else j"]) (simp_all add: claim(1) db')
  next
    case (work w s' wk)
    then show ?thesis using k by (intro sub) simp
  next
    case (send w s' l)
    then show ?thesis using k by (intro sub) simp
  next
    case settled0: (settled w s' res l db')
    note settled = settled0(2-) [folded settled0(1)]
    have "jID (settledRow n b r x) = jID x" for n b r x using settledRow_facts(1) [of n b r x] by (simp add: sameJob_def)
    then show ?thesis
      using settle_effect [OF settled(6)] settled(1)
      by (intro kept [of "\<lambda>j. if holds (jID (blJob l)) (blToken l) j then settledRow (jsClock s) (blJob l) res j else j"]) simp_all
  next
    case extended0: (extended w s' pending tokens db')
    note extended = extended0(2-) [folded extended0(1)]
    show ?thesis
      by (rule kept [of "\<lambda>j. if heldBy (map (\<lambda>i. blToken (wkLeases (jsWorkers s ! w) ! i)) pending) j
          then j\<lparr>jLeasedUntil := Some (jsClock s + intervalLiteral lease)\<rparr> else j"])
        (use Extend_effect [OF extended(4)] extended(1) in simp_all)
  qed
qed

text \<open>A property of one row that its changes keep holds of it along a run: rows do not come back.\<close>

lemma row_keeps:
  assumes run: "reaches (jobStep lease limit) s t" and inv: "jobInv lease s"
    and i: "i \<in> set (jsIDs s)" and start: "\<And>k. k \<in> set (jdJobs (jsDB s)) \<Longrightarrow> jID k = i \<Longrightarrow> P s k"
    and keep: "\<And>x y j k. jobInv lease x \<Longrightarrow> jobStep lease limit x y \<Longrightarrow> j \<in> set (jdJobs (jsDB x)) \<Longrightarrow> jID j = i \<Longrightarrow> P x j \<Longrightarrow>
      k \<in> set (jdJobs (jsDB y)) \<Longrightarrow> jID k = i \<Longrightarrow> rowChange lease (jsClock x) (jsSettled y) j k \<Longrightarrow> P y k"
  shows "k \<in> set (jdJobs (jsDB t)) \<Longrightarrow> jID k = i \<Longrightarrow> P t k"
proof -
  let ?Q = "\<lambda>x. i \<in> set (jsIDs x) \<and> (\<forall>k \<in> set (jdJobs (jsDB x)). jID k = i \<longrightarrow> P x k)"
  have "?Q t"
  proof (rule job_system.keeps_with_inv [OF run inv])
    show "?Q s" using i start by blast
    fix x y assume x: "jobInv lease x" and q: "?Q x" and st: "jobStep lease limit x y"
    have "P y k" if k: "k \<in> set (jdJobs (jsDB y))" "jID k = i" for k
    proof -
      obtain j where j: "j \<in> set (jdJobs (jsDB x))" "jID j = i"
        using jobStep_new_rows [OF st k(1) jobInvD(1) [OF x]] k(2) q by blast
      show ?thesis
        using keep [OF x st j _ k jobStep_rows [OF x st j(1) k(1)]] q j k(2) by simp
    qed
    then show "?Q y" using q jobStep_grows(2) [OF st] by blast
  qed
  then show "k \<in> set (jdJobs (jsDB t)) \<Longrightarrow> jID k = i \<Longrightarrow> P t k" by blast
qed

text \<open>A finished row has no token and is not claimable.\<close>

lemma finished_unchanged:
  assumes "rowOk lease s j" and "jStatus j \<noteq> ''pending''" and "rowChange lease now settledTokens j k"
  shows "k = j"
proof -
  have "jLeaseToken j = None" using rowOkD(4) [OF assms(1)] assms(2) by (cases "jLeaseToken j") (auto simp: tokenOk_def)
  with assms(3,2) show ?thesis by cases simp_all
qed

lemma finished_final:
  assumes "reaches (jobStep lease limit) s t" and inv: "jobInv lease s" and j: "j \<in> set (jdJobs (jsDB s))" "jStatus j \<noteq> ''pending''"
    and "k \<in> set (jdJobs (jsDB t))" "jID k = jID j"
  shows "k = j"
proof (rule row_keeps [OF assms(1) inv rowOkD(1) [OF jobInvD(2) [OF inv j(1)]], of "\<lambda>_ k. k = j"])
  show "k = j" if "k \<in> set (jdJobs (jsDB s))" "jID k = jID j" for k using same_row [OF inv that(1) j(1) that(2)] .
  show "k = j" if "jobInv lease x" "i \<in> set (jdJobs (jsDB x))" "i = j" "rowChange lease (jsClock x) (jsSettled y) i k" for x y i k
    using finished_unchanged [OF jobInvD(2) [OF that(1,2)] _ that(4)] j(2) that(3) by simp
qed (fact assms)+

text \<open>Until its deadline passes or it is settled, a lease stays with its token.\<close>

lemma lease_stays:
  assumes run: "reaches (jobStep lease limit) s t" and inv: "jobInv lease s"
    and j: "j \<in> set (jdJobs (jsDB s))" "jLeaseToken j = Some token" "jLeasedUntil j = Some u"
    and k: "k \<in> set (jdJobs (jsDB t))" "jID k = jID j"
  shows "(jLeaseToken k = Some token \<and> (\<exists>v. jLeasedUntil k = Some v \<and> u \<le> v)) \<or> token \<in> set (jsSettled t) \<or> u < jsClock t"
proof (rule row_keeps [OF run inv rowOkD(1) [OF jobInvD(2) [OF inv j(1)]], of "\<lambda>x k.
    (jLeaseToken k = Some token \<and> (\<exists>v. jLeasedUntil k = Some v \<and> u \<le> v)) \<and> u \<le> jsClock x + intervalLiteral lease
    \<or> token \<in> set (jsSettled x) \<or> u < jsClock x", THEN disjE])
  show "k \<in> set (jdJobs (jsDB t))" "jID k = jID j" by (fact k)+
  fix k assume "k \<in> set (jdJobs (jsDB s))" "jID k = jID j"
  then have "k = j" using same_row [OF inv _ j(1)] by blast
  moreover have "u \<le> jsClock s + intervalLiteral lease"
    using rowOkD(4) [OF jobInvD(2) [OF inv j(1)]] j(2,3) by (auto simp: tokenOk_def)
  ultimately show "(jLeaseToken k = Some token \<and> (\<exists>v. jLeasedUntil k = Some v \<and> u \<le> v)) \<and> u \<le> jsClock s + intervalLiteral lease
    \<or> token \<in> set (jsSettled s) \<or> u < jsClock s" using j(2,3) by auto
next
  fix x y i k
  assume st: "jobStep lease limit x y" and ch: "rowChange lease (jsClock x) (jsSettled y) i k"
    and P: "(jLeaseToken i = Some token \<and> (\<exists>v. jLeasedUntil i = Some v \<and> u \<le> v)) \<and> u \<le> jsClock x + intervalLiteral lease
      \<or> token \<in> set (jsSettled x) \<or> u < jsClock x"
  note g = jobStep_grows(1,3) [OF st]
  show "(jLeaseToken k = Some token \<and> (\<exists>v. jLeasedUntil k = Some v \<and> u \<le> v)) \<and> u \<le> jsClock y + intervalLiteral lease
    \<or> token \<in> set (jsSettled y) \<or> u < jsClock y"
  proof (cases "token \<in> set (jsSettled x) \<or> u < jsClock x")
    case True
    then show ?thesis using g by auto
  next
    case False
    then obtain v where v: "jLeaseToken i = Some token" "jLeasedUntil i = Some v" "u \<le> v" "u \<le> jsClock x + intervalLiteral lease"
      using P by blast
    from ch show ?thesis
    proof cases
      case (claimed_row fresh)
      then show ?thesis using v(2,3) False by fastforce
    qed (use v g in auto)
  qed
qed auto

section \<open>Draining the queue\<close>

lemma fresh_tokens: "\<exists>fresh :: string \<Rightarrow> string. inj fresh \<and> range fresh \<inter> set ts = {}"
proof -
  define n where "n = Suc (sum_list (map length ts))"
  define fresh :: "string \<Rightarrow> string" where "fresh i = replicate n CHR ''t'' @ i" for i
  have "inj fresh" by (simp add: inj_def fresh_def)
  moreover have "fresh i \<notin> set ts" for i
  proof
    assume "fresh i \<in> set ts"
    then have "length (fresh i) \<le> sum_list (map length ts)" by (intro member_le_sum_list) simp_all
    then show False by (simp add: fresh_def n_def)
  qed
  ultimately show ?thesis by blast
qed

lemma deadline_passes: "\<exists>d \<ge> 0. \<forall>j \<in> set jobs. \<forall>u. jLeasedUntil j = Some u \<longrightarrow> u < now + (d :: int)"
proof (induction jobs)
  case Nil
  then show ?case by (intro exI [of _ 0]) simp
next
  case (Cons j jobs)
  then obtain d where d: "0 \<le> d" "\<forall>j \<in> set jobs. \<forall>u. jLeasedUntil j = Some u \<longrightarrow> u < now + d" by blast
  define e where "e = d + (case jLeasedUntil j of None \<Rightarrow> 0 | Some u \<Rightarrow> \<bar>u - now\<bar> + 1)"
  have "d \<le> e" by (simp add: e_def split: option.splits)
  moreover have "\<forall>u. jLeasedUntil j = Some u \<longrightarrow> u < now + e" using d(1) by (auto simp: e_def)
  ultimately show ?case using d by (intro exI [of _ e]) (auto intro: less_le_trans)
qed

lemma claimIDs_some:
  assumes "j \<in> set jobs" and "claimable now claimGroup j" and "0 < limit"
  shows "\<exists>i \<in> set jobs. claimable now claimGroup i \<and> jID i \<in> set (claimIDs id [] now claimGroup limit jobs)"
proof -
  define xs where "xs = sort_key jCreatedAt (filter (claimable now claimGroup) jobs)"
  have "j \<in> set xs" using assms(1,2) by (simp add: xs_def)
  then have "xs \<noteq> []" by auto
  then have "hd xs \<in> set xs" "hd xs \<in> set (take limit xs)" using assms(3) by (cases xs; cases limit; simp)+
  then show ?thesis by (intro bexI [of _ "hd xs"]) (simp_all add: claimIDs_def xs_def)
qed

text \<open>A worker that crashed claims a batch once every deadline has passed.\<close>

lemma claim_round:
  assumes inv: "jobInv lease s" and w: "w < length (jsWorkers s)" "wkGroup (jsWorkers s ! w) = g" and "0 < limit"
    and j: "j \<in> set (jdJobs (jsDB s))" "jClaimGroup j = g" "jStatus j = ''pending''"
    and att: "\<And>j. j \<in> set (jdJobs (jsDB s)) \<Longrightarrow> jAttempts j < 2 ^ 31 - 1"
  obtains t now fresh ids r rs where "reaches (jobStep lease limit) s t" "w < length (jsWorkers t)" "jsClock t = now"
    "jdJobs (jsDB t) = map (\<lambda>j. if jID j \<in> set ids then claimRow now lease fresh j else j) (jdJobs (jsDB s))"
    "jsWorkers t ! w = (idleWorker g)\<lparr>wkLeases := leaseOf (claimRow now lease fresh r) # rs\<rparr>"
    "r \<in> set (jdJobs (jsDB s))" "jID r \<in> set ids" "claimable now g r" "jdDead (jsDB t) = jdDead (jsDB s)"
proof -
  let ?jobs = "jdJobs (jsDB s)"
  obtain fresh :: "string \<Rightarrow> string" where fresh: "inj fresh" "range fresh \<inter> set (jsTokens s) = {}"
    using fresh_tokens by blast
  obtain d where d: "0 \<le> d" "\<And>j u. j \<in> set ?jobs \<Longrightarrow> jLeasedUntil j = Some u \<Longrightarrow> u < jsClock s + d"
    using deadline_passes [of ?jobs "jsClock s"] by blast
  define s1 where "s1 = setWorker w (idleWorker g) s"
  define now where "now = jsClock s + d"
  define s2 where "s2 = s1\<lparr>jsClock := now\<rparr>"
  have s2: "jsDB s2 = jsDB s" "jsClock s2 = now" "jsTokens s2 = jsTokens s" "w < length (jsWorkers s2)" "jsWorkers s2 ! w = idleWorker g"
    using w by (simp_all add: s2_def s1_def setWorker_def)
  have "workerStep (jsWorkers s ! w) (idleWorker g)" using crash [of "jsWorkers s ! w"] by (simp add: w(2))
  then have r1: "jobStep lease limit s s1" unfolding s1_def by (rule work [OF w(1)])
  have r2: "jobStep lease limit s1 s2" using tick [OF d(1), of lease limit s1] by (simp add: s2_def s1_def now_def)
  define ids where "ids = claimIDs id [] now g limit ?jobs"
  have cl: "claimable now g k" if "k \<in> set ?jobs" "jID k \<in> set ids" for k
    using claimIDs_claimable [of id "jID k" "[]" now g limit ?jobs] that same_row [OF inv _ that(1)]
    unfolding ids_def by auto
  have "claimable now g j" using j d(2) [OF j(1)] by (auto simp: claimable_def now_def split: option.splits)
  then obtain i where i: "i \<in> set ?jobs" "jID i \<in> set ids"
    using claimIDs_some [OF j(1) _ \<open>0 < limit\<close>] unfolding ids_def by blast
  define rows where "rows = filter (\<lambda>j. jID j \<in> set ids) ?jobs"
  have "i \<in> set rows" using i by (simp add: rows_def)
  then obtain r rest where rows: "rows = r # rest" by (cases rows) auto
  then have "r \<in> set rows" by simp
  then have r: "r \<in> set ?jobs" "jID r \<in> set ids" by (simp_all add: rows_def)
  define db' where "db' = (jsDB s)\<lparr>jdJobs := map (\<lambda>j. if jID j \<in> set ids then claimRow now lease fresh j else j) ?jobs\<rparr>"
  define claimed where "claimed = map (claimRow now lease fresh) rows"
  have "\<not> list_ex (\<lambda>j. 2 ^ 31 - 1 < jAttempts j) claimed"
    using att by (fastforce simp: claimed_def rows_def list_ex_iff)
  then have cj: "ClaimJobs id [] fresh (jsClock s2) g lease limit (jsDB s2) = Inr (claimed, db')"
    unfolding ClaimJobs_def s2 ids_def [symmetric] Let_def rows_def [symmetric] claimed_def [symmetric] db'_def by (rule if_not_P)
  have "distinct (map jID rows)" unfolding rows_def by (rule distinct_map_filter [OF jobInvD(1) [OF inv]])
  then have dist: "distinct (map (fresh \<circ> jID) claimed)"
  proof -
    have "map (fresh \<circ> jID) claimed = map fresh (map jID rows)" by (simp add: claimed_def)
    then show ?thesis using \<open>distinct (map jID rows)\<close> distinct_map [of fresh "map jID rows"] inj_on_subset [OF fresh(1)]
      by (metis subset_UNIV)
  qed
  define t where "t = (setWorker w ((idleWorker g)\<lparr>wkLeases := map leaseOf claimed\<rparr>) s2)
      \<lparr>jsDB := db', jsTokens := map (fresh \<circ> jID) claimed @ jsTokens s2\<rparr>"
  have "fresh ` jID ` set claimed \<inter> set (jsTokens s2) = {}" using fresh(2) by (auto simp: s2(3))
  then have r3: "jobStep lease limit s2 t" unfolding t_def by (intro claim [OF s2(4,5) _ cj dist]) simp_all
  have "reaches (jobStep lease limit) s t" using r1 r2 r3 by (blast intro: reaches.intros)
  moreover have "jsWorkers t ! w = (idleWorker g)\<lparr>wkLeases := leaseOf (claimRow now lease fresh r) # map leaseOf (map (claimRow now lease fresh) rest)\<rparr>"
    using s2(4) by (simp add: t_def setWorker_def claimed_def rows)
  ultimately show thesis using cl [OF r] r
    by (intro that [of t now ids fresh r]) (simp_all add: t_def setWorker_def db'_def s2 w(1) s2(4) [unfolded s2_def, simplified])
qed

text \<open>It delivers the first job of its batch.\<close>

lemma deliver_first:
  assumes w: "w < length (jsWorkers s)" "jsWorkers s ! w = (idleWorker g)\<lparr>wkLeases := l # rs\<rparr>" "\<not> blCancelled l"
    and st: "settle (jsClock s) (blJob l) (blToken l) Sent (jsDB s) = Inr db'"
  obtains t where "reaches (jobStep lease limit) s t" "jsDB t = db'" "w < length (jsWorkers t)" "wkGroup (jsWorkers t ! w) = g"
proof -
  define wk0 where "wk0 = jsWorkers s ! w"
  define wk1 where "wk1 = wk0\<lparr>wkPhase := Delivering\<rparr>"
  define wk2 where "wk2 = wk1\<lparr>wkPhase := Returned Sent\<rparr>"
  define wk3 where "wk3 = (cancelLease (wkPos wk2) wk2)\<lparr>wkPhase := Settling Sent\<rparr>"
  have wk0: "wkPhase wk0 = AtLoop" "wkPos wk0 = 0" "wkLeases wk0 = l # rs" "wkGroup wk0 = g"
    by (simp_all add: wk0_def w(2) idleWorker_def)
  have steps: "workerStep wk0 wk1" "workerStep wk1 wk2" "workerStep wk2 wk3"
    using deliver [of wk0] returned [of wk1 Sent] kept [of wk2 Sent] w(3) wk0 by (simp_all add: wk1_def wk2_def wk3_def)
  define put where "put wk = setWorker w wk s" for wk
  have put: "w < length (jsWorkers (put wk))" "jsWorkers (put wk) ! w = wk" "setWorker w wk' (put wk) = put wk'" "jsDB (put wk) = jsDB s"
    "jsClock (put wk) = jsClock s" for wk wk'
    using w(1) by (simp_all add: put_def setWorker_def)
  have move: "jobStep lease limit (put wk) (put wk')" if "workerStep wk wk'" for wk wk'
    using work [of w "put wk" wk' lease limit] that by (simp add: put)
  have "put wk0 = s" using w(1) by (simp add: put_def setWorker_def wk0_def)
  then have run: "reaches (jobStep lease limit) s (put wk3)"
    using move [OF steps(1)] move [OF steps(2)] move [OF steps(3)] by (metis reaches.intros)
  define l3 where "l3 = wkLeases wk3 ! wkPos wk3"
  have l3: "blJob l3 = blJob l" "blToken l3 = blToken l" "wkPos wk3 < length (wkLeases wk3)" "wkPhase wk3 = Settling Sent" "wkGroup wk3 = g"
    by (simp_all add: l3_def wk3_def wk2_def wk1_def cancelLease_def wk0)
  define t where "t = (setWorker w (settleLease wk3) (put wk3))\<lparr>jsDB := db', jsSettled := blToken l3 # jsSettled (put wk3)\<rparr>"
  have "jobStep lease limit (put wk3) t"
    using settled [of w "put wk3" Sent l3 db' lease limit] st put l3 by (simp add: t_def l3_def)
  then have "reaches (jobStep lease limit) s t" using run by (rule reaches_step [rotated])
  then show thesis
    using l3(5) w(1) by (intro that [of t]) (simp_all add: t_def put_def setWorker_def settleLease_def)
qed

lemma drain_round:
  assumes inv: "jobInv lease s" and w: "w < length (jsWorkers s)" "wkGroup (jsWorkers s ! w) = g" and "0 < limit"
    and j: "j \<in> set (jdJobs (jsDB s))" "jClaimGroup j = g" "jStatus j = ''pending''"
    and att: "\<And>j. j \<in> set (jdJobs (jsDB s)) \<Longrightarrow> jAttempts j < 2 ^ 31 - 1"
  obtains t i f where "reaches (jobStep lease limit) s t" "w < length (jsWorkers t)" "wkGroup (jsWorkers t ! w) = g"
    "i \<in> set (jdJobs (jsDB s))" "jStatus i = ''pending''" "jClaimGroup i = g" "jdJobs (jsDB t) = map f (jdJobs (jsDB s))"
    "\<And>j. sameJob (f j) j" "\<And>j. j \<in> set (jdJobs (jsDB s)) \<Longrightarrow> jStatus (f j) = (if jID j = jID i then ''done'' else jStatus j)"
    "\<And>j. jAttempts (f j) \<le> jAttempts j + 1"
proof -
  obtain t1 now fresh ids r rs where t1: "reaches (jobStep lease limit) s t1" "w < length (jsWorkers t1)" "jsClock t1 = now"
    and jobs1: "jdJobs (jsDB t1) = map (\<lambda>j. if jID j \<in> set ids then claimRow now lease fresh j else j) (jdJobs (jsDB s))"
    and wk1: "jsWorkers t1 ! w = (idleWorker g)\<lparr>wkLeases := leaseOf (claimRow now lease fresh r) # rs\<rparr>"
    and r: "r \<in> set (jdJobs (jsDB s))" "jID r \<in> set ids" "claimable now g r"
    by (rule claim_round [OF assms])
  let ?c = "\<lambda>j. if jID j \<in> set ids then claimRow now lease fresh j else j"
  let ?job = "claimRow now lease fresh r"
  have inv1: "jobInv lease t1" by (rule job_system.inv_reaches [OF t1(1) inv])
  have cl: "claimOk t1 (?job, fresh (jID r))"
    using jobInvD(4) [OF inv1 in_allClaims [OF t1(2), of 0 "leaseOf ?job"]] by (simp add: wk1 leaseOf_def)
  have cr: "holds (jID r) (fresh (jID r)) (?c r)" using r(2) by (simp add: holds_def)
  have hold: "holds (jID r) (fresh (jID r)) (?c j) \<longleftrightarrow> jID j = jID r" if j: "j \<in> set (jdJobs (jsDB s))" for j
  proof
    show "jID j = jID r" if "holds (jID r) (fresh (jID r)) (?c j)"
    proof -
      have "jID (?c j) = jID j" by simp
      then show ?thesis using that by (simp only: holds_def)
    qed
    show "holds (jID r) (fresh (jID r)) (?c j)" if "jID j = jID r"
      using cr unfolding same_row [OF inv j r(1) that] .
  qed
  have "?c r \<in> set (jdJobs (jsDB t1))" unfolding jobs1 set_map using r(1) by (rule imageI)
  then have ex: "list_ex (holds (jID r) (fresh (jID r))) (jdJobs (jsDB t1))" using cr unfolding list_ex_iff by (rule bexI [rotated])
  then obtain db' where db': "settle (jsClock t1) (blJob (leaseOf ?job)) (blToken (leaseOf ?job)) Sent (jsDB t1) = Inr db'"
    by (simp add: leaseOf_def settle_def CompleteJob_def fenced_def)
  note e = settle_effect [OF db']
  have "\<not> blCancelled (leaseOf ?job)" by (simp add: leaseOf_def)
  then obtain t where t: "reaches (jobStep lease limit) t1 t" "jsDB t = db'" "w < length (jsWorkers t)" "wkGroup (jsWorkers t ! w) = g"
    using deliver_first [OF t1(2) wk1 _ db', of lease limit] by blast
  define f where "f j = (if holds (jID r) (fresh (jID r)) (?c j) then settledRow now ?job Sent (?c j) else ?c j)" for j
  have "jdJobs (jsDB t) = map f (jdJobs (jsDB s))"
    using e by (simp add: t(2) t1(3) jobs1 f_def [abs_def] leaseOf_def comp_def)
  moreover have "sameJob (f j) j" for j
    using sameJob_trans [OF settledRow_facts(1)] by (simp add: f_def)
  moreover have "jStatus (f j) = (if jID j = jID r then ''done'' else jStatus j)" if "j \<in> set (jdJobs (jsDB s))" for j
    using hold [OF that] by (simp add: f_def settledRow_def)
  moreover have "jAttempts (f j) \<le> jAttempts j + 1" for j by (simp add: f_def settledRow_facts)
  moreover have "jStatus r = ''pending''" "jClaimGroup r = g" using r(3) by (simp_all add: claimable_def)
  ultimately show thesis using that [of t r f] reaches_trans [OF t(1) t1(1)] t(3,4) r(1) by blast
qed

text \<open>The number of jobs of a group still to be delivered.\<close>

definition backlog :: "string \<Rightarrow> DeliveryJob list \<Rightarrow> nat" where
  "backlog g jobs = length (filter (\<lambda>j. jClaimGroup j = g \<and> jStatus j = ''pending'') jobs)"

lemma backlog_one_less:
  assumes "i \<in> set jobs" "jClaimGroup i = g" "jStatus i = ''pending''"
    and "\<And>j. j \<in> set jobs \<Longrightarrow> jClaimGroup (f j) = jClaimGroup j \<and> jStatus (f j) = (if jID j = jID i then ''done'' else jStatus j)"
  shows "backlog g (map f jobs) < backlog g jobs"
proof -
  let ?p = "\<lambda>j. jClaimGroup j = g \<and> jStatus j = ''pending''"
  have "filter (?p \<circ> f) jobs = filter (\<lambda>j. ?p j \<and> jID j \<noteq> jID i) jobs" by (rule filter_cong) (use assms(4) in auto)
  then have "backlog g (map f jobs) = length (filter (\<lambda>j. ?p j \<and> jID j \<noteq> jID i) jobs)" by (simp add: backlog_def filter_map)
  also have "\<dots> < length (filter ?p jobs)"
  proof -
    have "filter (\<lambda>j. ?p j \<and> jID j \<noteq> jID i) jobs = filter (\<lambda>j. jID j \<noteq> jID i) (filter ?p jobs)" by (simp add: conj_commute)
    moreover have "length (filter (\<lambda>j. jID j \<noteq> jID i) (filter ?p jobs)) < length (filter ?p jobs)"
      by (rule length_filter_less [of i]) (use assms(1-3) in simp_all)
    ultimately show ?thesis by simp
  qed
  finally show ?thesis by (simp add: backlog_def)
qed

lemma drain:
  assumes "jobInv lease s" "w < length (jsWorkers s)" "wkGroup (jsWorkers s ! w) = g" "0 < limit"
    and "\<And>j. j \<in> set (jdJobs (jsDB s)) \<Longrightarrow> jAttempts j + int (backlog g (jdJobs (jsDB s))) < 2 ^ 31"
  shows "\<exists>t. reaches (jobStep lease limit) s t \<and> backlog g (jdJobs (jsDB t)) = 0 \<and>
    map jID (jdJobs (jsDB t)) = map jID (jdJobs (jsDB s)) \<and>
    (\<forall>j k. j \<in> set (jdJobs (jsDB s)) \<longrightarrow> jClaimGroup j = g \<longrightarrow> jStatus j = ''pending'' \<longrightarrow>
       k \<in> set (jdJobs (jsDB t)) \<longrightarrow> jID k = jID j \<longrightarrow> jStatus k = ''done'')"
  using assms
proof (induction "backlog g (jdJobs (jsDB s))" arbitrary: s rule: less_induct)
  case less
  show ?case
  proof (cases "\<exists>j. j \<in> set (jdJobs (jsDB s)) \<and> jClaimGroup j = g \<and> jStatus j = ''pending''")
    case False
    then have "backlog g (jdJobs (jsDB s)) = 0" by (auto simp: backlog_def filter_empty_conv)
    then show ?thesis using False by (intro exI [of _ s]) (auto intro: reaches.intros)
  next
    case True
    then obtain j where j: "j \<in> set (jdJobs (jsDB s))" "jClaimGroup j = g" "jStatus j = ''pending''" by blast
    have pos: "0 < backlog g (jdJobs (jsDB s))" using j by (auto simp: backlog_def filter_empty_conv)
    have att: "jAttempts x < 2 ^ 31 - 1" if "x \<in> set (jdJobs (jsDB s))" for x using less.prems(5) [OF that] pos by linarith
    obtain t i f where t: "reaches (jobStep lease limit) s t" "w < length (jsWorkers t)" "wkGroup (jsWorkers t ! w) = g"
      and i: "i \<in> set (jdJobs (jsDB s))" "jStatus i = ''pending''" "jClaimGroup i = g"
      and jobs: "jdJobs (jsDB t) = map f (jdJobs (jsDB s))" and f: "\<And>j. sameJob (f j) j"
      "\<And>j. j \<in> set (jdJobs (jsDB s)) \<Longrightarrow> jStatus (f j) = (if jID j = jID i then ''done'' else jStatus j)"
      "\<And>j. jAttempts (f j) \<le> jAttempts j + 1"
      using drain_round [OF less.prems(1-4) j att] by blast
    have inv: "jobInv lease t" by (rule job_system.inv_reaches [OF t(1) less.prems(1)])
    have fid: "jID (f x) = jID x" "jClaimGroup (f x) = jClaimGroup x" for x using f(1) [of x] by (simp_all add: sameJob_def)
    have lt: "backlog g (jdJobs (jsDB t)) < backlog g (jdJobs (jsDB s))"
      unfolding jobs by (rule backlog_one_less [OF i(1,3,2)]) (simp add: fid f(2))
    have "jAttempts k + int (backlog g (jdJobs (jsDB t))) < 2 ^ 31" if "k \<in> set (jdJobs (jsDB t))" for k
    proof -
      obtain x where x: "x \<in> set (jdJobs (jsDB s))" "k = f x" using \<open>k \<in> set (jdJobs (jsDB t))\<close> by (auto simp: jobs)
      show ?thesis using less.prems(5) [OF x(1)] f(3) [of x] lt unfolding x(2) by linarith
    qed
    from less.hyps [OF lt inv t(2,3) less.prems(4) this]
    obtain u where u: "reaches (jobStep lease limit) t u" "backlog g (jdJobs (jsDB u)) = 0"
      "map jID (jdJobs (jsDB u)) = map jID (jdJobs (jsDB t))"
      and fin: "\<And>j k. j \<in> set (jdJobs (jsDB t)) \<Longrightarrow> jClaimGroup j = g \<Longrightarrow> jStatus j = ''pending'' \<Longrightarrow>
         k \<in> set (jdJobs (jsDB u)) \<Longrightarrow> jID k = jID j \<Longrightarrow> jStatus k = ''done''" by blast
    have "jStatus k = ''done''" if x: "x \<in> set (jdJobs (jsDB s))" "jClaimGroup x = g" "jStatus x = ''pending''"
      and k: "k \<in> set (jdJobs (jsDB u))" "jID k = jID x" for x k
    proof -
      have fx: "f x \<in> set (jdJobs (jsDB t))" using x(1) by (simp add: jobs)
      show ?thesis
      proof (cases "jID x = jID i")
        case True
        then have "jStatus (f x) = ''done''" using f(2) [OF x(1)] by simp
        then show ?thesis using finished_final [OF u(1) inv fx _ k(1)] k(2) fid by simp
      next
        case False
        then show ?thesis using fin [OF fx _ _ k(1)] f(2) [OF x(1)] x k(2) fid by simp
      qed
    qed
    moreover have "map jID (jdJobs (jsDB u)) = map jID (jdJobs (jsDB s))" unfolding u(3) jobs by (simp add: comp_def fid)
    ultimately show ?thesis using reaches_trans [OF u(1) t(1)] u(2) by blast
  qed
qed

section \<open>Giving up\<close>

lemma retryBackoff_exact: "retryBackoff attempts = min (2 ^ nat attempts * second) maxRetryBackoff"
proof -
  consider "attempts < 0" | "10 < attempts" | "0 \<le> attempts" "attempts \<le> 10" by linarith
  then show ?thesis
  proof cases
    case 1
    then show ?thesis by (simp add: retryBackoff_def second_def maxRetryBackoff_def wrap64_def)
  next
    case 2
    then have "(2 :: int) ^ 10 \<le> 2 ^ nat attempts" by (intro power_increasing) auto
    then show ?thesis using 2 by (simp add: retryBackoff_def second_def maxRetryBackoff_def)
  next
    case 3
    define p where "p = (2 :: int) ^ nat attempts"
    have "p \<le> 2 ^ 10" unfolding p_def using 3 by (intro power_increasing) auto
    moreover have "0 < p" by (simp add: p_def)
    ultimately have "wrap64 p = p" and "wrap64 (p * second) = p * second" by (simp_all add: wrap64_id second_def)
    then show ?thesis using 3 by (simp add: retryBackoff_def p_def)
  qed
qed

lemma retryBackoff_bounds: "second \<le> retryBackoff attempts \<and> retryBackoff attempts \<le> maxRetryBackoff"
  unfolding retryBackoff_exact by (simp add: second_def maxRetryBackoff_def)

text \<open>A job whose worker crashes every time.\<close>

definition exJob :: DeliveryJob where
  "exJob = \<lparr>jID = ''j'', jMessageID = ''m'', jKind = ''webhook'', jTarget = ''https://hooks.example'', jStatus = ''pending'',
     jAttempts = 0, jLeasedUntil = None, jLastError = None, jLeaseToken = None, jClaimGroup = ''default'', jCreatedAt = 0\<rparr>"

definition exQueued :: jobSys where
  "exQueued = (jobStart [''default''])\<lparr>jsDB := \<lparr>jdJobs = [exJob], jdDead = []\<rparr>, jsIDs := [''j'']\<rparr>"

lemma exQueued_reachable: "reaches (jobStep lease limit) (jobStart [''default'']) exQueued"
proof -
  have "jobStep lease limit (jobStart [''default'']) exQueued"
    using enqueue [of exJob "jobStart [''default'']" lease limit]
    by (simp add: exQueued_def jobStart_def newJob_def exJob_def)
  then show ?thesis by (rule reaches_one)
qed

lemma claim_single:
  assumes inv: "jobInv lease t" and w: "0 < length (jsWorkers t)" "wkGroup (jsWorkers t ! 0) = g" and limit: "0 < limit"
    and j: "jdJobs (jsDB t) = [j]" "jClaimGroup j = g" "jStatus j = ''pending''" "jAttempts j < 2 ^ 31 - 1"
  shows "\<exists>u fresh. reaches (jobStep lease limit) t u \<and> jdJobs (jsDB u) = [claimRow (jsClock u) lease fresh j] \<and>
    jdDead (jsDB u) = jdDead (jsDB t) \<and> 0 < length (jsWorkers u) \<and> wkGroup (jsWorkers u ! 0) = g"
proof -
  have m: "j \<in> set (jdJobs (jsDB t))" by (simp add: j(1))
  have att: "jAttempts k < 2 ^ 31 - 1" if "k \<in> set (jdJobs (jsDB t))" for k using that j(4) by (simp add: j(1))
  show ?thesis
  proof (rule claim_round [OF inv w limit m j(2,3) att])
    fix u now fresh ids r rs
    assume u: "reaches (jobStep lease limit) t u" "0 < length (jsWorkers u)" "jsClock u = now"
      "jdJobs (jsDB u) = map (\<lambda>j. if jID j \<in> set ids then claimRow now lease fresh j else j) (jdJobs (jsDB t))"
      "jsWorkers u ! 0 = (idleWorker g)\<lparr>wkLeases := leaseOf (claimRow now lease fresh r) # rs\<rparr>"
      "r \<in> set (jdJobs (jsDB t))" "jID r \<in> set ids" "jdDead (jsDB u) = jdDead (jsDB t)"
    have "r = j" using u(6) by (simp add: j(1))
    then have "jdJobs (jsDB u) = [claimRow (jsClock u) lease fresh j]" using u(3,4,7) by (simp add: j(1))
    moreover have "wkGroup (jsWorkers u ! 0) = g" by (simp add: u(5) idleWorker_def)
    ultimately show ?thesis using u(1,2,8) by blast
  qed
qed

lemma crash_loop:
  assumes "0 < limit" and "int n < 2 ^ 31"
  shows "\<exists>t j. reaches (jobStep lease limit) exQueued t \<and> jdJobs (jsDB t) = [j] \<and> jID j = ''j'' \<and> jStatus j = ''pending'' \<and>
    jClaimGroup j = ''default'' \<and> jAttempts j = int n \<and> jdDead (jsDB t) = [] \<and>
    0 < length (jsWorkers t) \<and> wkGroup (jsWorkers t ! 0) = ''default''"
  using assms(2)
proof (induction n)
  case 0
  show ?case
    by (intro exI [of _ exQueued] exI [of _ exJob])
      (auto simp: exQueued_def jobStart_def exJob_def idleWorker_def intro: reaches.intros)
next
  case (Suc n)
  have "int n < 2 ^ 31" using Suc.prems by simp
  from Suc.IH [OF this] obtain t j where t: "reaches (jobStep lease limit) exQueued t" "jdJobs (jsDB t) = [j]" "jID j = ''j''" "jStatus j = ''pending''"
    "jClaimGroup j = ''default''" "jAttempts j = int n" "jdDead (jsDB t) = []" "0 < length (jsWorkers t)"
    "wkGroup (jsWorkers t ! 0) = ''default''" by blast
  have inv: "jobInv lease t"
    by (rule job_system.reachable_inv [OF reaches_trans [OF t(1) exQueued_reachable]])
  have "jAttempts j < 2 ^ 31 - 1" using Suc.prems by (simp add: t(6))
  from claim_single [OF inv t(8,9) assms(1) t(2,5,4) this]
  obtain u fresh where u: "reaches (jobStep lease limit) t u" "jdJobs (jsDB u) = [claimRow (jsClock u) lease fresh j]"
    "jdDead (jsDB u) = jdDead (jsDB t)" "0 < length (jsWorkers u)" "wkGroup (jsWorkers u ! 0) = ''default''" by blast
  have "jClaimGroup (claimRow (jsClock u) lease fresh j) = ''default''" using t(5) by (simp add: claimRow_def)
  then show ?case
    using reaches_trans [OF u(1) t(1)] u(2-5) t(3,4,6,7)
    by (intro exI [of _ u] exI [of _ "claimRow (jsClock u) lease fresh j"]) simp
qed

lemma exQueued_facts:
  "jdJobs (jsDB exQueued) = [exJob]" "0 < length (jsWorkers exQueued)" "wkGroup (jsWorkers exQueued ! 0) = ''default''"
  "jID exJob = ''j''" "jClaimGroup exJob = ''default''" "jStatus exJob = ''pending''" "jAttempts exJob = 0"
  by (simp_all add: exQueued_def jobStart_def exJob_def idleWorker_def)

lemma ex_delivered:
  obtains t j where "reaches (jobStep lease 10) exQueued t" "jdJobs (jsDB t) = [j]" "jStatus j = ''done''"
proof -
  have inv: "jobInv lease exQueued" by (rule job_system.reachable_inv [OF exQueued_reachable])
  have b: "backlog ''default'' (jdJobs (jsDB exQueued)) = 1" by (simp add: backlog_def exQueued_facts)
  have small: "jAttempts j + int (backlog ''default'' (jdJobs (jsDB exQueued))) < 2 ^ 31" if "j \<in> set (jdJobs (jsDB exQueued))" for j
    using that unfolding b by (simp add: exQueued_facts)
  have "(0 :: nat) < 10" by simp
  from drain [OF inv exQueued_facts(2,3) this small]
  obtain t where t: "reaches (jobStep lease 10) exQueued t" and ids: "map jID (jdJobs (jsDB t)) = map jID (jdJobs (jsDB exQueued))"
    and fin: "\<forall>j k. j \<in> set (jdJobs (jsDB exQueued)) \<longrightarrow> jClaimGroup j = ''default'' \<longrightarrow> jStatus j = ''pending'' \<longrightarrow>
       k \<in> set (jdJobs (jsDB t)) \<longrightarrow> jID k = jID j \<longrightarrow> jStatus k = ''done''" by blast
  obtain j where j: "jdJobs (jsDB t) = [j]" "jID j = ''j''" using ids by (auto simp: exQueued_facts)
  have "jStatus j = ''done''" using fin [rule_format, of exJob j] by (simp add: j exQueued_facts)
  then show thesis by (rule that [OF t j(1)])
qed

lemma ex_leased:
  obtains s j token u where "reaches (jobStep 30000000000 10) exQueued s" "jdJobs (jsDB s) = [j]" "jLeaseToken j = Some token"
    "jLeasedUntil j = Some u" "jsClock s + 1 \<le> u" "token \<notin> set (jsSettled s)"
proof -
  have inv: "jobInv 30000000000 exQueued" by (rule job_system.reachable_inv [OF exQueued_reachable])
  have "jAttempts exJob < 2 ^ 31 - 1" by (simp add: exQueued_facts)
  from claim_single [OF inv exQueued_facts(2,3) _ exQueued_facts(1,5,6) this, of 10]
  obtain u fresh where u: "reaches (jobStep 30000000000 10) exQueued u"
    "jdJobs (jsDB u) = [claimRow (jsClock u) 30000000000 fresh exJob]" by auto
  have "jobInv 30000000000 u" by (rule job_system.inv_reaches [OF u(1) inv])
  then have "rowOk 30000000000 u (claimRow (jsClock u) 30000000000 fresh exJob)" by (rule jobInvD(2)) (simp add: u(2))
  then have "fresh ''j'' \<notin> set (jsSettled u)" by (auto simp: rowOk_def tokenOk_def exQueued_facts)
  then show thesis
    using that [OF u, of "fresh ''j''" "jsClock u + 30000000"] by (simp add: exQueued_facts intervalLiteral_def)
qed

section \<open>Properties\<close>

text \<open>C28. In every state that workers reach by claiming, delivering, heartbeating, settling and
  crashing in any order, the job table is consistent: a token is on one row, which is pending, and
  was never settled before; the claim of a worker agrees with the row its token is on; no two workers
  hold the same claim; every claim is settled at most once; and a job is dead exactly when it has
  its one audit row, after the eighth attempt or a rejected target.\<close>

theorem jobs_consistent:
  assumes "reaches (jobStep lease limit) (jobStart groups) s"
  shows "jobInv lease s"
  using assms by (rule job_system.reachable_inv)

theorem jobs_consistent_witness:
  "reaches (jobStep 30000000000 10) (jobStart [''default'']) exQueued \<and> jobInv 30000000000 exQueued"
  using jobs_consistent [OF exQueued_reachable] exQueued_reachable by blast

text \<open>A delivered or dead job is final: along every run its row stays as it is for as long as it
  exists, so it is never claimed, retried or overwritten by a late worker.\<close>

theorem finished_jobs_final:
  assumes "reaches (jobStep lease limit) (jobStart groups) s" and "reaches (jobStep lease limit) s t"
    and "j \<in> set (jdJobs (jsDB s))" and "jStatus j \<noteq> ''pending''"
    and "k \<in> set (jdJobs (jsDB t))" and "jID k = jID j"
  shows "k = j"
  using finished_final [OF assms(2) job_system.reachable_inv [OF assms(1)]] assms(3-6) by blast

theorem finished_jobs_final_witness:
  "\<exists>s t j. reaches (jobStep 30000000000 10) (jobStart [''default'']) s \<and> reaches (jobStep 30000000000 10) s t \<and>
     t = s\<lparr>jsClock := jsClock s + 1\<rparr> \<and> jdJobs (jsDB s) = [j] \<and> jStatus j = ''done'' \<and> jdJobs (jsDB t) ! 0 = j"
proof -
  obtain s j where s: "reaches (jobStep 30000000000 10) exQueued s" "jdJobs (jsDB s) = [j]" "jStatus j = ''done''"
    by (rule ex_delivered)
  note r = reaches_trans [OF s(1) exQueued_reachable]
  have st: "reaches (jobStep 30000000000 10) s (s\<lparr>jsClock := jsClock s + 1\<rparr>)" by (intro reaches_one tick) simp
  have "jdJobs (jsDB (s\<lparr>jsClock := jsClock s + 1\<rparr>)) ! 0 = j"
    by (rule finished_jobs_final [OF r st]) (simp_all add: s)
  then show ?thesis using r st s(2,3) by blast
qed

text \<open>C29. A lease excludes other workers: until its deadline has passed or its holder has settled
  the job, the row keeps the token of the claim, whatever the other workers do, and heartbeats never
  bring the deadline forward.\<close>

theorem lease_exclusive:
  assumes "reaches (jobStep lease limit) (jobStart groups) s" and "reaches (jobStep lease limit) s t"
    and "j \<in> set (jdJobs (jsDB s))" and "jLeaseToken j = Some token" and "jLeasedUntil j = Some u"
    and "k \<in> set (jdJobs (jsDB t))" and "jID k = jID j"
    and "jsClock t \<le> u" and "token \<notin> set (jsSettled t)"
  shows "jLeaseToken k = Some token \<and> (\<exists>v. jLeasedUntil k = Some v \<and> u \<le> v)"
  using lease_stays [OF assms(2) job_system.reachable_inv [OF assms(1)] assms(3-7)] assms(8,9) by auto

theorem lease_exclusive_witness:
  "\<exists>s t token k. reaches (jobStep 30000000000 10) (jobStart [''default'']) s \<and> t = s\<lparr>jsClock := jsClock s + 1\<rparr> \<and>
     jdJobs (jsDB t) = [k] \<and> jLeaseToken k = Some token"
proof -
  obtain s j token u where s: "reaches (jobStep 30000000000 10) exQueued s" "jdJobs (jsDB s) = [j]" "jLeaseToken j = Some token"
    "jLeasedUntil j = Some u" "jsClock s + 1 \<le> u" "token \<notin> set (jsSettled s)"
    by (rule ex_leased)
  note r = reaches_trans [OF s(1) exQueued_reachable]
  have st: "reaches (jobStep 30000000000 10) s (s\<lparr>jsClock := jsClock s + 1\<rparr>)" by (intro reaches_one tick) simp
  have "jLeaseToken j = Some token \<and> (\<exists>v. jLeasedUntil j = Some v \<and> u \<le> v)"
    by (rule lease_exclusive [OF r st]) (simp_all add: s)
  then show ?thesis using r s(2) by auto
qed

text \<open>C30. The queue of a group can always be drained: from every reachable state with a worker of the
  group there is a run after which every job of the group that was pending is delivered and none is
  pending.\<close>

theorem queue_drains:
  assumes "reaches (jobStep lease limit) (jobStart groups) s"
    and "w < length (jsWorkers s)" and "wkGroup (jsWorkers s ! w) = g" and "0 < limit"
    and "\<And>j. j \<in> set (jdJobs (jsDB s)) \<Longrightarrow> jAttempts j + int (backlog g (jdJobs (jsDB s))) < 2 ^ 31"
  shows "\<exists>t. reaches (jobStep lease limit) s t \<and> backlog g (jdJobs (jsDB t)) = 0 \<and>
    map jID (jdJobs (jsDB t)) = map jID (jdJobs (jsDB s)) \<and>
    (\<forall>j k. j \<in> set (jdJobs (jsDB s)) \<longrightarrow> jClaimGroup j = g \<longrightarrow> jStatus j = ''pending'' \<longrightarrow>
       k \<in> set (jdJobs (jsDB t)) \<longrightarrow> jID k = jID j \<longrightarrow> jStatus k = ''done'')"
  by (rule drain [OF job_system.reachable_inv [OF assms(1)]]) (fact assms)+

theorem queue_drains_witness:
  "\<exists>t. reaches (jobStep 30000000000 10) exQueued t \<and> backlog ''default'' (jdJobs (jsDB t)) = 0"
  using queue_drains [OF exQueued_reachable exQueued_facts(2,3), of 10 30000000000]
  by (auto simp: exQueued_facts backlog_def)

text \<open>C31. The attempt limit does not bound the claims of a job whose worker crashes: there is a run
  with one worker after which the job has been attempted nine times and is still pending, with no
  audit row.\<close>

theorem attempts_beyond_limit:
  "\<exists>t j. reaches (jobStep 30000000000 10) (jobStart [''default'']) t \<and> jdJobs (jsDB t) = [j] \<and>
     jStatus j = ''pending'' \<and> jAttempts j = maxAttempts + 1 \<and> jdDead (jsDB t) = []"
proof -
  obtain t j where "reaches (jobStep 30000000000 10) exQueued t" "jdJobs (jsDB t) = [j]" "jStatus j = ''pending''"
    "jAttempts j = int 9" "jdDead (jsDB t) = []"
    using crash_loop [of 10 9 30000000000] by auto
  then show ?thesis
    using reaches_trans [OF _ exQueued_reachable] by (intro exI [of _ t] exI [of _ j]) (simp add: maxAttempts_def)
qed

end
