(* ===== verification/Notification_Store.thy ===== *)
theory Notification_Store
  imports Webhook_Policy Notification_Runs
begin

text \<open>
  Channels, subscriptions, messages and inboxes of the notification module
  (\<open>modules/notification/service/store.go\<close>) over the tables and constraints of
  \<open>modules/notification/migrations\<close>. Each operation that writes is one transaction; an error rolls
  it back. A value read before the transaction, or by a statement whose row nothing locks, comes from a
  separate state. The lemmas give an invariant of the tables, the recipients of a send and its replay
  under an idempotency key.
\<close>

section \<open>Tables\<close>

text \<open>Creation times are left out of channels and messages: nothing but the order of lists, a
  parameter of the list operations, depends on them. The stored columns of a message include its
  idempotency key and the hash of its payload; the time at which it was read belongs to a recipient.\<close>

record Channel =
  chID :: string
  chCompanyID :: string
  chKey :: string
  chLabel :: string
  chKind :: string
  chTarget :: "string option"

record Subscription =
  sbChannelID :: string
  sbSubject :: string
  sbEmail :: "string option"
  sbMuted :: bool

record Message =
  msID :: string
  msCompanyID :: string
  msChannelID :: string
  msSubjectLine :: string
  msBody :: string
  msCreatedBy :: string
  msIdemKey :: "string option"
  msIdemHash :: "string option"

record Recipient =
  rsMessageID :: string
  rsSubject :: string
  rsReadAt :: "int option"

text \<open>An audit row is reduced to its actor, action and subject.\<close>

record notifDB =
  ndChannels :: "Channel list"
  ndSubscriptions :: "Subscription list"
  ndMessages :: "Message list"
  ndRecipients :: "Recipient list"
  ndJobs :: "DeliveryJob list"
  ndAudit :: "(string \<times> string \<times> string) list"

definition emptyNotif :: notifDB where
  "emptyNotif = \<lparr>ndChannels = [], ndSubscriptions = [], ndMessages = [], ndRecipients = [], ndJobs = [], ndAudit = []\<rparr>"

text \<open>\<open>NotifDatabase\<close> is a statement the database refuses (a constraint, a NUL byte in a text), which
  the code wraps and reports as an internal error.\<close>

datatype notifError =
    NotifValidation string
  | NotifPolicy WebhookPolicyError
  | NotifConflict
  | NotifChannelNotFound
  | NotifRecipientNotFound
  | NotifIdempotencyConflict
  | NotifDatabase

definition auditNotif :: "string \<Rightarrow> string \<Rightarrow> string \<Rightarrow> notifDB \<Rightarrow> (notifError, notifDB) result" where
  "auditNotif actor action subject db =
     (if \<not> nul_free actor then Inl NotifDatabase
      else Inr (db\<lparr>ndAudit := ndAudit db @ [(actor, action, subject)]\<rparr>))"

definition auditChannel :: "string \<Rightarrow> string \<Rightarrow> string \<Rightarrow> notifDB \<Rightarrow> (notifError, notifDB) result" where
  "auditChannel actor action channel db = auditNotif actor action (''notification_channel:'' @ channel) db"

definition textOpt :: "string option \<Rightarrow> bool" where
  "textOpt x = (case x of None \<Rightarrow> True | Some s \<Rightarrow> nul_free s)"

section \<open>Channels\<close>

definition isLower :: "char \<Rightarrow> bool" where
  "isLower c \<longleftrightarrow> 97 \<le> (of_char c :: nat) \<and> (of_char c :: nat) \<le> 122"

definition keyChar :: "char \<Rightarrow> bool" where
  "keyChar c \<longleftrightarrow> isLower c \<or> isDigit c \<or> c = CHR ''_'' \<or> c = CHR ''-''"

definition channelKeyPattern :: "string \<Rightarrow> bool" where
  "channelKeyPattern s = (case s of [] \<Rightarrow> False
     | c # cs \<Rightarrow> isLower c \<and> list_all keyChar cs \<and> 1 \<le> length cs \<and> length cs \<le> 63)"

definition validKind :: "string \<Rightarrow> bool" where
  "validKind kind \<longleftrightarrow> kind = ''in_app'' \<or> kind = ''email'' \<or> kind = ''webhook''"

definition validateChannel ::
  "WebhookPolicy \<Rightarrow> netEnv \<Rightarrow> string \<Rightarrow> string \<Rightarrow> string \<Rightarrow> string option \<Rightarrow> (notifError, unit) result" where
  "validateChannel policy net key label kind target =
     (if \<not> channelKeyPattern key then Inl (NotifValidation ''key'')
      else if length label < 1 \<or> 120 < length label then Inl (NotifValidation ''label'')
      else if \<not> validKind kind then Inl (NotifValidation ''kind'')
      else if kind = ''webhook'' then
        (case target of
           None \<Rightarrow> Inl (NotifValidation ''target'')
         | Some t \<Rightarrow>
             if t = [] then Inl (NotifValidation ''target'')
             else case policy_Validate policy net t of Inl e \<Rightarrow> Inl (NotifPolicy e) | Inr _ \<Rightarrow> Inr ())
      else Inr ())"

definition CreateChannel ::
  "WebhookPolicy \<Rightarrow> netEnv \<Rightarrow> string \<Rightarrow> string \<Rightarrow> string \<Rightarrow> string \<Rightarrow> string \<Rightarrow> string \<Rightarrow> string option \<Rightarrow> notifDB \<Rightarrow>
   (notifError, Channel \<times> notifDB) result" where
  "CreateChannel policy net newID actor company key label kind target db =
     rbind (validateChannel policy net key label kind target) (\<lambda>_.
       let c = \<lparr>chID = newID, chCompanyID = company, chKey = key, chLabel = label, chKind = kind, chTarget = target\<rparr> in
       if \<not> nul_free label \<or> \<not> textOpt target then Inl NotifDatabase
       else if list_ex (\<lambda>x. chID x = newID \<or> chCompanyID x = company \<and> chKey x = key) (ndChannels db) then Inl NotifConflict
       else rbind (auditChannel actor ''notification.channel.create'' newID (db\<lparr>ndChannels := ndChannels db @ [c]\<rparr>))
              (\<lambda>db'. Inr (c, db')))"

text \<open>\<open>orderBy\<close> is the database's order of the selected rows.\<close>

definition pageOf :: "'a list \<Rightarrow> int \<Rightarrow> int \<Rightarrow> (notifError, 'a list \<times> int) result" where
  "pageOf rows page pageSize =
     (let (page, pageSize) = ClampPage page pageSize in
      case limitOffset rows page pageSize of
        None \<Rightarrow> Inl NotifDatabase | Some items \<Rightarrow> Inr (items, int (length rows)))"

definition ListChannels ::
  "(Channel list \<Rightarrow> Channel list) \<Rightarrow> notifDB \<Rightarrow> string \<Rightarrow> int \<Rightarrow> int \<Rightarrow> (notifError, Channel list \<times> int) result" where
  "ListChannels orderBy db company page pageSize =
     pageOf (orderBy (filter (\<lambda>c. chCompanyID c = company) (ndChannels db))) page pageSize"

definition GetChannel :: "notifDB \<Rightarrow> string \<Rightarrow> string \<Rightarrow> (notifError, Channel) result" where
  "GetChannel db company channel =
     (case find (\<lambda>c. chCompanyID c = company \<and> chID c = channel) (ndChannels db) of
        None \<Rightarrow> Inl NotifChannelNotFound | Some c \<Rightarrow> Inr c)"

text \<open>Deleting a channel cascades to its subscriptions and messages, and from these to inboxes and
  jobs.\<close>

definition cascadeMessages :: "string set \<Rightarrow> notifDB \<Rightarrow> notifDB" where
  "cascadeMessages gone db = db\<lparr>ndMessages := filter (\<lambda>m. msID m \<notin> gone) (ndMessages db),
     ndRecipients := filter (\<lambda>r. rsMessageID r \<notin> gone) (ndRecipients db),
     ndJobs := filter (\<lambda>j. jMessageID j \<notin> gone) (ndJobs db)\<rparr>"

definition messagesOf :: "notifDB \<Rightarrow> string \<Rightarrow> string set" where
  "messagesOf db channel = msID ` set (filter (\<lambda>m. msChannelID m = channel) (ndMessages db))"

definition DeleteChannel :: "string \<Rightarrow> string \<Rightarrow> string \<Rightarrow> notifDB \<Rightarrow> (notifError, notifDB) result" where
  "DeleteChannel actor company channel db =
     (if \<not> list_ex (\<lambda>c. chCompanyID c = company \<and> chID c = channel) (ndChannels db) then Inl NotifChannelNotFound
      else auditChannel actor ''notification.channel.delete'' channel
        (cascadeMessages (messagesOf db channel)
          (db\<lparr>ndChannels := filter (\<lambda>c. \<not> (chCompanyID c = company \<and> chID c = channel)) (ndChannels db),
              ndSubscriptions := filter (\<lambda>s. sbChannelID s \<noteq> channel) (ndSubscriptions db)\<rparr>)))"

section \<open>Subscriptions\<close>

text \<open>The channel is read in \<open>pre\<close>, before the transaction; when it is gone at the insert, the
  foreign key refuses the row.\<close>

definition channelExists :: "notifDB \<Rightarrow> string \<Rightarrow> bool" where
  "channelExists db channel \<longleftrightarrow> list_ex (\<lambda>c. chID c = channel) (ndChannels db)"

definition subscribed :: "string \<Rightarrow> string \<Rightarrow> Subscription \<Rightarrow> bool" where
  "subscribed channel subject s \<longleftrightarrow> sbChannelID s = channel \<and> sbSubject s = subject"

definition upsertSubscription :: "string \<Rightarrow> string \<Rightarrow> string option \<Rightarrow> Subscription list \<Rightarrow> Subscription list" where
  "upsertSubscription channel subject email subs =
     (if list_ex (subscribed channel subject) subs
      then map (\<lambda>s. if subscribed channel subject s then s\<lparr>sbEmail := email, sbMuted := False\<rparr> else s) subs
      else subs @ [\<lparr>sbChannelID = channel, sbSubject = subject, sbEmail = email, sbMuted = False\<rparr>])"

definition Subscribe ::
  "notifDB \<Rightarrow> string \<Rightarrow> string \<Rightarrow> string \<Rightarrow> string \<Rightarrow> string option \<Rightarrow> notifDB \<Rightarrow> (notifError, notifDB) result" where
  "Subscribe pre actor company channel subject email db =
     rbind (GetChannel pre company channel) (\<lambda>_.
       if \<not> channelExists db channel \<or> \<not> nul_free subject \<or> \<not> textOpt email then Inl NotifDatabase
       else auditChannel actor ''notification.subscription.create'' channel
              (db\<lparr>ndSubscriptions := upsertSubscription channel subject email (ndSubscriptions db)\<rparr>))"

definition Unsubscribe :: "notifDB \<Rightarrow> string \<Rightarrow> string \<Rightarrow> string \<Rightarrow> string \<Rightarrow> notifDB \<Rightarrow> (notifError, notifDB) result" where
  "Unsubscribe pre actor company channel subject db =
     rbind (GetChannel pre company channel) (\<lambda>_.
       if \<not> nul_free subject then Inl NotifDatabase
       else auditChannel actor ''notification.subscription.delete'' channel
              (db\<lparr>ndSubscriptions := filter (\<lambda>s. \<not> subscribed channel subject s) (ndSubscriptions db)\<rparr>))"

section \<open>Messages\<close>

text \<open>\<open>sha\<close> is the SHA-256 hash in hexadecimal.\<close>

definition idempotencyPayloadHash :: "(string \<Rightarrow> string) \<Rightarrow> string \<Rightarrow> string \<Rightarrow> string \<Rightarrow> string" where
  "idempotencyPayloadHash sha channel subjectLine body = sha (channel @ [nul] @ subjectLine @ [nul] @ body)"

text \<open>A control character of the loop over runes is one byte, and no byte of a longer rune is one.\<close>

definition controlChar :: "char \<Rightarrow> bool" where
  "controlChar c \<longleftrightarrow> (of_char c :: nat) < 32 \<or> (of_char c :: nat) = 127"

definition validateSubjectLineAndBody :: "string \<Rightarrow> string \<Rightarrow> (notifError, unit) result" where
  "validateSubjectLineAndBody subjectLine body =
     (if length subjectLine < 1 \<or> 200 < length subjectLine then Inl (NotifValidation ''subjectLine'')
      else if list_ex controlChar subjectLine then Inl (NotifValidation ''subjectLine'')
      else if body = [] then Inl (NotifValidation ''body'')
      else Inr ())"

definition hasIdemKey :: "string \<Rightarrow> string \<Rightarrow> Message \<Rightarrow> bool" where
  "hasIdemKey channel key m \<longleftrightarrow> msChannelID m = channel \<and> msIdemKey m = Some key"

definition findByIdempotencyKey :: "notifDB \<Rightarrow> string \<Rightarrow> string \<Rightarrow> (notifError, (Message \<times> string) option) result" where
  "findByIdempotencyKey db channel key =
     (if \<not> nul_free key then Inl NotifDatabase
      else Inr (map_option (\<lambda>m. (m, case msIdemHash m of None \<Rightarrow> [] | Some h \<Rightarrow> h))
        (find (hasIdemKey channel key) (ndMessages db))))"

definition subscribersOf :: "notifDB \<Rightarrow> string \<Rightarrow> Subscription list" where
  "subscribersOf db channel = filter (\<lambda>s. sbChannelID s = channel \<and> \<not> sbMuted s) (ndSubscriptions db)"

definition recipientRow :: "string \<Rightarrow> string \<Rightarrow> Recipient" where
  "recipientRow message subject = \<lparr>rsMessageID = message, rsSubject = subject, rsReadAt = None\<rparr>"

text \<open>The jobs of a send: \<open>(kind, target)\<close> for every subscriber with an address of an email channel,
  or for the target of a webhook channel.\<close>

definition emailJobs :: "Channel \<Rightarrow> Subscription list \<Rightarrow> (string \<times> string) list" where
  "emailJobs channel subs = List.map_filter (\<lambda>s. case sbEmail s of
      Some e \<Rightarrow> if chKind channel = ''email'' \<and> e \<noteq> [] then Some (''email'', e) else None
    | None \<Rightarrow> None) subs"

definition webhookJobs :: "Channel \<Rightarrow> (string \<times> string) list" where
  "webhookJobs channel = (case chTarget channel of
      Some t \<Rightarrow> if chKind channel = ''webhook'' \<and> t \<noteq> [] then [(''webhook'', t)] else []
    | None \<Rightarrow> [])"

text \<open>The columns of a new job that the inserts leave to their defaults.\<close>

definition enqueueJob :: "string \<Rightarrow> int \<Rightarrow> string \<Rightarrow> string \<Rightarrow> string \<times> string \<Rightarrow> DeliveryJob" where
  "enqueueJob claimGroup now message jobID kt =
     \<lparr>jID = jobID, jMessageID = message, jKind = fst kt, jTarget = snd kt, jStatus = ''pending'', jAttempts = 0,
      jLeasedUntil = None, jLastError = None, jLeaseToken = None, jClaimGroup = claimGroup, jCreatedAt = now\<rparr>"

definition jobsOf :: "string \<Rightarrow> int \<Rightarrow> (nat \<Rightarrow> string) \<Rightarrow> Channel \<Rightarrow> string \<Rightarrow> Subscription list \<Rightarrow> DeliveryJob list" where
  "jobsOf claimGroup now jobID channel message subs =
     (let kts = emailJobs channel subs @ webhookJobs channel in
      map2 (enqueueJob claimGroup now message) (map jobID [0..<length kts]) kts)"

text \<open>The generated identifiers of a transaction, and its time.\<close>

record fresh =
  frMessage :: string
  frChannel :: string
  frJob :: "nat \<Rightarrow> string"
  frNow :: int

definition insertMessage :: "Message \<Rightarrow> notifDB \<Rightarrow> (notifError, notifDB) result" where
  "insertMessage m db =
     (if \<not> nul_free (msSubjectLine m) \<or> \<not> nul_free (msBody m) \<or> \<not> nul_free (msCreatedBy m) then Inl NotifDatabase
      else if list_ex (\<lambda>x. msID x = msID m \<or> (case msIdemKey m of None \<Rightarrow> False | Some k \<Rightarrow> hasIdemKey (msChannelID m) k x)) (ndMessages db)
        then Inl NotifConflict
      else if \<not> channelExists db (msChannelID m) then Inl NotifDatabase
      else Inr (db\<lparr>ndMessages := ndMessages db @ [m]\<rparr>))"

definition newMessage :: "string \<Rightarrow> string \<Rightarrow> string \<Rightarrow> string \<Rightarrow> string \<Rightarrow> string \<Rightarrow> string option \<Rightarrow> string option \<Rightarrow> Message" where
  "newMessage i company channel subjectLine body actor key hash =
     \<lparr>msID = i, msCompanyID = company, msChannelID = channel, msSubjectLine = subjectLine, msBody = body,
      msCreatedBy = actor, msIdemKey = key, msIdemHash = hash\<rparr>"

text \<open>The part of a send after the lookup of the key: a job id that is taken breaks the primary key
  of the job table.\<close>

definition sendTx ::
  "string \<Rightarrow> fresh \<Rightarrow> string \<Rightarrow> Channel \<Rightarrow> Message \<Rightarrow> notifDB \<Rightarrow> (notifError, (Message \<times> bool) \<times> notifDB) result" where
  "sendTx claimGroup fr actor channel m db =
     rbind (insertMessage m db) (\<lambda>db1.
       let subs = subscribersOf db1 (msChannelID m);
           jobs = jobsOf claimGroup (frNow fr) (frJob fr) channel (msID m) subs;
           db2 = db1\<lparr>ndRecipients := ndRecipients db1 @ map (\<lambda>s. recipientRow (msID m) (sbSubject s)) subs,
                     ndJobs := ndJobs db1 @ jobs\<rparr>
       in if \<not> distinct (map jID (ndJobs db1 @ jobs)) then Inl NotifDatabase
          else rbind (auditChannel actor ''notification.message.send'' (msChannelID m) db2) (\<lambda>db3. Inr ((m, True), db3)))"

text \<open>\<open>look\<close> is the state that the lookup of the key sees, \<open>db\<close> the state from the insert on.\<close>

definition SendMessage ::
  "(string \<Rightarrow> string) \<Rightarrow> string \<Rightarrow> fresh \<Rightarrow> notifDB \<Rightarrow> notifDB \<Rightarrow> string \<Rightarrow> string \<Rightarrow> string \<Rightarrow> string \<Rightarrow> string \<Rightarrow> string \<Rightarrow> notifDB \<Rightarrow>
   (notifError, (Message \<times> bool) \<times> notifDB) result" where
  "SendMessage sha claimGroup fr pre look actor company channelID subjectLine body idempotencyKey db =
     rbind (validateSubjectLineAndBody subjectLine body) (\<lambda>_.
     rbind (GetChannel pre company channelID) (\<lambda>channel.
       if idempotencyKey = [] then
         sendTx claimGroup fr actor channel (newMessage (frMessage fr) company channelID subjectLine body actor None None) db
       else
         let hash = idempotencyPayloadHash sha channelID subjectLine body in
         rbind (findByIdempotencyKey look channelID idempotencyKey) (\<lambda>found.
           case found of
             Some (existing, existingHash) \<Rightarrow>
               if existingHash \<noteq> hash then Inl NotifIdempotencyConflict else Inr ((existing, False), db)
           | None \<Rightarrow> sendTx claimGroup fr actor channel
               (newMessage (frMessage fr) company channelID subjectLine body actor (Some idempotencyKey) (Some hash)) db)))"

section \<open>Inboxes\<close>

definition inboxRows :: "notifDB \<Rightarrow> string \<Rightarrow> string \<Rightarrow> (Message \<times> int option) list" where
  "inboxRows db company subject =
     concat (map (\<lambda>r. if rsSubject r = subject
         then map (\<lambda>m. (m, rsReadAt r)) (filter (\<lambda>m. msID m = rsMessageID r \<and> msCompanyID m = company) (ndMessages db))
         else []) (ndRecipients db))"

definition ListInbox ::
  "((Message \<times> int option) list \<Rightarrow> (Message \<times> int option) list) \<Rightarrow> notifDB \<Rightarrow> string \<Rightarrow> string \<Rightarrow> int \<Rightarrow> int \<Rightarrow>
   (notifError, (Message \<times> int option) list \<times> int) result" where
  "ListInbox orderBy db company subject page pageSize =
     (if \<not> nul_free subject then Inl NotifDatabase else pageOf (orderBy (inboxRows db company subject)) page pageSize)"

definition recipientExists :: "notifDB \<Rightarrow> string \<Rightarrow> string \<Rightarrow> string \<Rightarrow> bool" where
  "recipientExists db message subject company \<longleftrightarrow>
     list_ex (\<lambda>r. rsMessageID r = message \<and> rsSubject r = subject) (ndRecipients db) \<and>
     list_ex (\<lambda>m. msID m = message \<and> msCompanyID m = company) (ndMessages db)"

definition markRow :: "int \<Rightarrow> string \<Rightarrow> string \<Rightarrow> Recipient \<Rightarrow> Recipient" where
  "markRow now message subject r =
     (if rsMessageID r = message \<and> rsSubject r = subject \<and> rsReadAt r = None then r\<lparr>rsReadAt := Some now\<rparr> else r)"

text \<open>Without a row to update and without a recipient the message is not found; with a recipient it
  has been read before. In both other cases the operation is recorded.\<close>

definition MarkRead ::
  "int \<Rightarrow> string \<Rightarrow> string \<Rightarrow> string \<Rightarrow> string \<Rightarrow> notifDB \<Rightarrow> (notifError, (Message \<times> int option) \<times> notifDB) result" where
  "MarkRead now actor company message subject db =
     (if \<not> nul_free subject then Inl NotifDatabase
      else if \<not> recipientExists db message subject company then Inl NotifRecipientNotFound
      else rbind (auditNotif actor ''notification.message.read'' (''notification_message:'' @ message)
               (db\<lparr>ndRecipients := map (markRow now message subject) (ndRecipients db)\<rparr>)) (\<lambda>db'.
        case (find (\<lambda>m. msID m = message) (ndMessages db'),
              find (\<lambda>r. rsMessageID r = message \<and> rsSubject r = subject) (ndRecipients db')) of
          (Some m, Some r) \<Rightarrow> Inr ((m, rsReadAt r), db')
        | _ \<Rightarrow> Inl NotifDatabase))"

section \<open>Targeted events\<close>

definition eventsSourceModulePattern :: "string \<Rightarrow> bool" where
  "eventsSourceModulePattern s = (case s of [] \<Rightarrow> False | c # cs \<Rightarrow> isLower c \<and> list_all keyChar cs \<and> length cs \<le> 55)"

definition eventsChannel :: "string \<Rightarrow> string \<Rightarrow> string \<Rightarrow> Channel" where
  "eventsChannel i company sourceModule =
     \<lparr>chID = i, chCompanyID = company, chKey = ''events-'' @ sourceModule, chLabel = ''Events: '' @ sourceModule,
      chKind = ''in_app'', chTarget = None\<rparr>"

text \<open>The upsert leaves an existing channel of that key as it is, whatever its kind.\<close>

definition provisionEvents :: "string \<Rightarrow> string \<Rightarrow> string \<Rightarrow> notifDB \<Rightarrow> (notifError, string \<times> notifDB) result" where
  "provisionEvents newID company sourceModule db =
     (case find (\<lambda>c. chCompanyID c = company \<and> chKey c = ''events-'' @ sourceModule) (ndChannels db) of
        Some c \<Rightarrow> Inr (chID c, db)
      | None \<Rightarrow>
          if channelExists db newID then Inl NotifDatabase
          else Inr (newID, db\<lparr>ndChannels := ndChannels db @ [eventsChannel newID company sourceModule]\<rparr>))"

text \<open>\<open>member\<close> answers for a recipient; an error counts as no membership. The inbox's primary key
  refuses a recipient that is named twice, and no unique violation is told apart here.\<close>

definition confirmedOf :: "(string \<Rightarrow> (string, bool) result) \<Rightarrow> string list \<Rightarrow> string list" where
  "confirmedOf member recipients = filter (\<lambda>s. member s = Inr True) recipients"

definition SendTargetedEvent ::
  "(string \<Rightarrow> (string, bool) result) \<Rightarrow> fresh \<Rightarrow> string \<Rightarrow> string \<Rightarrow> string \<Rightarrow> string \<Rightarrow> string \<Rightarrow> string list \<Rightarrow> notifDB \<Rightarrow>
   (notifError, (nat \<times> nat) \<times> notifDB) result" where
  "SendTargetedEvent member fr actor company sourceModule subjectLine body recipients db =
     (if \<not> eventsSourceModulePattern sourceModule then Inl (NotifValidation ''sourceModule'')
      else rbind (validateSubjectLineAndBody subjectLine body) (\<lambda>_.
        if recipients = [] then Inl (NotifValidation ''recipientKcSubs'')
        else
          let confirmed = confirmedOf member recipients; skipped = length recipients - length confirmed in
          if confirmed = [] then Inr ((0, skipped), db)
          else rbind (provisionEvents (frChannel fr) company sourceModule db) (\<lambda>(channel, db1).
            case insertMessage (newMessage (frMessage fr) company channel subjectLine body actor None None) db1 of
              Inl _ \<Rightarrow> Inl NotifDatabase
            | Inr db2 \<Rightarrow>
                if \<not> list_all nul_free confirmed \<or> \<not> distinct confirmed then Inl NotifDatabase
                else rbind (auditChannel actor ''notification.event.send'' channel
                    (db2\<lparr>ndRecipients := ndRecipients db2 @ map (recipientRow (frMessage fr)) confirmed\<rparr>))
                  (\<lambda>db3. Inr ((length confirmed, skipped), db3)))))"

section \<open>Committed operations\<close>

text \<open>Rows of channels never change and their ids are not used again, so a channel that an earlier
  state and the present one both hold is the same row.\<close>

definition sameChannels :: "notifDB \<Rightarrow> notifDB \<Rightarrow> bool" where
  "sameChannels pre db \<longleftrightarrow> (\<forall>c \<in> set (ndChannels pre). \<forall>d \<in> set (ndChannels db). chID c = chID d \<longrightarrow> c = d)"

text \<open>The workers change neither which jobs there are nor what they deliver.\<close>

inductive notifStep :: "(string \<Rightarrow> string) \<Rightarrow> notifDB \<Rightarrow> notifDB \<Rightarrow> bool" for sha :: "string \<Rightarrow> string" where
  create_channel: "CreateChannel policy net newID actor company key label kind target db = Inr (c, db') \<Longrightarrow> notifStep sha db db'"
| delete_channel: "DeleteChannel actor company channel db = Inr db' \<Longrightarrow> notifStep sha db db'"
| subscribe: "Subscribe pre actor company channel subject email db = Inr db' \<Longrightarrow> notifStep sha db db'"
| unsubscribe: "Unsubscribe pre actor company channel subject db = Inr db' \<Longrightarrow> notifStep sha db db'"
| send_message: "SendMessage sha claimGroup fr pre look actor company channel subjectLine body key db = Inr (r, db') \<Longrightarrow>
    sameChannels pre db \<Longrightarrow> notifStep sha db db'"
| send_event: "SendTargetedEvent member fr actor company sourceModule subjectLine body recipients db = Inr (n, db') \<Longrightarrow> notifStep sha db db'"
| mark_read: "MarkRead now actor company message subject db = Inr (r, db') \<Longrightarrow> notifStep sha db db'"
| work: "list_all2 sameJob (ndJobs db) jobs \<Longrightarrow> notifStep sha db (db\<lparr>ndJobs := jobs\<rparr>)"

section \<open>The invariant of the tables\<close>

definition channelOK :: "Channel \<Rightarrow> bool" where
  "channelOK c \<longleftrightarrow> channelKeyPattern (chKey c) \<and> 1 \<le> length (chLabel c) \<and> length (chLabel c) \<le> 120 \<and> validKind (chKind c) \<and>
     (chKind c = ''webhook'' \<longrightarrow> (\<exists>t. chTarget c = Some t \<and> t \<noteq> []))"

definition channelsOK :: "Channel list \<Rightarrow> bool" where
  "channelsOK cs \<longleftrightarrow> distinct (map chID cs) \<and> distinct (map (\<lambda>c. (chCompanyID c, chKey c)) cs) \<and> (\<forall>c \<in> set cs. channelOK c)"

definition subscriptionsOK :: "Channel list \<Rightarrow> Subscription list \<Rightarrow> bool" where
  "subscriptionsOK cs ss \<longleftrightarrow> distinct (map (\<lambda>s. (sbChannelID s, sbSubject s)) ss) \<and> sbChannelID ` set ss \<subseteq> chID ` set cs"

definition messageOK :: "(string \<Rightarrow> string) \<Rightarrow> Channel list \<Rightarrow> Message \<Rightarrow> bool" where
  "messageOK sha cs m \<longleftrightarrow> (msChannelID m, msCompanyID m) \<in> (\<lambda>c. (chID c, chCompanyID c)) ` set cs \<and>
     validateSubjectLineAndBody (msSubjectLine m) (msBody m) = Inr () \<and> nul_free (msBody m) \<and>
     (msIdemKey m = None \<and> msIdemHash m = None \<or> (\<exists>k. k \<noteq> [] \<and> msIdemKey m = Some k \<and>
        msIdemHash m = Some (idempotencyPayloadHash sha (msChannelID m) (msSubjectLine m) (msBody m))))"

definition keysUnique :: "Message list \<Rightarrow> bool" where
  "keysUnique ms \<longleftrightarrow> (\<forall>m \<in> set ms. \<forall>n \<in> set ms. msIdemKey m \<noteq> None \<longrightarrow> msIdemKey m = msIdemKey n \<longrightarrow>
     msChannelID m = msChannelID n \<longrightarrow> m = n)"

definition messagesOK :: "(string \<Rightarrow> string) \<Rightarrow> Channel list \<Rightarrow> Message list \<Rightarrow> bool" where
  "messagesOK sha cs ms \<longleftrightarrow> distinct (map msID ms) \<and> keysUnique ms \<and> (\<forall>m \<in> set ms. messageOK sha cs m)"

definition recipientsOK :: "Message list \<Rightarrow> Recipient list \<Rightarrow> bool" where
  "recipientsOK ms rs \<longleftrightarrow> distinct (map (\<lambda>r. (rsMessageID r, rsSubject r)) rs) \<and> rsMessageID ` set rs \<subseteq> msID ` set ms"

definition jobOK :: "DeliveryJob \<Rightarrow> bool" where
  "jobOK j \<longleftrightarrow> (jKind j = ''email'' \<or> jKind j = ''webhook'') \<and> jTarget j \<noteq> []"

definition jobsOK :: "Message list \<Rightarrow> DeliveryJob list \<Rightarrow> bool" where
  "jobsOK ms js \<longleftrightarrow> distinct (map jID js) \<and> jMessageID ` set js \<subseteq> msID ` set ms \<and> (\<forall>j \<in> set js. jobOK j)"

definition notifInv :: "(string \<Rightarrow> string) \<Rightarrow> notifDB \<Rightarrow> bool" where
  "notifInv sha db \<longleftrightarrow> channelsOK (ndChannels db) \<and> subscriptionsOK (ndChannels db) (ndSubscriptions db) \<and>
     messagesOK sha (ndChannels db) (ndMessages db) \<and> recipientsOK (ndMessages db) (ndRecipients db) \<and>
     jobsOK (ndMessages db) (ndJobs db)"

lemma notifInvI:
  "channelsOK (ndChannels db) \<Longrightarrow> subscriptionsOK (ndChannels db) (ndSubscriptions db) \<Longrightarrow>
   messagesOK sha (ndChannels db) (ndMessages db) \<Longrightarrow> recipientsOK (ndMessages db) (ndRecipients db) \<Longrightarrow>
   jobsOK (ndMessages db) (ndJobs db) \<Longrightarrow> notifInv sha db"
  by (simp add: notifInv_def)

lemma notifInvD:
  assumes "notifInv sha db"
  shows "channelsOK (ndChannels db)" "subscriptionsOK (ndChannels db) (ndSubscriptions db)"
    "messagesOK sha (ndChannels db) (ndMessages db)" "recipientsOK (ndMessages db) (ndRecipients db)"
    "jobsOK (ndMessages db) (ndJobs db)"
  using assms by (simp_all add: notifInv_def)

subsection \<open>Tables that grow\<close>

lemma channelsOK_add:
  assumes "channelsOK cs" and "channelOK c" and "\<not> list_ex (\<lambda>x. chID x = chID c \<or> chCompanyID x = chCompanyID c \<and> chKey x = chKey c) cs"
  shows "channelsOK (cs @ [c])"
  using assms by (auto simp: channelsOK_def list_ex_iff)

lemma subscriptionsOK_more: "subscriptionsOK cs ss \<Longrightarrow> set cs \<subseteq> set ds \<Longrightarrow> subscriptionsOK ds ss"
  unfolding subscriptionsOK_def by blast

lemma messageOK_more: "messageOK sha cs m \<Longrightarrow> set cs \<subseteq> set ds \<Longrightarrow> messageOK sha ds m"
  unfolding messageOK_def by blast

lemma messagesOK_more: "messagesOK sha cs ms \<Longrightarrow> set cs \<subseteq> set ds \<Longrightarrow> messagesOK sha ds ms"
  unfolding messagesOK_def using messageOK_more by blast

lemma recipientsOK_more: "recipientsOK ms rs \<Longrightarrow> set ms \<subseteq> set ns \<Longrightarrow> recipientsOK ns rs"
  unfolding recipientsOK_def by blast

lemma jobsOK_more: "jobsOK ms js \<Longrightarrow> set ms \<subseteq> set ns \<Longrightarrow> jobsOK ns js"
  unfolding jobsOK_def by blast

lemma subscriptionsOK_upsert:
  assumes "subscriptionsOK cs ss" and "channel \<in> chID ` set cs"
  shows "subscriptionsOK cs (upsertSubscription channel subject email ss)"
proof (cases "list_ex (subscribed channel subject) ss")
  case True
  let ?f = "\<lambda>s. if subscribed channel subject s then s\<lparr>sbEmail := email, sbMuted := False\<rparr> else s"
  have "(\<lambda>s. (sbChannelID s, sbSubject s)) \<circ> ?f = (\<lambda>s. (sbChannelID s, sbSubject s))" by auto
  then show ?thesis using True assms by (auto simp: subscriptionsOK_def upsertSubscription_def)
next
  case False
  then show ?thesis using assms by (auto simp: subscriptionsOK_def upsertSubscription_def list_ex_iff subscribed_def)
qed

subsection \<open>Tables that shrink\<close>

lemma keysUnique_subset: "keysUnique ms \<Longrightarrow> set ns \<subseteq> set ms \<Longrightarrow> keysUnique ns"
  unfolding keysUnique_def by blast

lemma messageOK_without:
  "messageOK sha cs m \<Longrightarrow> msChannelID m \<noteq> channel \<Longrightarrow>
   messageOK sha (filter (\<lambda>c. \<not> (chCompanyID c = company \<and> chID c = channel)) cs) m"
  by (auto simp: messageOK_def image_iff)

lemma messagesOK_cascade:
  assumes "messagesOK sha cs ms"
  shows "messagesOK sha (filter (\<lambda>c. \<not> (chCompanyID c = company \<and> chID c = channel)) cs)
    (filter (\<lambda>m. msID m \<notin> msID ` set (filter (\<lambda>m. msChannelID m = channel) ms)) ms)"
proof -
  have "msChannelID m \<noteq> channel" if "m \<in> set ms" "msID m \<notin> msID ` set (filter (\<lambda>m. msChannelID m = channel) ms)" for m
    using that by auto
  then show ?thesis using assms messageOK_without [of sha cs _ channel company]
    by (auto simp: messagesOK_def distinct_map_filter intro: keysUnique_subset)
qed

lemma recipientsOK_cascade:
  "recipientsOK ms rs \<Longrightarrow> recipientsOK (filter (\<lambda>m. msID m \<notin> gone) ms) (filter (\<lambda>r. rsMessageID r \<notin> gone) rs)"
  by (auto simp: recipientsOK_def distinct_map_filter)

lemma jobsOK_cascade:
  "jobsOK ms js \<Longrightarrow> jobsOK (filter (\<lambda>m. msID m \<notin> gone) ms) (filter (\<lambda>j. jMessageID j \<notin> gone) js)"
  by (auto simp: jobsOK_def distinct_map_filter)

section \<open>Every operation keeps the invariant\<close>

lemma auditNotif_Inr: "auditNotif actor action subject db = Inr db' \<longleftrightarrow>
    nul_free actor \<and> db' = db\<lparr>ndAudit := ndAudit db @ [(actor, action, subject)]\<rparr>"
  by (auto simp: auditNotif_def)

lemma auditChannel_Inr: "auditChannel actor action channel db = Inr db' \<longleftrightarrow>
    nul_free actor \<and> db' = db\<lparr>ndAudit := ndAudit db @ [(actor, action, ''notification_channel:'' @ channel)]\<rparr>"
  by (simp add: auditChannel_def auditNotif_Inr)

lemmas audit_Inr = auditNotif_Inr auditChannel_Inr

lemma notifInv_audit [simp]: "notifInv sha (db\<lparr>ndAudit := x\<rparr>) = notifInv sha db"
  by (simp add: notifInv_def)

lemma channelExists_iff: "channelExists db channel \<longleftrightarrow> channel \<in> chID ` set (ndChannels db)"
  by (auto simp: channelExists_def list_ex_iff)

lemma GetChannel_Inr:
  "GetChannel db company channel = Inr c \<Longrightarrow> c \<in> set (ndChannels db) \<and> chID c = channel \<and> chCompanyID c = company"
  by (auto simp: GetChannel_def find_Some_iff in_set_conv_nth split: option.splits)

lemma validateChannel_ok:
  "validateChannel policy net key label kind target = Inr () \<Longrightarrow>
   channelOK \<lparr>chID = i, chCompanyID = company, chKey = key, chLabel = label, chKind = kind, chTarget = target\<rparr>"
  by (auto simp: validateChannel_def channelOK_def not_less Suc_le_eq split: if_splits option.splits)

lemma notifInv_channels_grow:
  assumes "notifInv sha db" and "channelsOK (ndChannels db @ [c])"
  shows "notifInv sha (db\<lparr>ndChannels := ndChannels db @ [c]\<rparr>)"
  using notifInvD [OF assms(1)] assms(2)
  by (intro notifInvI) (auto intro: subscriptionsOK_more messagesOK_more)

lemma CreateChannel_inv:
  assumes "CreateChannel policy net newID actor company key label kind target db = Inr (c, db')" and "notifInv sha db"
  shows "notifInv sha db'"
proof -
  have v: "validateChannel policy net key label kind target = Inr ()"
    and fresh: "\<not> list_ex (\<lambda>x. chID x = newID \<or> chCompanyID x = company \<and> chKey x = key) (ndChannels db)"
    and db': "db' = db\<lparr>ndChannels := ndChannels db @ [c], ndAudit := ndAudit db'\<rparr>"
    and c: "c = \<lparr>chID = newID, chCompanyID = company, chKey = key, chLabel = label, chKind = kind, chTarget = target\<rparr>"
    using assms(1) by (auto simp: CreateChannel_def rbind_Inr_iff audit_Inr Let_def split: if_splits)
  have "channelsOK (ndChannels db @ [c])"
    using channelsOK_add [OF notifInvD(1) [OF assms(2)], of c] validateChannel_ok [OF v] fresh by (simp add: c)
  then have "notifInv sha (db\<lparr>ndChannels := ndChannels db @ [c]\<rparr>)" by (rule notifInv_channels_grow [OF assms(2)])
  then show ?thesis by (subst db') simp
qed

lemma DeleteChannel_inv:
  assumes "DeleteChannel actor company channel db = Inr db'" and "notifInv sha db"
  shows "notifInv sha db'"
proof -
  let ?cs = "filter (\<lambda>c. \<not> (chCompanyID c = company \<and> chID c = channel)) (ndChannels db)"
  have db': "db' = (cascadeMessages (messagesOf db channel)
     (db\<lparr>ndChannels := ?cs, ndSubscriptions := filter (\<lambda>s. sbChannelID s \<noteq> channel) (ndSubscriptions db)\<rparr>))\<lparr>ndAudit := ndAudit db'\<rparr>"
    using assms(1) by (auto simp: DeleteChannel_def audit_Inr split: if_splits)
  note i = notifInvD [OF assms(2)]
  have cs: "channelsOK ?cs" using i(1) by (auto simp: channelsOK_def distinct_map_filter)
  have ss: "subscriptionsOK ?cs (filter (\<lambda>s. sbChannelID s \<noteq> channel) (ndSubscriptions db))"
  proof -
    have "sbChannelID s \<in> chID ` set ?cs" if "s \<in> set (ndSubscriptions db)" "sbChannelID s \<noteq> channel" for s
    proof -
      obtain c where "c \<in> set (ndChannels db)" "chID c = sbChannelID s"
        using i(2) \<open>s \<in> set (ndSubscriptions db)\<close> unfolding subscriptionsOK_def by force
      then show ?thesis using that by (intro image_eqI [of _ _ c]) auto
    qed
    then show ?thesis using i(2) by (auto simp: subscriptionsOK_def distinct_map_filter)
  qed
  show ?thesis
    by (subst db', unfold notifInv_audit, rule notifInvI)
       (use cs ss messagesOK_cascade [OF i(3)] recipientsOK_cascade [OF i(4)] jobsOK_cascade [OF i(5)] in
         \<open>simp_all add: cascadeMessages_def messagesOf_def\<close>)
qed

lemma notifInv_subscriptions:
  "notifInv sha db \<Longrightarrow> subscriptionsOK (ndChannels db) ss \<Longrightarrow> notifInv sha (db\<lparr>ndSubscriptions := ss\<rparr>)"
  by (auto simp: notifInv_def)

lemma Subscribe_inv:
  assumes "Subscribe pre actor company channel subject email db = Inr db'" and "notifInv sha db"
  shows "notifInv sha db'"
proof -
  have "channelExists db channel" "db' = db\<lparr>ndSubscriptions := upsertSubscription channel subject email (ndSubscriptions db), ndAudit := ndAudit db'\<rparr>"
    using assms(1) by (auto simp: Subscribe_def rbind_Inr_iff audit_Inr split: if_splits)
  then have "notifInv sha (db\<lparr>ndSubscriptions := upsertSubscription channel subject email (ndSubscriptions db)\<rparr>)"
    using assms(2) notifInvD(2) [OF assms(2)] by (intro notifInv_subscriptions subscriptionsOK_upsert) (auto simp: channelExists_iff)
  then show ?thesis by (subst \<open>db' = _\<close>) simp
qed

lemma Unsubscribe_inv:
  assumes "Unsubscribe pre actor company channel subject db = Inr db'" and "notifInv sha db"
  shows "notifInv sha db'"
proof -
  have db': "db' = db\<lparr>ndSubscriptions := filter (\<lambda>s. \<not> subscribed channel subject s) (ndSubscriptions db), ndAudit := ndAudit db'\<rparr>"
    using assms(1) by (auto simp: Unsubscribe_def rbind_Inr_iff audit_Inr split: if_splits)
  have "subscriptionsOK (ndChannels db) (filter (\<lambda>s. \<not> subscribed channel subject s) (ndSubscriptions db))"
    using notifInvD(2) [OF assms(2)] by (auto simp: subscriptionsOK_def distinct_map_filter)
  then have "notifInv sha (db\<lparr>ndSubscriptions := filter (\<lambda>s. \<not> subscribed channel subject s) (ndSubscriptions db)\<rparr>)"
    by (rule notifInv_subscriptions [OF assms(2)])
  then show ?thesis by (subst db') simp
qed

text \<open>A new message with its recipients and jobs.\<close>

lemma insertMessage_Inr:
  assumes "insertMessage m db = Inr db'"
  shows "db' = db\<lparr>ndMessages := ndMessages db @ [m]\<rparr>" "channelExists db (msChannelID m)" "msID m \<notin> msID ` set (ndMessages db)"
    "nul_free (msBody m)" "\<And>k x. msIdemKey m = Some k \<Longrightarrow> x \<in> set (ndMessages db) \<Longrightarrow> \<not> hasIdemKey (msChannelID m) k x"
  using assms by (auto simp: insertMessage_def list_ex_iff split: if_splits option.splits)

lemma insertMessage_inv:
  assumes ins: "insertMessage m db = Inr db1" and inv: "notifInv sha db" and ok: "messageOK sha (ndChannels db) m"
    and rs: "distinct (map rsSubject rs)" "rsMessageID ` set rs \<subseteq> {msID m}"
    and js: "distinct (map jID (ndJobs db @ js))" "jMessageID ` set js \<subseteq> {msID m}" "\<forall>j \<in> set js. jobOK j"
  shows "notifInv sha (db1\<lparr>ndRecipients := ndRecipients db @ rs, ndJobs := ndJobs db @ js\<rparr>)"
proof -
  note i = notifInvD [OF inv] and e = insertMessage_Inr [OF ins]
  have "keysUnique (ndMessages db @ [m])"
    using i(3) e(5) unfolding messagesOK_def keysUnique_def hasIdemKey_def by force
  then have ms: "messagesOK sha (ndChannels db) (ndMessages db @ [m])"
    using i(3) e(3) ok by (auto simp: messagesOK_def)
  have new: "rsMessageID r = msID m" if "r \<in> set rs" for r using rs(2) that by auto
  have old: "rsMessageID r \<noteq> msID m" if "r \<in> set (ndRecipients db)" for r
    using that i(4) e(3) unfolding recipientsOK_def by (metis image_eqI subsetD)
  have "distinct (map (\<lambda>r. (rsMessageID r, rsSubject r)) rs)"
    using rs(1) new by (auto simp: distinct_map inj_on_def)
  moreover have "(\<lambda>r. (rsMessageID r, rsSubject r)) ` set (ndRecipients db) \<inter> (\<lambda>r. (rsMessageID r, rsSubject r)) ` set rs = {}"
    using new old by auto
  ultimately have "recipientsOK (ndMessages db @ [m]) (ndRecipients db @ rs)"
    using i(4) rs(2) by (auto simp: recipientsOK_def)
  moreover have "jobsOK (ndMessages db @ [m]) (ndJobs db @ js)"
    using i(5) js by (auto simp: jobsOK_def)
  ultimately show ?thesis using i ms by (intro notifInvI) (simp_all add: e(1))
qed

lemma validate_Inr: "validateSubjectLineAndBody s b = Inr u \<longleftrightarrow> validateSubjectLineAndBody s b = Inr ()"
  by simp

lemma newMessage_simps [simp]:
  "msID (newMessage i co ch s b a k h) = i" "msCompanyID (newMessage i co ch s b a k h) = co"
  "msChannelID (newMessage i co ch s b a k h) = ch" "msSubjectLine (newMessage i co ch s b a k h) = s"
  "msBody (newMessage i co ch s b a k h) = b" "msCreatedBy (newMessage i co ch s b a k h) = a"
  "msIdemKey (newMessage i co ch s b a k h) = k" "msIdemHash (newMessage i co ch s b a k h) = h"
  by (simp_all add: newMessage_def)

lemma emailJobs_set:
  "kt \<in> set (emailJobs channel subs) \<longleftrightarrow>
     chKind channel = ''email'' \<and> (\<exists>s \<in> set subs. \<exists>e. sbEmail s = Some e \<and> e \<noteq> [] \<and> kt = (''email'', e))"
  by (auto simp: emailJobs_def List.map_filter_def image_iff split: option.splits if_splits)

lemma webhookJobs_set:
  "kt \<in> set (webhookJobs channel) \<longleftrightarrow>
     chKind channel = ''webhook'' \<and> (\<exists>t. chTarget channel = Some t \<and> t \<noteq> [] \<and> kt = (''webhook'', t))"
  by (auto simp: webhookJobs_def split: option.splits)

lemma map2_set: "x \<in> set (map2 f xs ys) \<Longrightarrow> \<exists>a b. b \<in> set ys \<and> x = f a b"
  by (auto dest: set_zip_rightD)

lemma jobsOf_set:
  assumes "j \<in> set (jobsOf claimGroup now jobID channel message subs)"
  shows "jMessageID j = message" "newJob j" "jClaimGroup j = claimGroup"
    "(jKind j, jTarget j) \<in> set (emailJobs channel subs @ webhookJobs channel)"
proof -
  obtain a kt where "kt \<in> set (emailJobs channel subs @ webhookJobs channel)" "j = enqueueJob claimGroup now message a kt"
    using map2_set [of j "enqueueJob claimGroup now message"] assms unfolding jobsOf_def Let_def by blast
  then show "jMessageID j = message" "newJob j" "jClaimGroup j = claimGroup"
    "(jKind j, jTarget j) \<in> set (emailJobs channel subs @ webhookJobs channel)"
    by (simp_all add: enqueueJob_def newJob_def)
qed

lemma jobsOf_ok: "j \<in> set (jobsOf claimGroup now jobID channel message subs) \<Longrightarrow> jobOK j"
  using jobsOf_set(4) [of j] by (auto simp: jobOK_def emailJobs_set webhookJobs_set)

lemma sendTx_Inr:
  assumes "sendTx claimGroup fr actor channel m db = Inr (r, db')"
  obtains db1 jobs subs where "insertMessage m db = Inr db1" "r = (m, True)" "subs = subscribersOf db (msChannelID m)"
    "jobs = jobsOf claimGroup (frNow fr) (frJob fr) channel (msID m) subs" "distinct (map jID (ndJobs db @ jobs))"
    "db' = db1\<lparr>ndRecipients := ndRecipients db @ map (\<lambda>s. recipientRow (msID m) (sbSubject s)) subs,
       ndJobs := ndJobs db @ jobs, ndAudit := ndAudit db'\<rparr>"
proof -
  obtain db1 where ins: "insertMessage m db = Inr db1"
    using assms by (auto simp: sendTx_def rbind_Inr_iff)
  have "subscribersOf db1 ch = subscribersOf db ch" "ndJobs db1 = ndJobs db" "ndRecipients db1 = ndRecipients db" for ch
    using insertMessage_Inr(1) [OF ins] by (simp_all add: subscribersOf_def)
  then show thesis using assms ins
    by (intro that [OF ins _ refl refl]) (auto simp: sendTx_def Let_def rbind_Inr_iff audit_Inr split: if_splits)
qed

lemma subscribersOf_distinct:
  "subscriptionsOK cs (ndSubscriptions db) \<Longrightarrow> distinct (map sbSubject (subscribersOf db channel))"
  by (auto simp: subscriptionsOK_def subscribersOf_def distinct_map inj_on_def)

lemma sendTx_inv:
  assumes "sendTx claimGroup fr actor channel m db = Inr (r, db')" and inv: "notifInv sha db"
    and ok: "messageOK sha (ndChannels db) m \<or> \<not> channelExists db (msChannelID m)"
  shows "notifInv sha db'"
proof -
  obtain db1 jobs subs where tx: "insertMessage m db = Inr db1" "subs = subscribersOf db (msChannelID m)"
    "jobs = jobsOf claimGroup (frNow fr) (frJob fr) channel (msID m) subs" "distinct (map jID (ndJobs db @ jobs))"
    "db' = db1\<lparr>ndRecipients := ndRecipients db @ map (\<lambda>s. recipientRow (msID m) (sbSubject s)) subs,
       ndJobs := ndJobs db @ jobs, ndAudit := ndAudit db'\<rparr>"
    by (rule sendTx_Inr [OF assms(1)]) blast
  have "messageOK sha (ndChannels db) m" using ok insertMessage_Inr(2) [OF tx(1)] by blast
  moreover have "distinct (map rsSubject (map (\<lambda>s. recipientRow (msID m) (sbSubject s)) subs))"
    using subscribersOf_distinct [OF notifInvD(2) [OF inv]] by (simp add: tx(2) recipientRow_def comp_def)
  moreover have "rsMessageID ` set (map (\<lambda>s. recipientRow (msID m) (sbSubject s)) subs) \<subseteq> {msID m}"
    by (auto simp: recipientRow_def)
  moreover have "jMessageID ` set jobs \<subseteq> {msID m}" "\<forall>j \<in> set jobs. jobOK j"
    using jobsOf_set(1) jobsOf_ok by (auto simp: tx(3))
  ultimately have "notifInv sha (db1\<lparr>ndRecipients := ndRecipients db @ map (\<lambda>s. recipientRow (msID m) (sbSubject s)) subs,
       ndJobs := ndJobs db @ jobs\<rparr>)"
    using insertMessage_inv [OF tx(1) inv] tx(4) by blast
  then show ?thesis by (subst tx(5)) simp
qed

lemma SendMessage_Inr:
  assumes "SendMessage sha claimGroup fr pre look actor company channelID subjectLine body key db = Inr (r, db')"
  obtains (replayed) m where "key \<noteq> []" "findByIdempotencyKey look channelID key = Inr (Some (m, idempotencyPayloadHash sha channelID subjectLine body))"
      "r = (m, False)" "db' = db" "validateSubjectLineAndBody subjectLine body = Inr ()"
  | (sent) channel m where "GetChannel pre company channelID = Inr channel" "validateSubjectLineAndBody subjectLine body = Inr ()"
      "m = newMessage (frMessage fr) company channelID subjectLine body actor (if key = [] then None else Some key)
         (if key = [] then None else Some (idempotencyPayloadHash sha channelID subjectLine body))"
      "sendTx claimGroup fr actor channel m db = Inr (r, db')" "key = [] \<or> findByIdempotencyKey look channelID key = Inr None"
proof -
  obtain channel where v: "validateSubjectLineAndBody subjectLine body = Inr ()" and g: "GetChannel pre company channelID = Inr channel"
    using assms by (auto simp: SendMessage_def rbind_Inr_iff)
  show thesis
  proof (cases "key = []")
    case True
    then show thesis using assms v g by (intro sent [OF g v refl]) (simp_all add: SendMessage_def)
  next
    case False
    obtain found where f: "findByIdempotencyKey look channelID key = Inr found"
      using assms v g False by (auto simp: SendMessage_def Let_def rbind_Inr_iff)
    show thesis
    proof (cases found)
      case None
      then show thesis using assms v g f False by (intro sent [OF g v refl]) (simp_all add: SendMessage_def Let_def)
    next
      case (Some x)
      then show thesis using assms v g f False
        by (intro replayed [of "fst x"]) (auto simp: SendMessage_def Let_def split: prod.splits if_splits)
    qed
  qed
qed

lemma SendMessage_inv:
  assumes "SendMessage sha claimGroup fr pre look actor company channelID subjectLine body key db = Inr (r, db')"
    and same: "sameChannels pre db" and inv: "notifInv sha db"
  shows "notifInv sha db'"
  using assms(1)
proof (cases rule: SendMessage_Inr)
  case (replayed m)
  then show ?thesis using inv by simp
next
  case (sent channel m)
  have "messageOK sha (ndChannels db) m" if ex: "channelExists db (msChannelID m)" and nf: "nul_free body"
  proof -
    obtain d where "d \<in> set (ndChannels db)" "chID d = channelID"
      using ex sent(3) by (auto simp: channelExists_iff)
    then have "channel \<in> set (ndChannels db)" "chID channel = channelID" "chCompanyID channel = company"
      using same GetChannel_Inr [OF sent(1)] by (auto simp: sameChannels_def)
    then have "(channelID, company) \<in> (\<lambda>c. (chID c, chCompanyID c)) ` set (ndChannels db)"
      by (intro image_eqI [of _ _ channel]) auto
    then show ?thesis using sent(2) nf by (simp add: messageOK_def sent(3))
  qed
  moreover obtain db1 where "insertMessage m db = Inr db1" using sent(4) by (auto simp: sendTx_def rbind_Inr_iff)
  ultimately have "messageOK sha (ndChannels db) m"
    using insertMessage_Inr(2,4) [of m db db1] sent(3) by simp
  then show ?thesis using sendTx_inv [OF sent(4) inv] by blast
qed

lemma keyChar_events: "list_all keyChar ''vents-''" "isLower CHR ''e''"
  by code_simp+

lemma eventsChannel_ok: "eventsSourceModulePattern sourceModule \<Longrightarrow> channelOK (eventsChannel i company sourceModule)"
  using keyChar_events
  by (auto simp: eventsSourceModulePattern_def channelOK_def eventsChannel_def channelKeyPattern_def validKind_def keyChar_def
      split: list.splits)

lemma provisionEvents_cases:
  assumes "provisionEvents newID company sourceModule db = Inr (channel, db1)"
  obtains (old) c where "c \<in> set (ndChannels db)" "chCompanyID c = company" "channel = chID c" "db1 = db"
  | (new) "\<not> list_ex (\<lambda>x. chID x = newID \<or> chCompanyID x = company \<and> chKey x = ''events-'' @ sourceModule) (ndChannels db)"
      "channel = newID" "db1 = db\<lparr>ndChannels := ndChannels db @ [eventsChannel newID company sourceModule]\<rparr>"
proof (cases "find (\<lambda>c. chCompanyID c = company \<and> chKey c = ''events-'' @ sourceModule) (ndChannels db)")
  case None
  then have "\<not> channelExists db newID" "channel = newID"
    "db1 = db\<lparr>ndChannels := ndChannels db @ [eventsChannel newID company sourceModule]\<rparr>"
    using assms by (auto simp: provisionEvents_def split: if_splits)
  moreover have "\<not> (chCompanyID x = company \<and> chKey x = ''events-'' @ sourceModule)" if "x \<in> set (ndChannels db)" for x
    using None that unfolding find_None_iff by blast
  ultimately show thesis by (intro new) (auto simp: list_ex_iff channelExists_def)
next
  case (Some c)
  then have "c \<in> set (ndChannels db)" "chCompanyID c = company" by (auto simp: find_Some_iff in_set_conv_nth)
  then show thesis using assms Some by (intro old [of c]) (simp_all add: provisionEvents_def)
qed

lemma provisionEvents_inv:
  assumes "provisionEvents newID company sourceModule db = Inr (channel, db1)" and "eventsSourceModulePattern sourceModule" and "notifInv sha db"
  shows "notifInv sha db1"
  using assms(1)
proof (cases rule: provisionEvents_cases)
  case new
  then have "channelsOK (ndChannels db @ [eventsChannel newID company sourceModule])"
    using notifInvD(1) [OF assms(3)] eventsChannel_ok [OF assms(2), of newID company]
    by (intro channelsOK_add) (simp_all add: eventsChannel_def)
  then show ?thesis using new notifInv_channels_grow [OF assms(3)] by simp
qed (use assms(3) in simp)

lemma provisionEvents_channel:
  assumes "provisionEvents newID company sourceModule db = Inr (channel, db1)"
  shows "(channel, company) \<in> (\<lambda>c. (chID c, chCompanyID c)) ` set (ndChannels db1)"
    "ndRecipients db1 = ndRecipients db" "ndJobs db1 = ndJobs db" "ndMessages db1 = ndMessages db"
  using assms by (cases rule: provisionEvents_cases; force simp: eventsChannel_def)+

lemma SendTargetedEvent_Inr:
  assumes "SendTargetedEvent member fr actor company sourceModule subjectLine body recipients db = Inr (n, db')"
  obtains (nobody) "confirmedOf member recipients = []" "n = (0, length recipients)" "db' = db"
  | (sent) channel db1 db2 m where "confirmedOf member recipients \<noteq> []" "distinct (confirmedOf member recipients)"
      "provisionEvents (frChannel fr) company sourceModule db = Inr (channel, db1)" "eventsSourceModulePattern sourceModule"
      "m = newMessage (frMessage fr) company channel subjectLine body actor None None" "insertMessage m db1 = Inr db2"
      "validateSubjectLineAndBody subjectLine body = Inr ()"
      "n = (length (confirmedOf member recipients), length recipients - length (confirmedOf member recipients))"
      "db' = db2\<lparr>ndRecipients := ndRecipients db2 @ map (recipientRow (frMessage fr)) (confirmedOf member recipients), ndAudit := ndAudit db'\<rparr>"
proof (cases "confirmedOf member recipients = []")
  case True
  then show thesis using assms by (intro nobody) (auto simp: SendTargetedEvent_def rbind_Inr_iff split: if_splits)
next
  case False
  obtain channel db1 where p: "provisionEvents (frChannel fr) company sourceModule db = Inr (channel, db1)"
    using assms False by (auto simp: SendTargetedEvent_def Let_def rbind_Inr_iff split: if_splits)
  obtain db2 where i: "insertMessage (newMessage (frMessage fr) company channel subjectLine body actor None None) db1 = Inr db2"
    using assms False p by (auto simp: SendTargetedEvent_def Let_def rbind_Inr_iff split: if_splits sum.splits)
  show thesis using assms False p i
    by (intro sent [OF False _ p _ refl i])
       (auto simp: SendTargetedEvent_def Let_def rbind_Inr_iff audit_Inr split: if_splits)
qed

lemma SendTargetedEvent_inv:
  assumes "SendTargetedEvent member fr actor company sourceModule subjectLine body recipients db = Inr (n, db')" and inv: "notifInv sha db"
  shows "notifInv sha db'"
  using assms(1)
proof (cases rule: SendTargetedEvent_Inr)
  case nobody
  then show ?thesis using inv by simp
next
  case (sent channel db1 db2 m)
  note pr = provisionEvents_inv [OF sent(3,4) inv] provisionEvents_channel [OF sent(3)]
  have "messageOK sha (ndChannels db1) m"
    using pr(2) sent(7) insertMessage_Inr(4) [OF sent(6)] by (simp add: messageOK_def sent(5))
  then have "notifInv sha (db2\<lparr>ndRecipients := ndRecipients db1 @ map (recipientRow (frMessage fr)) (confirmedOf member recipients),
      ndJobs := ndJobs db1 @ []\<rparr>)"
    using sent(2,5) notifInvD(5) [OF pr(1)]
    by (intro insertMessage_inv [OF sent(6) pr(1)]) (auto simp: recipientRow_def comp_def jobsOK_def)
  moreover have "ndRecipients db2 = ndRecipients db1" "ndJobs db2 = ndJobs db1"
    using insertMessage_Inr(1) [OF sent(6)] by simp_all
  ultimately have "notifInv sha (db2\<lparr>ndRecipients := ndRecipients db2 @ map (recipientRow (frMessage fr)) (confirmedOf member recipients)\<rparr>)"
    by (simp add: notifInv_def)
  then show ?thesis by (subst sent(9)) simp
qed

lemma markRow_same [simp]: "rsMessageID (markRow now i s r) = rsMessageID r" "rsSubject (markRow now i s r) = rsSubject r"
  by (simp_all add: markRow_def)

lemma MarkRead_Inr:
  assumes "MarkRead now actor company message subject db = Inr (r, db')"
  shows "db' = db\<lparr>ndRecipients := map (markRow now message subject) (ndRecipients db), ndAudit := ndAudit db'\<rparr>"
    "recipientExists db message subject company" "nul_free subject"
    "\<exists>rc. find (\<lambda>m. msID m = message) (ndMessages db) = Some (fst r) \<and> snd r = rsReadAt rc \<and>
       find (\<lambda>r. rsMessageID r = message \<and> rsSubject r = subject) (map (markRow now message subject) (ndRecipients db)) = Some rc"
  using assms by (auto simp: MarkRead_def rbind_Inr_iff audit_Inr split: if_splits option.splits)

lemma MarkRead_inv:
  assumes "MarkRead now actor company message subject db = Inr (r, db')" and inv: "notifInv sha db"
  shows "notifInv sha db'"
proof -
  have "(\<lambda>r. (rsMessageID r, rsSubject r)) \<circ> markRow now message subject = (\<lambda>r. (rsMessageID r, rsSubject r))" by auto
  then have "recipientsOK (ndMessages db) (map (markRow now message subject) (ndRecipients db))"
    using notifInvD(4) [OF inv] by (simp add: recipientsOK_def image_image)
  then have "notifInv sha (db\<lparr>ndRecipients := map (markRow now message subject) (ndRecipients db)\<rparr>)"
    using notifInvD [OF inv] by (intro notifInvI) simp_all
  then show ?thesis by (subst MarkRead_Inr(1) [OF assms(1)]) simp
qed

lemma work_inv:
  assumes "list_all2 sameJob (ndJobs db) jobs" and inv: "notifInv sha db"
  shows "notifInv sha (db\<lparr>ndJobs := jobs\<rparr>)"
proof -
  have "map jID jobs = map jID (ndJobs db)"
    using assms(1) by (induction rule: list_all2_induct) (simp_all add: sameJob_def)
  moreover have "jMessageID ` set jobs = jMessageID ` set (ndJobs db) \<and> (\<forall>j \<in> set jobs. jobOK j) = (\<forall>j \<in> set (ndJobs db). jobOK j)"
    using assms(1) by (induction rule: list_all2_induct) (auto simp: sameJob_def jobOK_def)
  ultimately have "jobsOK (ndMessages db) jobs" using notifInvD(5) [OF inv] by (simp add: jobsOK_def)
  then show ?thesis using notifInvD [OF inv] by (intro notifInvI) simp_all
qed

lemma emptyNotif_inv: "notifInv sha emptyNotif"
  by (simp add: notifInv_def emptyNotif_def channelsOK_def subscriptionsOK_def messagesOK_def keysUnique_def recipientsOK_def jobsOK_def)

lemma notifStep_inv: "notifStep sha db db' \<Longrightarrow> notifInv sha db \<Longrightarrow> notifInv sha db'"
  by (induction rule: notifStep.induct)
     (blast intro: CreateChannel_inv DeleteChannel_inv Subscribe_inv Unsubscribe_inv SendMessage_inv SendTargetedEvent_inv
        MarkRead_inv work_inv)+

interpretation notif_system: invariant_system "notifStep sha" emptyNotif "notifInv sha" for sha
  by unfold_locales (fact emptyNotif_inv, blast intro: notifStep_inv)

section \<open>What arrives in an inbox\<close>

lemma concat_map_single:
  "distinct xs \<Longrightarrow> concat (map (\<lambda>x. if x = y then zs else []) xs) = (if y \<in> set xs then zs else [])"
  by (induction xs) auto

lemma inboxRows_new:
  assumes "recipientsOK (ndMessages db) (ndRecipients db)" and "msID m \<notin> msID ` set (ndMessages db)" and "distinct subjects"
    and "ndMessages db' = ndMessages db @ [m]" and "ndRecipients db' = ndRecipients db @ map (recipientRow (msID m)) subjects"
  shows "inboxRows db' company subject =
    inboxRows db company subject @ (if msCompanyID m = company \<and> subject \<in> set subjects then [(m, None)] else [])"
proof -
  let ?row = "\<lambda>ms r. if rsSubject r = subject
     then map (\<lambda>m. (m, rsReadAt r)) (filter (\<lambda>m. msID m = rsMessageID r \<and> msCompanyID m = company) ms) else []"
  have "?row (ndMessages db @ [m]) r = ?row (ndMessages db) r" if "r \<in> set (ndRecipients db)" for r
  proof -
    have "rsMessageID r \<in> msID ` set (ndMessages db)" using assms(1) that unfolding recipientsOK_def by blast
    then have "msID m \<noteq> rsMessageID r" using assms(2) by metis
    then show ?thesis by simp
  qed
  then have old: "concat (map (?row (ndMessages db @ [m])) (ndRecipients db)) = inboxRows db company subject"
    unfolding inboxRows_def by (intro arg_cong [of _ _ concat] map_cong) auto
  have "filter (\<lambda>x. msID x = msID m \<and> msCompanyID x = company) (ndMessages db) = []"
    using assms(2) by (metis (mono_tags, lifting) filter_False image_eqI)
  then have eq: "map (?row (ndMessages db @ [m])) (map (recipientRow (msID m)) subjects) =
      map (\<lambda>s. if s = subject then (if msCompanyID m = company then [(m, None)] else []) else []) subjects"
    by (simp add: recipientRow_def)
  have new: "concat (map (?row (ndMessages db @ [m])) (map (recipientRow (msID m)) subjects)) =
      (if msCompanyID m = company \<and> subject \<in> set subjects then [(m, None)] else [])"
    unfolding eq concat_map_single [OF assms(3)] by simp
  show ?thesis
    unfolding inboxRows_def assms(4,5) map_append concat_append
    using old new unfolding inboxRows_def by simp
qed

definition subscriberSet :: "notifDB \<Rightarrow> string \<Rightarrow> string set" where
  "subscriberSet db channel = {sbSubject s | s. s \<in> set (ndSubscriptions db) \<and> sbChannelID s = channel \<and> \<not> sbMuted s}"

lemma subscriberSet_eq: "subscriberSet db channel = sbSubject ` set (subscribersOf db channel)"
  by (auto simp: subscriberSet_def subscribersOf_def)

lemma sendTx_inbox:
  assumes "sendTx claimGroup fr actor channel m db = Inr (r, db')" and inv: "notifInv sha db"
  shows "inboxRows db' company subject = inboxRows db company subject @
    (if msCompanyID m = company \<and> subject \<in> subscriberSet db (msChannelID m) then [(m, None)] else [])"
proof -
  obtain db1 jobs subs where tx: "insertMessage m db = Inr db1" "subs = subscribersOf db (msChannelID m)"
    "db' = db1\<lparr>ndRecipients := ndRecipients db @ map (\<lambda>s. recipientRow (msID m) (sbSubject s)) subs,
       ndJobs := ndJobs db @ jobs, ndAudit := ndAudit db'\<rparr>"
    by (rule sendTx_Inr [OF assms(1)]) blast
  have "ndMessages db' = ndMessages db @ [m]" "ndRecipients db' = ndRecipients db @ map (recipientRow (msID m)) (map sbSubject subs)"
    using insertMessage_Inr(1) [OF tx(1)] by (subst tx(3), simp add: comp_def)+
  from inboxRows_new [OF notifInvD(4) [OF inv] insertMessage_Inr(3) [OF tx(1)] _ this] show ?thesis
    using subscribersOf_distinct [OF notifInvD(2) [OF inv]] tx(2) by (simp add: subscriberSet_eq)
qed

lemma event_inbox:
  assumes "SendTargetedEvent member fr actor company sourceModule subjectLine body recipients db = Inr (n, db')" and inv: "notifInv sha db"
  shows "\<exists>m. msBody m = body \<and> msSubjectLine m = subjectLine \<and> inboxRows db' co subject = inboxRows db co subject @
    (if co = company \<and> subject \<in> set recipients \<and> member subject = Inr True then [(m, None)] else [])"
  using assms(1)
proof (cases rule: SendTargetedEvent_Inr)
  case nobody
  then have "\<not> (subject \<in> set recipients \<and> member subject = Inr True)"
    by (auto simp: confirmedOf_def filter_empty_conv)
  then show ?thesis using nobody
    by (intro exI [of _ "newMessage [] [] [] subjectLine body [] None None"]) simp
next
  case (sent channel db1 db2 m)
  note pr = provisionEvents_inv [OF sent(3,4) inv] provisionEvents_channel [OF sent(3)]
  have "ndMessages db' = ndMessages db1 @ [m]"
    "ndRecipients db' = ndRecipients db1 @ map (recipientRow (msID m)) (confirmedOf member recipients)"
    using insertMessage_Inr(1) [OF sent(6)] by (subst sent(9), simp add: sent(5))+
  note new = inboxRows_new [OF notifInvD(4) [OF pr(1)] insertMessage_Inr(3) [OF sent(6)] sent(2) this, of co subject]
  have "inboxRows db1 co subject = inboxRows db co subject" unfolding inboxRows_def pr(3,5) ..
  then show ?thesis using new by (intro exI [of _ m]) (auto simp: sent(5) confirmedOf_def)
qed

section \<open>Replay\<close>

lemma no_nul_subject: "validateSubjectLineAndBody s b = Inr () \<Longrightarrow> nul_free s"
  by (auto simp: validateSubjectLineAndBody_def list_ex_iff controlChar_def nul_free_def nul_def split: if_splits)

definition sendPayload :: "string \<Rightarrow> string \<Rightarrow> string \<Rightarrow> string" where
  "sendPayload channel subjectLine body = channel @ [nul] @ subjectLine @ [nul] @ body"

lemma sendPayload_inj:
  assumes "validateSubjectLineAndBody s b = Inr ()" "validateSubjectLineAndBody s' b' = Inr ()"
    and "sendPayload channel s b = sendPayload channel s' b'"
  shows "s = s' \<and> b = b'"
  using append_nul_inject [OF no_nul_subject [OF assms(1)] no_nul_subject [OF assms(2)], of b b'] assms(3)
  by (simp add: sendPayload_def)

lemma find_SomeD: "find P xs = Some x \<Longrightarrow> x \<in> set xs \<and> P x"
  by (auto simp: find_Some_iff in_set_conv_nth)

lemma find_unique:
  assumes "x \<in> set xs" and "P x" and unique: "\<And>y. y \<in> set xs \<Longrightarrow> P y \<Longrightarrow> y = x"
  shows "find P xs = Some x"
proof (cases "find P xs")
  case None
  then show ?thesis using assms(1,2) unfolding find_None_iff by blast
next
  case (Some y)
  then show ?thesis using unique [of y] find_SomeD [OF Some] by blast
qed

lemma stored_key_found:
  assumes inv: "notifInv sha db" and "m \<in> set (ndMessages db)" and "msIdemKey m = Some key"
  shows "find (hasIdemKey (msChannelID m) key) (ndMessages db) = Some m"
proof (rule find_unique)
  show "hasIdemKey (msChannelID m) key m" using assms by (simp add: hasIdemKey_def)
  show "y = m" if "y \<in> set (ndMessages db)" "hasIdemKey (msChannelID m) key y" for y
    using that assms notifInvD(3) [OF inv] unfolding messagesOK_def keysUnique_def hasIdemKey_def by force
qed fact

lemma GetChannel_of_message:
  assumes "messageOK sha (ndChannels db) m"
  shows "\<exists>c. GetChannel db (msCompanyID m) (msChannelID m) = Inr c"
proof -
  obtain c where "c \<in> set (ndChannels db)" "chID c = msChannelID m" "chCompanyID c = msCompanyID m"
    using assms by (auto simp: messageOK_def)
  then have "find (\<lambda>c. chCompanyID c = msCompanyID m \<and> chID c = msChannelID m) (ndChannels db) \<noteq> None"
    unfolding find_None_iff by blast
  then show ?thesis by (auto simp: GetChannel_def split: option.splits)
qed

section \<open>Sends and the workers\<close>

text \<open>The jobs that a send inserts enter the job system by its own steps, and a deleted channel takes
  its jobs out by one.\<close>

lemma enqueue_all:
  assumes "\<forall>j \<in> set js. newJob j" and "distinct (map jID js)" and "jID ` set js \<inter> set (jsIDs s) = {}"
  shows "reaches (jobStep lease limit) s
    (s\<lparr>jsDB := (jsDB s)\<lparr>jdJobs := jdJobs (jsDB s) @ js\<rparr>, jsIDs := rev (map jID js) @ jsIDs s\<rparr>)"
  using assms
proof (induction js rule: rev_induct)
  case Nil
  then show ?case by (simp add: reaches_refl)
next
  case (snoc j js)
  let ?s = "s\<lparr>jsDB := (jsDB s)\<lparr>jdJobs := jdJobs (jsDB s) @ js\<rparr>, jsIDs := rev (map jID js) @ jsIDs s\<rparr>"
  have "reaches (jobStep lease limit) s ?s" using snoc by auto
  moreover have "jobStep lease limit ?s (?s\<lparr>jsDB := (jsDB ?s)\<lparr>jdJobs := jdJobs (jsDB ?s) @ [j]\<rparr>, jsIDs := jID j # jsIDs ?s\<rparr>)"
    using snoc.prems by (intro jobStep.enqueue) auto
  ultimately show ?case using reaches_step by fastforce
qed

lemma jobsOf_ids: "\<exists>n. map jID (jobsOf claimGroup now jobID channel message subs) = map jobID [0..<n]"
proof -
  have "map jID (map2 (enqueueJob claimGroup now message) ids kts) = ids" if "length ids = length kts" for ids kts
    using that by (induction ids kts rule: list_induct2) (auto simp: enqueueJob_def)
  then show ?thesis unfolding jobsOf_def Let_def by (metis length_map length_upt diff_zero)
qed

lemma send_is_job_run:
  assumes "SendMessage sha claimGroup fr pre look actor company channel subjectLine body key db = Inr (r, db')"
    and "jdJobs (jsDB s) = ndJobs db" and "range (frJob fr) \<inter> set (jsIDs s) = {}"
  shows "\<exists>s'. reaches (jobStep lease limit) s s' \<and> jdJobs (jsDB s') = ndJobs db'"
  using assms(1)
proof (cases rule: SendMessage_Inr)
  case (replayed m)
  then show ?thesis using assms(2) by (intro exI [of _ s]) (simp add: reaches_refl)
next
  case (sent ch m)
  obtain db1 jobs subs where "insertMessage m db = Inr db1" "r = (m, True)" "subs = subscribersOf db (msChannelID m)"
    and tx: "jobs = jobsOf claimGroup (frNow fr) (frJob fr) ch (msID m) subs" "distinct (map jID (ndJobs db @ jobs))"
    "db' = db1\<lparr>ndRecipients := ndRecipients db @ map (\<lambda>s. recipientRow (msID m) (sbSubject s)) subs,
       ndJobs := ndJobs db @ jobs, ndAudit := ndAudit db'\<rparr>"
    by (rule sendTx_Inr [OF sent(4)]) blast
  obtain n where "map jID jobs = map (frJob fr) [0..<n]" using jobsOf_ids unfolding tx(1) by blast
  then have "jID ` set jobs = frJob fr ` set [0..<n]" by (metis set_map)
  then have "jID ` set jobs \<subseteq> range (frJob fr)" by blast
  then have "jID ` set jobs \<inter> set (jsIDs s) = {}" using assms(3) by blast
  moreover have "\<forall>j \<in> set jobs. newJob j" using jobsOf_set(2) unfolding tx(1) by blast
  moreover have "distinct (map jID jobs)" using tx(2) by simp
  ultimately have run: "reaches (jobStep lease limit) s
      (s\<lparr>jsDB := (jsDB s)\<lparr>jdJobs := jdJobs (jsDB s) @ jobs\<rparr>, jsIDs := rev (map jID jobs) @ jsIDs s\<rparr>)"
    by (intro enqueue_all)
  have "ndJobs db' = jdJobs (jsDB s) @ jobs" by (subst tx(3)) (simp add: assms(2))
  then show ?thesis using run by (intro exI, intro conjI) (assumption, simp)
qed

lemma delete_is_job_step:
  assumes "DeleteChannel actor company channel db = Inr db'" and "jdJobs (jsDB s) = ndJobs db"
  shows "\<exists>s'. jobStep lease limit s s' \<and> jdJobs (jsDB s') = ndJobs db'"
proof -
  let ?gone = "map msID (filter (\<lambda>m. msChannelID m = channel) (ndMessages db))"
  have "ndJobs db' = filter (\<lambda>j. jMessageID j \<notin> set ?gone) (ndJobs db)"
    using assms(1) by (auto simp: DeleteChannel_def audit_Inr cascadeMessages_def messagesOf_def split: if_splits)
  then show ?thesis using jobStep.cascade [of lease limit s ?gone] assms(2) by fastforce
qed

section \<open>An example run\<close>

text \<open>A channel is created, one user subscribes with an address, and a message is sent under a key.
  The hash is the text itself.\<close>

definition exPolicy :: WebhookPolicy where
  "exPolicy = \<lparr>polAllowHTTP = False, polAllowedHosts = []\<rparr>"

definition exNet :: netEnv where
  "exNet = \<lparr>neParseURL = (\<lambda>_. None), neParseAddr = (\<lambda>_. None), neLookup = (\<lambda>_. Inl ''no'')\<rparr>"

definition exFresh :: fresh where
  "exFresh = \<lparr>frMessage = ''m1'', frChannel = ''e1'', frJob = (\<lambda>n. replicate (Suc n) CHR ''j''), frNow = 7\<rparr>"

definition exChannel :: Channel where
  "exChannel = \<lparr>chID = ''ch1'', chCompanyID = ''c'', chKey = ''ops'', chLabel = ''Ops'', chKind = ''email'', chTarget = None\<rparr>"

definition exChannelDB :: notifDB where
  "exChannelDB = emptyNotif\<lparr>ndChannels := [exChannel],
     ndAudit := [(''boss'', ''notification.channel.create'', ''notification_channel:ch1'')]\<rparr>"

definition exSubscribedDB :: notifDB where
  "exSubscribedDB = exChannelDB\<lparr>
     ndSubscriptions := [\<lparr>sbChannelID = ''ch1'', sbSubject = ''mia'', sbEmail = Some ''mia@x.io'', sbMuted = False\<rparr>],
     ndAudit := ndAudit exChannelDB @ [(''mia'', ''notification.subscription.create'', ''notification_channel:ch1'')]\<rparr>"

definition exMessage :: Message where
  "exMessage = newMessage ''m1'' ''c'' ''ch1'' ''Hello'' ''World'' ''boss'' (Some ''k1'')
     (Some (idempotencyPayloadHash (\<lambda>s. s) ''ch1'' ''Hello'' ''World''))"

definition exSentDB :: notifDB where
  "exSentDB = exSubscribedDB\<lparr>ndMessages := [exMessage], ndRecipients := [recipientRow ''m1'' ''mia''],
     ndJobs := [enqueueJob ''default'' 7 ''m1'' ''j'' (''email'', ''mia@x.io'')],
     ndAudit := ndAudit exSubscribedDB @ [(''boss'', ''notification.message.send'', ''notification_channel:ch1'')]\<rparr>"

lemma ex_create: "CreateChannel exPolicy exNet ''ch1'' ''boss'' ''c'' ''ops'' ''Ops'' ''email'' None emptyNotif = Inr (exChannel, exChannelDB)"
  by code_simp

lemma ex_subscribe: "Subscribe exChannelDB ''mia'' ''c'' ''ch1'' ''mia'' (Some ''mia@x.io'') exChannelDB = Inr exSubscribedDB"
  by code_simp

lemma ex_send:
  "SendMessage (\<lambda>s. s) ''default'' exFresh exSubscribedDB exSubscribedDB ''boss'' ''c'' ''ch1'' ''Hello'' ''World'' ''k1'' exSubscribedDB =
     Inr ((exMessage, True), exSentDB)"
  by code_simp

lemma ex_subscribed_reach: "reaches (notifStep (\<lambda>s. s)) emptyNotif exSubscribedDB"
  by (rule reaches_step [where t = exChannelDB])
     (intro reaches_one notifStep.create_channel [OF ex_create] notifStep.subscribe [OF ex_subscribe])+

lemma ex_sent_reach: "reaches (notifStep (\<lambda>s. s)) emptyNotif exSentDB"
proof (rule reaches_step [OF ex_subscribed_reach notifStep.send_message [OF ex_send]])
  show "sameChannels exSubscribedDB exSubscribedDB"
    by (simp add: sameChannels_def exSubscribedDB_def exChannelDB_def)
qed

lemma jobsOf_targets:
  "map (\<lambda>j. (jKind j, jTarget j)) (jobsOf claimGroup now jobID channel message subs) = emailJobs channel subs @ webhookJobs channel"
proof -
  have "map (\<lambda>j. (jKind j, jTarget j)) (map2 (enqueueJob claimGroup now message) ids kts) = kts" if "length ids = length kts" for ids kts
    using that by (induction ids kts rule: list_induct2) (auto simp: enqueueJob_def)
  then show ?thesis by (simp add: jobsOf_def Let_def)
qed

lemma emailJobs_eq:
  "emailJobs channel subs =
     (if chKind channel = ''email'' then map (Pair ''email'') (filter (\<lambda>e. e \<noteq> []) (List.map_filter sbEmail subs)) else [])"
  by (induction subs) (auto simp: emailJobs_def List.map_filter_def split: option.splits)

section \<open>Properties of the store\<close>

text \<open>C34. In every state that the committed operations reach, under any interleaving with the
  workers, the tables are consistent: unique ids, keys and idempotency keys, well-formed channels,
  messages in a channel of their own company with a valid subject and the hash of their payload, and
  no subscription, inbox row or job without its parent row.\<close>

theorem notification_consistent:
  "reaches (notifStep sha) emptyNotif db \<Longrightarrow> notifInv sha db"
  by (rule notif_system.reachable_inv)

theorem notification_consistent_witness: "notifInv (\<lambda>s. s) exSentDB"
  by (rule notification_consistent [OF ex_sent_reach])

text \<open>C35. A send that creates a message puts it, unread, at the end of the inbox of exactly the
  unmuted subscribers of its channel, in the message's company only, leaves every other inbox as it
  was, and queues exactly one kind of job: mails to the addresses of those subscribers for an email
  channel, or a call of the target for a webhook channel.\<close>

theorem send_reaches_subscribers:
  assumes "reaches (notifStep sha) emptyNotif db" and "GetChannel pre company channel = Inr c"
    and "SendMessage sha claimGroup fr pre look actor company channel subjectLine body key db = Inr ((m, True), db')"
  shows "(\<forall>co s. inboxRows db' co s = inboxRows db co s @ (if co = company \<and> s \<in> subscriberSet db channel then [(m, None)] else [])) \<and>
    (\<exists>jobs. ndJobs db' = ndJobs db @ jobs \<and> (\<forall>j \<in> set jobs. newJob j \<and> jMessageID j = msID m \<and> jClaimGroup j = claimGroup) \<and>
       map (\<lambda>j. (jKind j, jTarget j)) jobs =
         (if chKind c = ''email'' then map (Pair ''email'') (filter (\<lambda>e. e \<noteq> []) (List.map_filter sbEmail
              (filter (\<lambda>s. sbChannelID s = channel \<and> \<not> sbMuted s) (ndSubscriptions db))))
          else case chTarget c of None \<Rightarrow> [] | Some t \<Rightarrow> if chKind c = ''webhook'' \<and> t \<noteq> [] then [(''webhook'', t)] else []))"
  using assms(3)
proof (cases rule: SendMessage_Inr)
  case (sent channel' m')
  have inv: "notifInv sha db" by (rule notif_system.reachable_inv [OF assms(1)])
  have ch: "channel' = c" using sent(1) assms(2) by simp
  obtain db1 jobs subs where tx: "(m, True) = (m', True)" "subs = subscribersOf db (msChannelID m')"
    "jobs = jobsOf claimGroup (frNow fr) (frJob fr) c (msID m') subs"
    "db' = db1\<lparr>ndRecipients := ndRecipients db @ map (\<lambda>s. recipientRow (msID m') (sbSubject s)) subs,
       ndJobs := ndJobs db @ jobs, ndAudit := ndAudit db'\<rparr>"
    by (rule sendTx_Inr [OF sent(4) [unfolded ch]]) blast
  have m: "m = m'" using tx(1) by simp
  have jobs: "ndJobs db' = ndJobs db @ jobs" by (subst tx(4)) simp
  have "\<forall>j \<in> set jobs. newJob j \<and> jMessageID j = msID m \<and> jClaimGroup j = claimGroup"
    using jobsOf_set(1-3) unfolding tx(3) m by auto
  moreover have "map (\<lambda>j. (jKind j, jTarget j)) jobs = emailJobs c (subscribersOf db channel) @ webhookJobs c"
    unfolding tx(3) jobsOf_targets tx(2) by (simp add: sent(3))
  ultimately show ?thesis
    using sendTx_inbox [OF sent(4) inv] jobs m
    by (intro conjI exI [of _ jobs]) (auto simp: sent(3) emailJobs_eq webhookJobs_def subscribersOf_def split: option.splits)
qed (use assms in simp)

theorem send_reaches_subscribers_witness: "inboxRows exSentDB ''c'' ''mia'' = [(exMessage, None)]"
proof -
  have "GetChannel exSubscribedDB ''c'' ''ch1'' = Inr exChannel" by code_simp
  moreover have "inboxRows exSubscribedDB ''c'' ''mia'' = []" by code_simp
  moreover have "''mia'' \<in> subscriberSet exSubscribedDB ''ch1''" unfolding subscriberSet_eq by code_simp
  ultimately show ?thesis using send_reaches_subscribers [OF ex_subscribed_reach _ ex_send] by simp
qed

text \<open>C36. A targeted event answers how many recipients it reached and skipped, and reaches the named
  recipients whose membership of the company org confirmed, each with one unread copy, and nobody
  else; a failed membership lookup counts as no member. It only succeeds when no confirmed recipient
  is named twice: a repeated name makes the whole call fail as a database error.\<close>

theorem event_reaches_members:
  assumes "reaches (notifStep sha) emptyNotif db"
  shows "(\<forall>n db'. SendTargetedEvent member fr actor company sourceModule subjectLine body recipients db = Inr (n, db') \<longrightarrow>
      n = (length (confirmedOf member recipients), length recipients - length (confirmedOf member recipients)) \<and>
      (\<forall>co s. \<exists>m. msBody m = body \<and> msSubjectLine m = subjectLine \<and> inboxRows db' co s = inboxRows db co s @
         (if co = company \<and> s \<in> set recipients \<and> member s = Inr True then [(m, None)] else []))) \<and>
    (\<not> distinct (confirmedOf member recipients) \<longrightarrow> eventsSourceModulePattern sourceModule \<longrightarrow>
       validateSubjectLineAndBody subjectLine body = Inr () \<longrightarrow>
       SendTargetedEvent member fr actor company sourceModule subjectLine body recipients db = Inl NotifDatabase)"
proof (intro conjI allI impI)
  have inv: "notifInv sha db" by (rule notif_system.reachable_inv [OF assms])
  fix n db' co s
  assume sent: "SendTargetedEvent member fr actor company sourceModule subjectLine body recipients db = Inr (n, db')"
  from sent show "n = (length (confirmedOf member recipients), length recipients - length (confirmedOf member recipients))"
    by (cases rule: SendTargetedEvent_Inr) simp_all
  show "\<exists>m. msBody m = body \<and> msSubjectLine m = subjectLine \<and> inboxRows db' co s = inboxRows db co s @
      (if co = company \<and> s \<in> set recipients \<and> member s = Inr True then [(m, None)] else [])"
    by (rule event_inbox [OF sent inv])
next
  assume twice: "\<not> distinct (confirmedOf member recipients)" and ok: "eventsSourceModulePattern sourceModule"
    "validateSubjectLineAndBody subjectLine body = Inr ()"
  have "confirmedOf member recipients \<noteq> []" "recipients \<noteq> []" using twice by (auto simp: confirmedOf_def)
  then show "SendTargetedEvent member fr actor company sourceModule subjectLine body recipients db = Inl NotifDatabase"
    using twice ok by (auto simp: SendTargetedEvent_def Let_def provisionEvents_def rbind_def split: option.splits sum.splits)
qed

theorem event_reaches_members_witness:
  "SendTargetedEvent (\<lambda>s. Inr (s = ''mia'')) exFresh ''boss'' ''c'' ''docs'' ''Shared'' ''A document'' [''mia'', ''joe'', ''mia''] exSubscribedDB =
     Inl NotifDatabase"
proof -
  have "\<not> distinct (confirmedOf (\<lambda>s. Inr (s = ''mia'')) [''mia'', ''joe'', ''mia''])" "eventsSourceModulePattern ''docs''"
    "validateSubjectLineAndBody ''Shared'' ''A document'' = Inr ()" by code_simp+
  then show ?thesis using event_reaches_members [OF ex_subscribed_reach] by blast
qed

text \<open>C37. In every reachable state a send that repeats the idempotency key of a stored message of the
  channel writes nothing: it answers that message when the hashes of the payloads agree, and a
  conflict otherwise. The hashed text of another subject or body is another text.\<close>

theorem send_replay:
  assumes "reaches (notifStep sha) emptyNotif db" and "m \<in> set (ndMessages db)" and "msIdemKey m = Some key" and "nul_free key"
    and "validateSubjectLineAndBody subjectLine body = Inr ()"
  shows "SendMessage sha claimGroup fr db db actor (msCompanyID m) (msChannelID m) subjectLine body key db =
      (if sha (sendPayload (msChannelID m) subjectLine body) = sha (sendPayload (msChannelID m) (msSubjectLine m) (msBody m))
       then Inr ((m, False), db) else Inl NotifIdempotencyConflict) \<and>
    ((subjectLine, body) \<noteq> (msSubjectLine m, msBody m) \<longrightarrow>
       sendPayload (msChannelID m) subjectLine body \<noteq> sendPayload (msChannelID m) (msSubjectLine m) (msBody m))"
proof -
  have inv: "notifInv sha db" by (rule notif_system.reachable_inv [OF assms(1)])
  have ok: "messageOK sha (ndChannels db) m" using notifInvD(3) [OF inv] assms(2) by (simp add: messagesOK_def)
  obtain c where "GetChannel db (msCompanyID m) (msChannelID m) = Inr c" using GetChannel_of_message [OF ok] ..
  moreover have "key \<noteq> []" "msIdemHash m = Some (sha (sendPayload (msChannelID m) (msSubjectLine m) (msBody m)))"
    "validateSubjectLineAndBody (msSubjectLine m) (msBody m) = Inr ()"
    using ok assms(3) by (auto simp: messageOK_def idempotencyPayloadHash_def sendPayload_def)
  ultimately show ?thesis
    using assms(4,5) stored_key_found [OF inv assms(2,3)] sendPayload_inj [OF assms(5)]
    by (auto simp: SendMessage_def findByIdempotencyKey_def Let_def idempotencyPayloadHash_def sendPayload_def)
qed

theorem send_replay_witness:
  "SendMessage (\<lambda>s. s) ''default'' exFresh exSentDB exSentDB ''boss'' ''c'' ''ch1'' ''Hello'' ''Other'' ''k1'' exSentDB =
     Inl NotifIdempotencyConflict"
proof -
  have "exMessage \<in> set (ndMessages exSentDB)" by (simp add: exSentDB_def)
  moreover have "msIdemKey exMessage = Some ''k1''" "msCompanyID exMessage = ''c''" "msChannelID exMessage = ''ch1''"
    "msSubjectLine exMessage = ''Hello''" "msBody exMessage = ''World''" by (simp_all add: exMessage_def)
  moreover have "nul_free ''k1''" "validateSubjectLineAndBody ''Hello'' ''Other'' = Inr ()" by code_simp+
  ultimately show ?thesis using send_replay [OF ex_sent_reach, of exMessage "''k1''" "''Hello''" "''Other''" "''default''" exFresh "''boss''"]
    by (simp add: sendPayload_def)
qed

end
