(* ===== verification/Notification_Http.thy ===== *)
theory Notification_Http
  imports Notification_Store Module_Clients
begin

text \<open>
  The mailer (\<open>modules/notification/service/mailer.go\<close>) and the HTTP surface (\<open>http.go\<close>,
  \<open>authzclient.go\<close>, \<open>orgclient.go\<close>) of the notification module, over its store and the model of the
  authz service. The lemmas show that stored texts cannot disturb the headers of a mail, and that a
  change of the tables comes from an authorised caller.
\<close>

section \<open>Mail\<close>

definition crlf :: string where
  "crlf = [CHR 0x0D, CHR 0x0A]"

definition isBreak :: "char \<Rightarrow> bool" where
  "isBreak c \<longleftrightarrow> c = CHR 0x0D \<or> c = CHR 0x0A"

definition breakFree :: "string \<Rightarrow> bool" where
  "breakFree s \<longleftrightarrow> \<not> list_ex isBreak s"

definition messageIDOf :: "DeliveryJob \<Rightarrow> string" where
  "messageIDOf j = ''<'' @ jID j @ ''@kiban.notification>''"

definition buildMessage :: "string \<Rightarrow> DeliveryJob \<Rightarrow> string \<Rightarrow> string \<Rightarrow> string" where
  "buildMessage from j subjectLine body =
     ''From: '' @ from @ crlf @ ''To: '' @ jTarget j @ crlf @ ''Subject: '' @ subjectLine @ crlf @
     ''Message-Id: '' @ messageIDOf j @ crlf @ crlf @ body @ crlf"

text \<open>The outcome of each stage of the conversation with the mail server. \<open>net/smtp\<close> refuses a line
  break in an address before it sends the command.\<close>

record smtpServer =
  smDial :: bool
  smGreeting :: bool
  smMail :: bool
  smRcpt :: bool
  smData :: bool
  smWrite :: bool
  smClose :: bool
  smQuit :: bool

datatype mailError = SmtpDial | SmtpClient | SmtpMail | SmtpRcpt | SmtpData | SmtpWrite | SmtpClose | SmtpQuit

text \<open>The result, and the text handed to the data writer of \<open>net/smtp\<close> with the recipient of the
  envelope. The writer ends every line with CR LF and doubles a leading dot, which the server undoes;
  a failed write may have sent a part of the text only.\<close>

definition mailer_Deliver ::
  "smtpServer \<Rightarrow> string \<Rightarrow> DeliveryJob \<Rightarrow> string \<Rightarrow> string \<Rightarrow> (mailError, unit) result \<times> (string \<times> string) option" where
  "mailer_Deliver server from j subjectLine body =
     (let to = jTarget j; msg = buildMessage from j subjectLine body in
      if \<not> smDial server then (Inl SmtpDial, None)
      else if \<not> smGreeting server then (Inl SmtpClient, None)
      else if \<not> breakFree from \<or> \<not> smMail server then (Inl SmtpMail, None)
      else if \<not> breakFree to \<or> \<not> smRcpt server then (Inl SmtpRcpt, None)
      else if \<not> smData server then (Inl SmtpData, None)
      else if \<not> smWrite server then (Inl SmtpWrite, Some (to, msg))
      else if \<not> smClose server then (Inl SmtpClose, Some (to, msg))
      else if \<not> smQuit server then (Inl SmtpQuit, Some (to, msg))
      else (Inr (), Some (to, msg)))"

text \<open>A lenient reader of the header section: a line ends at CR LF, at a lone LF or at a lone CR, and
  the section at the first empty line.\<close>

definition skipLF :: "string \<Rightarrow> string" where
  "skipLF s = (case s of c # cs \<Rightarrow> if c = CHR 0x0A then cs else s | [] \<Rightarrow> s)"

fun takeLine :: "string \<Rightarrow> string \<times> string" where
  "takeLine [] = ([], [])"
| "takeLine (c # cs) =
     (if c = CHR 0x0D then ([], skipLF cs)
      else if c = CHR 0x0A then ([], cs)
      else case takeLine cs of (l, r) \<Rightarrow> (c # l, r))"

lemma skipLF_length: "length (skipLF s) \<le> length s"
  by (cases s) (simp_all add: skipLF_def)

lemma takeLine_length: "length (snd (takeLine s)) \<le> length s - 1"
proof (induction s)
  case (Cons c cs)
  obtain l r where "takeLine cs = (l, r)" by fastforce
  then show ?case using Cons skipLF_length [of cs] by auto
qed simp

lemma takeLine_shorter: "takeLine s = (l, r) \<Longrightarrow> l \<noteq> [] \<Longrightarrow> length r < length s"
  using takeLine_length [of s] by (cases s) auto

function readHeader :: "string \<Rightarrow> string list \<times> string" where
  "readHeader s = (case takeLine s of (l, r) \<Rightarrow>
     if l = [] then ([], r) else case readHeader r of (hs, body) \<Rightarrow> (l # hs, body))"
  by pat_completeness auto
termination
  by (relation "measure length") (auto dest: takeLine_shorter [OF sym])

declare readHeader.simps [simp del]

lemma takeLine_crlf: "breakFree l \<Longrightarrow> takeLine (l @ crlf @ rest) = (l, rest)"
  by (induction l) (auto simp: crlf_def breakFree_def isBreak_def skipLF_def)

lemma readHeader_line: "breakFree l \<Longrightarrow> l \<noteq> [] \<Longrightarrow>
   readHeader (l @ crlf @ rest) = (case readHeader rest of (hs, body) \<Rightarrow> (l # hs, body))"
  by (subst readHeader.simps) (simp add: takeLine_crlf)

lemma readHeader_end: "readHeader (crlf @ rest) = ([], rest)"
  using takeLine_crlf [of "[]" rest] by (subst readHeader.simps) (simp add: breakFree_def)

lemma breakFree_append [simp]: "breakFree (a @ b) \<longleftrightarrow> breakFree a \<and> breakFree b"
  by (simp add: breakFree_def)

lemma breakFree_labels:
  "breakFree ''From: ''" "breakFree ''To: ''" "breakFree ''Subject: ''" "breakFree ''Message-Id: ''" "breakFree ''<''"
  "breakFree ''@kiban.notification>''"
  by code_simp+

text \<open>Nothing but the four headers precedes the body, whatever subject, addresses and body hold.\<close>

lemma readHeader_buildMessage:
  assumes "breakFree from" "breakFree (jTarget j)" "breakFree subjectLine" "breakFree (jID j)"
  shows "readHeader (buildMessage from j subjectLine body) =
    ([''From: '' @ from, ''To: '' @ jTarget j, ''Subject: '' @ subjectLine, ''Message-Id: '' @ messageIDOf j], body @ crlf)"
proof -
  have i: "breakFree (''Message-Id: '' @ messageIDOf j)"
    using assms(4) breakFree_labels by (simp only: messageIDOf_def breakFree_append)
  have f: "breakFree (''From: '' @ from)" "breakFree (''To: '' @ jTarget j)" "breakFree (''Subject: '' @ subjectLine)"
    using assms breakFree_labels by (simp_all only: breakFree_append)
  have "buildMessage from j subjectLine body =
     (''From: '' @ from) @ crlf @ (''To: '' @ jTarget j) @ crlf @ (''Subject: '' @ subjectLine) @ crlf @
     (''Message-Id: '' @ messageIDOf j) @ crlf @ crlf @ body @ crlf"
    by (simp only: buildMessage_def append_assoc)
  then show ?thesis
    by (simp only: readHeader_line [OF f(1)] readHeader_line [OF f(2)] readHeader_line [OF f(3)] readHeader_line [OF i]
        readHeader_end prod.case append_is_Nil_conv list.distinct not_False_eq_True simp_thms)
qed

lemma subject_breakFree: "validateSubjectLineAndBody s b = Inr () \<Longrightarrow> breakFree s"
  by (auto simp: validateSubjectLineAndBody_def list_ex_iff controlChar_def breakFree_def isBreak_def split: if_splits)

lemma mailer_Deliver_sent:
  assumes "mailer_Deliver server from j subjectLine body = (res, Some (to, data))"
  shows "to = jTarget j" "data = buildMessage from j subjectLine body" "breakFree from" "breakFree (jTarget j)"
  using assms by (auto simp: mailer_Deliver_def Let_def split: if_splits)

section \<open>The environment of a request\<close>

text \<open>\<open>nvSubject\<close> is the module's token verifier, \<open>nvAuthz\<close> the environment of the authz service for
  a state of its tables, \<open>nvMember\<close> org's answer for a company and a subject, \<open>nvOrg\<close> whether the
  org client is wired. \<open>nvParseUUID\<close> and \<open>nvUUID\<close> are the UUID library. \<open>nvPre\<close> and \<open>nvLook\<close> are the
  states seen by the read of a channel before a transaction and by the lookup of an idempotency key.\<close>

record notifEnv =
  nvSubject :: "string \<Rightarrow> string option"
  nvAuthz :: "authzDB \<Rightarrow> authzEnv"
  nvDelivery :: "nat \<Rightarrow> delivery"
  nvMapOrder :: "string list \<Rightarrow> string list"
  nvMember :: "string \<Rightarrow> string \<Rightarrow> memberFacts httpResp"
  nvOrg :: bool
  nvParseUUID :: "string \<Rightarrow> string option"
  nvUUID :: "string \<Rightarrow> string"
  nvSha :: "string \<Rightarrow> string"
  nvPolicy :: WebhookPolicy
  nvNet :: netEnv
  nvClaimGroup :: string
  nvFresh :: fresh
  nvPre :: notifDB
  nvLook :: notifDB
  nvOrderChannels :: "Channel list \<Rightarrow> Channel list"
  nvOrderInbox :: "(Message \<times> int option) list \<Rightarrow> (Message \<times> int option) list"

definition notificationKey :: string where "notificationKey = ''notification''"

definition claimGroupOf :: "string \<Rightarrow> string" where
  "claimGroupOf g = (if g = [] then ''default'' else g)"

section \<open>Features and their relations\<close>

datatype notifFeature = ChannelsManage | MessagesSend | InboxView

fun notifFeatureKey :: "notifFeature \<Rightarrow> string" where
  "notifFeatureKey ChannelsManage = ''notification.channels.manage''"
| "notifFeatureKey MessagesSend = ''notification.messages.send''"
| "notifFeatureKey InboxView = ''notification.inbox.view''"

fun notifRelationLeg :: "notifFeature \<Rightarrow> string" where
  "notifRelationLeg ChannelsManage = ''admin''"
| "notifRelationLeg MessagesSend = ''admin''"
| "notifRelationLeg InboxView = []"

definition notification_Can :: "notifEnv \<Rightarrow> authzDB \<Rightarrow> string \<Rightarrow> notifFeature \<Rightarrow> string \<Rightarrow> (unit, bool) result" where
  "notification_Can env adb rawBearer feature company =
     modulekit_Can (nvDelivery env 0) (nvAuthz env adb) notificationKey rawBearer (notifFeatureKey feature) company
       (notifRelationLeg feature)"

definition GrantChannelAnchor :: "notifEnv \<Rightarrow> string \<Rightarrow> string \<Rightarrow> string \<Rightarrow> authzDB \<Rightarrow> bool \<times> authzDB" where
  "GrantChannelAnchor env rawBearer company channel adb =
     GrantOrRevoke (nvDelivery env 1) (nvMapOrder env) (\<lambda>s. nvParseUUID env s \<noteq> None) (nvAuthz env) rawBearer company ''grant''
       [AnchorTuple notificationKey ''notification_channel'' channel company] channel adb"

definition IsActiveMember :: "notifEnv \<Rightarrow> string \<Rightarrow> string \<Rightarrow> (string, bool) result" where
  "IsActiveMember env company kcSub =
     rbind (MemberByKcSub (nvMember env company kcSub)) (\<lambda>(_, isMember, isActive). Inr (isMember \<and> isActive))"

definition notif_withAuth :: "notifEnv \<Rightarrow> authzDB \<Rightarrow> notifFeature \<Rightarrow> string \<Rightarrow> string \<Rightarrow> (apiError, string) result" where
  "notif_withAuth env adb feature rawBearer company =
     (case nvSubject env (BearerFromHeader rawBearer) of
        None \<Rightarrow> Inl (401, ''AUTH_TOKEN_INVALID'')
      | Some subject \<Rightarrow>
          if company = [] then Inr subject
          else case notification_Can env adb rawBearer feature company of
            Inl _ \<Rightarrow> Inl (503, ''AUTHORIZATION_UNAVAILABLE'')
          | Inr allowed \<Rightarrow> if \<not> allowed then Inl (403, ''AUTHORIZATION_DENIED'') else Inr subject)"

interpretation notif_gate: module_gate "nvSubject env" "nvDelivery env 0" "nvAuthz env adb" notificationKey
  notifFeatureKey notifRelationLeg "notif_withAuth env adb" for env adb
proof
  show "nul_free (notifRelationLeg f)" for f
    by (cases f) (simp_all add: nul_free_def nul_def)
qed (auto simp: notif_withAuth_def notification_Can_def notificationKey_def FoundationModuleKey_def nul_free_def nul_def
    split: option.splits sum.splits if_splits)

section \<open>Parsing, errors and wire types\<close>

definition notifPathUUID :: "notifEnv \<Rightarrow> string \<Rightarrow> (apiError, string) result" where
  "notifPathUUID env raw = (case nvParseUUID env raw of None \<Rightarrow> Inl (400, ''BAD_REQUEST'') | Some i \<Rightarrow> Inr i)"

fun notif_writeStoreError :: "notifError \<Rightarrow> apiError" where
  "notif_writeStoreError (NotifValidation _) = (422, ''VALIDATION_ERROR'')"
| "notif_writeStoreError (NotifPolicy _) = (422, ''VALIDATION_FAILED'')"
| "notif_writeStoreError NotifChannelNotFound = (404, ''NOT_FOUND'')"
| "notif_writeStoreError NotifRecipientNotFound = (404, ''NOT_FOUND'')"
| "notif_writeStoreError NotifIdempotencyConflict = (409, ''IDEMPOTENCY_CONFLICT'')"
| "notif_writeStoreError NotifConflict = (409, ''CONFLICT'')"
| "notif_writeStoreError NotifDatabase = (500, ''INTERNAL_ERROR'')"

record channelWire =
  cwxID :: string
  cwxCompanyID :: string
  cwxKey :: string
  cwxLabel :: string
  cwxKind :: string
  cwxTarget :: "string option"

definition toChannelWire :: "notifEnv \<Rightarrow> Channel \<Rightarrow> channelWire" where
  "toChannelWire env c = \<lparr>cwxID = nvUUID env (chID c), cwxCompanyID = nvUUID env (chCompanyID c), cwxKey = chKey c,
     cwxLabel = chLabel c, cwxKind = chKind c, cwxTarget = chTarget c\<rparr>"

record messageWire =
  mwID :: string
  mwCompanyID :: string
  mwChannelID :: string
  mwSubjectLine :: string
  mwBody :: string
  mwCreatedBy :: string
  mwReadAt :: "int option"

definition toMessageWire :: "notifEnv \<Rightarrow> Message \<times> int option \<Rightarrow> messageWire" where
  "toMessageWire env m = \<lparr>mwID = nvUUID env (msID (fst m)), mwCompanyID = nvUUID env (msCompanyID (fst m)),
     mwChannelID = nvUUID env (msChannelID (fst m)), mwSubjectLine = msSubjectLine (fst m), mwBody = msBody (fst m),
     mwCreatedBy = msCreatedBy (fst m), mwReadAt = snd m\<rparr>"

datatype notifBody =
    NbChannel channelWire
  | NbChannels "channelWire Page"
  | NbMessage messageWire
  | NbMessages "messageWire Page"
  | NbSubscribed
  | NbEvent nat nat
  | NbNothing

section \<open>Handlers\<close>

text \<open>A handler answers an error envelope or a status with a body, and leaves the tables of the module
  and of authz. An error can follow a commit.\<close>

datatype notifReply = NotifRefused apiError | NotifReplied nat notifBody

type_synonym notifHandled = "notifReply \<times> notifDB \<times> authzDB"

definition notifStoreCall :: "(notifError, 'a) result \<Rightarrow> (apiError, 'a) result" where
  "notifStoreCall r = (case r of Inl e \<Rightarrow> Inl (notif_writeStoreError e) | Inr v \<Rightarrow> Inr v)"

definition answer :: "notifDB \<Rightarrow> authzDB \<Rightarrow> (apiError, (nat \<times> notifBody) \<times> notifDB) result \<Rightarrow> notifHandled" where
  "answer db adb r = (case r of Inl e \<Rightarrow> (NotifRefused e, db, adb) | Inr ((status, body), db') \<Rightarrow> (NotifReplied status body, db', adb))"

record createChannelRequest =
  ccKey :: string
  ccLabel :: string
  ccKind :: string
  ccTarget :: "string option"

definition handleCreateChannel ::
  "notifEnv \<Rightarrow> notifDB \<Rightarrow> authzDB \<Rightarrow> string \<Rightarrow> string \<Rightarrow> string \<Rightarrow> createChannelRequest option \<Rightarrow> notifHandled" where
  "handleCreateChannel env db adb subject raw company body =
     (case rbind (notifPathUUID env company) (\<lambda>c.
           rbind (decodeBody body) (\<lambda>req.
           rbind (notifStoreCall (CreateChannel (nvPolicy env) (nvNet env) (frChannel (nvFresh env)) subject c (ccKey req)
             (ccLabel req) (ccKind req) (ccTarget req) db)) (\<lambda>r. Inr (c, r)))) of
        Inl e \<Rightarrow> (NotifRefused e, db, adb)
      | Inr (c, ch, db') \<Rightarrow>
          (case GrantChannelAnchor env raw (nvUUID env c) (nvUUID env (chID ch)) adb of
             (ok, adb') \<Rightarrow>
               if ok then (NotifReplied 201 (NbChannel (toChannelWire env ch)), db', adb')
               else (NotifRefused (503, ''AUTHORIZATION_UNAVAILABLE''), db', adb')))"

definition handleListChannels :: "notifEnv \<Rightarrow> notifDB \<Rightarrow> authzDB \<Rightarrow> string \<Rightarrow> string \<Rightarrow> string \<Rightarrow> notifHandled" where
  "handleListChannels env db adb company rawPage rawSize =
     answer db adb (rbind (notifPathUUID env company) (\<lambda>c.
       let (page, pageSize) = PageParams rawPage rawSize in
       rbind (notifStoreCall (ListChannels (nvOrderChannels env) db c page pageSize)) (\<lambda>(items, count).
       Inr ((200, NbChannels (WritePage items count page pageSize (toChannelWire env))), db))))"

definition handleGetChannel :: "notifEnv \<Rightarrow> notifDB \<Rightarrow> authzDB \<Rightarrow> string \<Rightarrow> string \<Rightarrow> notifHandled" where
  "handleGetChannel env db adb company channel =
     answer db adb (rbind (notifPathUUID env company) (\<lambda>c.
       rbind (notifPathUUID env channel) (\<lambda>ch.
       rbind (notifStoreCall (GetChannel db c ch)) (\<lambda>x. Inr ((200, NbChannel (toChannelWire env x)), db)))))"

definition handleDeleteChannel :: "notifEnv \<Rightarrow> notifDB \<Rightarrow> authzDB \<Rightarrow> string \<Rightarrow> string \<Rightarrow> string \<Rightarrow> notifHandled" where
  "handleDeleteChannel env db adb subject company channel =
     answer db adb (rbind (notifPathUUID env company) (\<lambda>c.
       rbind (notifPathUUID env channel) (\<lambda>ch.
       rbind (notifStoreCall (DeleteChannel subject c ch db)) (\<lambda>db'. Inr ((204, NbNothing), db')))))"

text \<open>\<open>None\<close> is a request without a body, which needs no decoding.\<close>

definition handleSubscribe ::
  "notifEnv \<Rightarrow> notifDB \<Rightarrow> authzDB \<Rightarrow> string \<Rightarrow> string \<Rightarrow> string \<Rightarrow> string option option option \<Rightarrow> notifHandled" where
  "handleSubscribe env db adb subject company channel body =
     answer db adb (rbind (notifPathUUID env company) (\<lambda>c.
       rbind (notifPathUUID env channel) (\<lambda>ch.
       rbind (case body of None \<Rightarrow> Inr None | Some b \<Rightarrow> decodeBody b) (\<lambda>email.
       rbind (notifStoreCall (Subscribe (nvPre env) subject c ch subject email db)) (\<lambda>db'. Inr ((201, NbSubscribed), db'))))))"

definition handleUnsubscribe :: "notifEnv \<Rightarrow> notifDB \<Rightarrow> authzDB \<Rightarrow> string \<Rightarrow> string \<Rightarrow> string \<Rightarrow> notifHandled" where
  "handleUnsubscribe env db adb subject company channel =
     answer db adb (rbind (notifPathUUID env company) (\<lambda>c.
       rbind (notifPathUUID env channel) (\<lambda>ch.
       rbind (notifStoreCall (Unsubscribe (nvPre env) subject c ch subject db)) (\<lambda>db'. Inr ((204, NbNothing), db')))))"

record sendMessageRequest =
  smChannelID :: string
  smSubjectLine :: string
  smBody :: string

definition handleSendMessage ::
  "notifEnv \<Rightarrow> notifDB \<Rightarrow> authzDB \<Rightarrow> string \<Rightarrow> string \<Rightarrow> sendMessageRequest option \<Rightarrow> string \<Rightarrow> notifHandled" where
  "handleSendMessage env db adb subject company body idempotencyKey =
     answer db adb (rbind (notifPathUUID env company) (\<lambda>c.
       rbind (decodeBody body) (\<lambda>req.
       rbind (notifPathUUID env (smChannelID req)) (\<lambda>ch.
       if 200 < length idempotencyKey then Inl (400, ''BAD_REQUEST'')
       else rbind (notifStoreCall (SendMessage (nvSha env) (claimGroupOf (nvClaimGroup env)) (nvFresh env) (nvPre env) (nvLook env)
           subject c ch (smSubjectLine req) (smBody req) idempotencyKey db)) (\<lambda>((m, created), db').
         Inr ((if created then 201 else 200, NbMessage (toMessageWire env (m, None))), db'))))))"

definition handleListInbox :: "notifEnv \<Rightarrow> notifDB \<Rightarrow> authzDB \<Rightarrow> string \<Rightarrow> string \<Rightarrow> string \<Rightarrow> string \<Rightarrow> notifHandled" where
  "handleListInbox env db adb subject company rawPage rawSize =
     answer db adb (rbind (notifPathUUID env company) (\<lambda>c.
       let (page, pageSize) = PageParams rawPage rawSize in
       rbind (notifStoreCall (ListInbox (nvOrderInbox env) db c subject page pageSize)) (\<lambda>(items, count).
       Inr ((200, NbMessages (WritePage items count page pageSize (toMessageWire env))), db))))"

definition handleMarkRead :: "notifEnv \<Rightarrow> notifDB \<Rightarrow> authzDB \<Rightarrow> string \<Rightarrow> string \<Rightarrow> string \<Rightarrow> notifHandled" where
  "handleMarkRead env db adb subject company message =
     answer db adb (rbind (notifPathUUID env company) (\<lambda>c.
       rbind (notifPathUUID env message) (\<lambda>i.
       rbind (notifStoreCall (MarkRead (frNow (nvFresh env)) subject c i subject db)) (\<lambda>(m, db').
       Inr ((200, NbMessage (toMessageWire env m)), db')))))"

record sendEventRequest =
  seRecipientKcSubs :: "string list"
  seSubjectLine :: string
  seBody :: string
  seSourceModule :: string

text \<open>The event endpoint checks the bearer itself, after the company of the path, and asks authz with
  the canonical text of the company.\<close>

definition handleSendEvent ::
  "notifEnv \<Rightarrow> notifDB \<Rightarrow> authzDB \<Rightarrow> string \<Rightarrow> string \<Rightarrow> sendEventRequest option \<Rightarrow> notifHandled" where
  "handleSendEvent env db adb raw company body =
     answer db adb (rbind (notifPathUUID env company) (\<lambda>c.
       case nvSubject env (BearerFromHeader raw) of
         None \<Rightarrow> Inl (401, ''AUTH_TOKEN_INVALID'')
       | Some subject \<Rightarrow>
           (case notification_Can env adb raw InboxView (nvUUID env c) of
              Inl _ \<Rightarrow> Inl (503, ''AUTHORIZATION_UNAVAILABLE'')
            | Inr allowed \<Rightarrow>
                if \<not> allowed then Inl (403, ''AUTHORIZATION_DENIED'')
                else rbind (decodeBody body) (\<lambda>req.
                  if \<not> nvOrg env then Inl (503, ''INTERNAL_ERROR'')
                  else rbind (notifStoreCall (SendTargetedEvent (IsActiveMember env (nvUUID env c)) (nvFresh env) subject c
                      (seSourceModule req) (seSubjectLine req) (seBody req) (seRecipientKcSubs req) db)) (\<lambda>((sent, skipped), db').
                    Inr ((200, NbEvent sent skipped), db'))))))"

section \<open>Routes\<close>

datatype notifRequest =
    ListChannelsReq string string
  | CreateChannelReq "createChannelRequest option"
  | GetChannelReq string
  | DeleteChannelReq string
  | SubscribeReq string "string option option option"
  | UnsubscribeReq string
  | ListInboxReq string string
  | SendMessageReq "sendMessageRequest option" string
  | MarkReadReq string
  | SendEventReq "sendEventRequest option"

fun notifRouteFeature :: "notifRequest \<Rightarrow> notifFeature" where
  "notifRouteFeature (CreateChannelReq _) = ChannelsManage"
| "notifRouteFeature (DeleteChannelReq _) = ChannelsManage"
| "notifRouteFeature (SendMessageReq _ _) = MessagesSend"
| "notifRouteFeature (ListChannelsReq _ _) = InboxView"
| "notifRouteFeature (GetChannelReq _) = InboxView"
| "notifRouteFeature (SubscribeReq _ _) = InboxView"
| "notifRouteFeature (UnsubscribeReq _) = InboxView"
| "notifRouteFeature (ListInboxReq _ _) = InboxView"
| "notifRouteFeature (MarkReadReq _) = InboxView"
| "notifRouteFeature (SendEventReq _) = InboxView"

fun notifDispatch ::
  "notifEnv \<Rightarrow> notifDB \<Rightarrow> authzDB \<Rightarrow> string \<Rightarrow> string \<Rightarrow> string \<Rightarrow> notifRequest \<Rightarrow> notifHandled" where
  "notifDispatch env db adb sub raw c (ListChannelsReq page sz) = handleListChannels env db adb c page sz"
| "notifDispatch env db adb sub raw c (CreateChannelReq body) = handleCreateChannel env db adb sub raw c body"
| "notifDispatch env db adb sub raw c (GetChannelReq ch) = handleGetChannel env db adb c ch"
| "notifDispatch env db adb sub raw c (DeleteChannelReq ch) = handleDeleteChannel env db adb sub c ch"
| "notifDispatch env db adb sub raw c (SubscribeReq ch body) = handleSubscribe env db adb sub c ch body"
| "notifDispatch env db adb sub raw c (UnsubscribeReq ch) = handleUnsubscribe env db adb sub c ch"
| "notifDispatch env db adb sub raw c (ListInboxReq page sz) = handleListInbox env db adb sub c page sz"
| "notifDispatch env db adb sub raw c (SendMessageReq body key) = handleSendMessage env db adb sub c body key"
| "notifDispatch env db adb sub raw c (MarkReadReq i) = handleMarkRead env db adb sub c i"
| "notifDispatch env db adb sub raw c (SendEventReq body) = handleSendEvent env db adb raw c body"

text \<open>One request: every route but the event endpoint goes through the gate.\<close>

definition notifServe ::
  "notifEnv \<Rightarrow> string \<Rightarrow> string \<Rightarrow> notifRequest \<Rightarrow> notifDB \<times> authzDB \<Rightarrow> notifHandled" where
  "notifServe env raw company req st = (case st of (db, adb) \<Rightarrow>
     (case req of
        SendEventReq body \<Rightarrow> handleSendEvent env db adb raw company body
      | _ \<Rightarrow>
          (case notif_withAuth env adb (notifRouteFeature req) raw company of
             Inl err \<Rightarrow> (NotifRefused err, db, adb)
           | Inr subject \<Rightarrow> notifDispatch env db adb subject raw company req)))"

section \<open>Requests and the store\<close>

lemma notifStoreCall_Inr [simp]: "notifStoreCall r = Inr v \<longleftrightarrow> r = Inr v"
  by (auto simp: notifStoreCall_def split: sum.splits)

lemma notifStoreCall_ok [simp]: "notifStoreCall (Inr v) = Inr v"
  by simp

lemma answer_change:
  "answer db adb r = (rp, db', adb') \<Longrightarrow> db' \<noteq> db \<Longrightarrow> \<exists>sb. r = Inr (sb, db')"
  by (auto simp: answer_def split: sum.splits)

lemma answer_authz: "answer db adb r = (rp, db', adb') \<Longrightarrow> adb' = adb"
  by (auto simp: answer_def split: sum.splits)

text \<open>The store operation behind a request that changes the tables, for the subject of its bearer.\<close>

inductive notifOp :: "notifEnv \<Rightarrow> notifDB \<Rightarrow> string \<Rightarrow> string \<Rightarrow> notifRequest \<Rightarrow> notifDB \<Rightarrow> bool" for env db sub c where
  "CreateChannel (nvPolicy env) (nvNet env) newID sub c (ccKey req) (ccLabel req) (ccKind req) (ccTarget req) db = Inr (ch, db') \<Longrightarrow>
     notifOp env db sub c (CreateChannelReq (Some req)) db'"
| "nvParseUUID env i = Some ch \<Longrightarrow> DeleteChannel sub c ch db = Inr db' \<Longrightarrow> notifOp env db sub c (DeleteChannelReq i) db'"
| "Subscribe (nvPre env) sub c ch sub email db = Inr db' \<Longrightarrow> notifOp env db sub c (SubscribeReq i body) db'"
| "Unsubscribe (nvPre env) sub c ch sub db = Inr db' \<Longrightarrow> notifOp env db sub c (UnsubscribeReq i) db'"
| "SendMessage (nvSha env) (claimGroupOf (nvClaimGroup env)) (nvFresh env) (nvPre env) (nvLook env) sub c ch (smSubjectLine req)
     (smBody req) key db = Inr (r, db') \<Longrightarrow> notifOp env db sub c (SendMessageReq (Some req) key) db'"
| "MarkRead now sub c j sub db = Inr (r, db') \<Longrightarrow> notifOp env db sub c (MarkReadReq i) db'"
| "SendTargetedEvent (IsActiveMember env (nvUUID env c)) (nvFresh env) sub c (seSourceModule req) (seSubjectLine req) (seBody req)
     (seRecipientKcSubs req) db = Inr (n, db') \<Longrightarrow> notifOp env db sub c (SendEventReq (Some req)) db'"

lemma notifPathUUID_Inr: "notifPathUUID env raw = Inr c \<longleftrightarrow> nvParseUUID env raw = Some c"
  by (auto simp: notifPathUUID_def split: option.splits)

lemmas handler_simps = rbind_Inr_iff notifPathUUID_Inr

lemma handleCreateChannel_op:
  assumes "handleCreateChannel env db adb sub raw company body = (rp, db', adb')" and "db' \<noteq> db"
  shows "\<exists>c. nvParseUUID env company = Some c \<and> notifOp env db sub c (CreateChannelReq body) db'"
  using assms by (auto simp: handleCreateChannel_def handler_simps split: sum.splits prod.splits if_splits intro!: notifOp.intros(1))

lemma notifDispatch_op:
  assumes "notifDispatch env db adb sub raw company req = (rp, db', adb')" and "db' \<noteq> db" and "\<nexists>body. req = SendEventReq body"
  shows "\<exists>c. nvParseUUID env company = Some c \<and> notifOp env db sub c req db'"
proof (cases req)
  case (CreateChannelReq body)
  then show ?thesis using assms(1,2) by (simp add: handleCreateChannel_op)
next
  case (DeleteChannelReq i)
  then show ?thesis using assms(1,2)
    by (auto simp: handleDeleteChannel_def handler_simps dest!: answer_change) (blast intro: notifOp.intros(2))
next
  case (SubscribeReq i body)
  then show ?thesis using assms(1,2)
    by (auto simp: handleSubscribe_def handler_simps dest!: answer_change) (blast intro: notifOp.intros(3))
next
  case (UnsubscribeReq i)
  then show ?thesis using assms(1,2)
    by (auto simp: handleUnsubscribe_def handler_simps dest!: answer_change) (blast intro: notifOp.intros(4))
next
  case (SendMessageReq body key)
  then show ?thesis using assms(1,2)
    by (auto simp: handleSendMessage_def handler_simps dest!: answer_change split: if_splits) (blast intro: notifOp.intros(5))+
next
  case (MarkReadReq i)
  then show ?thesis using assms(1,2)
    by (auto simp: handleMarkRead_def handler_simps dest!: answer_change) (blast intro: notifOp.intros(6))
qed (use assms in \<open>auto simp: handleListChannels_def handleGetChannel_def handleListInbox_def handler_simps Let_def split_beta
      dest!: answer_change\<close>)

lemma handleSendEvent_op:
  assumes "handleSendEvent env db adb raw company body = (rp, db', adb')" and "db' \<noteq> db"
  shows "\<exists>c sub. nvParseUUID env company = Some c \<and> nvSubject env (BearerFromHeader raw) = Some sub \<and>
    notification_Can env adb raw InboxView (nvUUID env c) = Inr True \<and> notifOp env db sub c (SendEventReq body) db'"
proof -
  obtain c where c: "nvParseUUID env company = Some c"
    using assms by (auto simp: handleSendEvent_def handler_simps dest!: answer_change)
  obtain sub where sub: "nvSubject env (BearerFromHeader raw) = Some sub"
    using assms c by (auto simp: handleSendEvent_def handler_simps dest!: answer_change split: option.splits)
  have can: "notification_Can env adb raw InboxView (nvUUID env c) = Inr True"
    using assms c sub by (auto simp: handleSendEvent_def handler_simps dest!: answer_change split: sum.splits if_splits)
  then have "\<exists>req n. body = Some req \<and> SendTargetedEvent (IsActiveMember env (nvUUID env c)) (nvFresh env) sub c (seSourceModule req)
      (seSubjectLine req) (seBody req) (seRecipientKcSubs req) db = Inr (n, db')"
    using assms c sub by (auto simp: handleSendEvent_def handler_simps dest!: answer_change split: if_splits)
  then show ?thesis using c sub can by (blast intro: notifOp.intros(7))
qed

text \<open>A change of the tables is the operation of a request whose caller passed the gate.\<close>

lemma notifServe_op:
  assumes "notifServe env raw company req (db, adb) = (rp, db', adb')" and "db' \<noteq> db"
  obtains (gated) c sub where "nvParseUUID env company = Some c" "notif_withAuth env adb (notifRouteFeature req) raw company = Inr sub"
      "notifOp env db sub c req db'" "\<nexists>body. req = SendEventReq body"
  | (event) c sub body where "nvParseUUID env company = Some c" "req = SendEventReq body" "nvSubject env (BearerFromHeader raw) = Some sub"
      "notification_Can env adb raw InboxView (nvUUID env c) = Inr True" "notifOp env db sub c req db'"
proof (cases "\<exists>body. req = SendEventReq body")
  case True
  then obtain body where req: "req = SendEventReq body" by blast
  then have "handleSendEvent env db adb raw company body = (rp, db', adb')" using assms(1) by (simp add: notifServe_def)
  then obtain c sub where "nvParseUUID env company = Some c" "nvSubject env (BearerFromHeader raw) = Some sub"
    "notification_Can env adb raw InboxView (nvUUID env c) = Inr True" "notifOp env db sub c (SendEventReq body) db'"
    using handleSendEvent_op assms(2) by meson
  then show thesis using event req by simp
next
  case False
  then obtain sub where sub: "notif_withAuth env adb (notifRouteFeature req) raw company = Inr sub"
    "notifDispatch env db adb sub raw company req = (rp, db', adb')"
    using assms by (cases req) (auto simp: notifServe_def split: sum.splits)
  obtain c where "nvParseUUID env company = Some c" "notifOp env db sub c req db'"
    using notifDispatch_op [OF sub(2) assms(2) False] by auto
  then show thesis using sub(1) False gated by simp
qed

lemma notifOp_step:
  assumes "notifOp env db sub c req db'" and "sameChannels (nvPre env) db"
  shows "notifStep (nvSha env) db db'"
  using assms by (cases rule: notifOp.cases) (blast intro: notifStep.intros)+

section \<open>Properties\<close>

text \<open>C38. Whatever is handed to the data writer for a job, in any reachable state and whatever the
  server answers, goes to the job's target and reads as exactly four headers before the body: sender,
  recipient, the subject of the message and the id of the job. No stored subject and no address of a
  subscriber adds a header or moves the body, even for a reader that takes lone line breaks as ends of
  lines.\<close>

theorem mail_headers_intact:
  assumes "reaches (notifStep sha) emptyNotif db" and "m \<in> set (ndMessages db)" and "breakFree (jID j)"
    and "mailer_Deliver server from j (msSubjectLine m) (msBody m) = (res, Some (to, data))"
  shows "to = jTarget j \<and> readHeader data = ([''From: '' @ from, ''To: '' @ jTarget j, ''Subject: '' @ msSubjectLine m,
      ''Message-Id: <'' @ jID j @ ''@kiban.notification>''], msBody m @ crlf)"
proof -
  have "notifInv sha db" by (rule notif_system.reachable_inv [OF assms(1)])
  then have "breakFree (msSubjectLine m)"
    using subject_breakFree assms(2) by (auto simp: notifInv_def messagesOK_def messageOK_def)
  then show ?thesis
    using mailer_Deliver_sent [OF assms(4)] readHeader_buildMessage [OF _ _ _ assms(3)] by (simp add: messageIDOf_def)
qed

theorem mail_headers_intact_witness:
  "readHeader (buildMessage ''no-reply@x.io'' (enqueueJob ''default'' 7 ''m1'' ''j'' (''email'', ''mia@x.io'')) ''Hello'' ''World'') =
    ([''From: no-reply@x.io'', ''To: mia@x.io'', ''Subject: Hello'', ''Message-Id: <j@kiban.notification>''], ''World'' @ crlf)"
proof -
  let ?j = "enqueueJob ''default'' 7 ''m1'' ''j'' (''email'', ''mia@x.io'')"
  let ?srv = "\<lparr>smDial = True, smGreeting = True, smMail = True, smRcpt = True, smData = True, smWrite = True, smClose = True, smQuit = False\<rparr>"
  have m: "exMessage \<in> set (ndMessages exSentDB)" "msSubjectLine exMessage = ''Hello''" "msBody exMessage = ''World''"
    by (simp_all add: exSentDB_def exMessage_def)
  have "mailer_Deliver ?srv ''no-reply@x.io'' ?j ''Hello'' ''World'' =
      (Inl SmtpQuit, Some (''mia@x.io'', buildMessage ''no-reply@x.io'' ?j ''Hello'' ''World''))" by code_simp
  moreover have "breakFree (jID ?j)" "jTarget ?j = ''mia@x.io''" "jID ?j = ''j''" by code_simp+
  ultimately show ?thesis using mail_headers_intact [OF ex_sent_reach m(1), of ?j ?srv] by (simp add: m)
qed

text \<open>What a request of a plain member may touch: the subject's own subscriptions and inbox.\<close>

definition othersKept :: "notifDB \<Rightarrow> notifDB \<Rightarrow> string \<Rightarrow> bool" where
  "othersKept db db' sub \<longleftrightarrow> ndChannels db' = ndChannels db \<and> ndMessages db' = ndMessages db \<and> ndJobs db' = ndJobs db \<and>
     filter (\<lambda>s. sbSubject s \<noteq> sub) (ndSubscriptions db') = filter (\<lambda>s. sbSubject s \<noteq> sub) (ndSubscriptions db) \<and>
     filter (\<lambda>r. rsSubject r \<noteq> sub) (ndRecipients db') = filter (\<lambda>r. rsSubject r \<noteq> sub) (ndRecipients db)"

lemma filter_map_same: "(\<And>x. P (f x) = P x) \<Longrightarrow> (\<And>x. P x \<Longrightarrow> f x = x) \<Longrightarrow> filter P (map f xs) = filter P xs"
  by (induction xs) simp_all

lemma upsert_others:
  "filter (\<lambda>s. sbSubject s \<noteq> sub) (upsertSubscription channel sub email ss) = filter (\<lambda>s. sbSubject s \<noteq> sub) ss"
  by (auto simp: upsertSubscription_def subscribed_def split: if_splits intro!: filter_map_same)

lemma Subscribe_others: "Subscribe pre sub c ch sub email db = Inr db' \<Longrightarrow> othersKept db db' sub"
  by (auto simp: Subscribe_def rbind_Inr_iff audit_Inr othersKept_def upsert_others split: if_splits)

lemma Unsubscribe_others: "Unsubscribe pre sub c ch sub db = Inr db' \<Longrightarrow> othersKept db db' sub"
  by (auto simp: Unsubscribe_def rbind_Inr_iff audit_Inr othersKept_def subscribed_def split: if_splits intro!: filter_cong)

lemma MarkRead_others: "MarkRead now sub c i sub db = Inr (r, db') \<Longrightarrow> othersKept db db' sub"
  by (drule MarkRead_Inr(1), erule ssubst) (auto simp: othersKept_def markRow_def split: if_splits intro!: filter_map_same)

definition ownOnly :: "notifRequest \<Rightarrow> bool" where
  "ownOnly req \<longleftrightarrow> (case req of SubscribeReq _ _ \<Rightarrow> True | UnsubscribeReq _ \<Rightarrow> True | MarkReadReq _ \<Rightarrow> True | _ \<Rightarrow> False)"

lemma notifOp_own: "notifOp env db sub c req db' \<Longrightarrow> ownOnly req \<Longrightarrow> othersKept db db' sub"
  by (cases rule: notifOp.cases) (auto simp: ownOnly_def dest: Subscribe_others Unsubscribe_others MarkRead_others)

text \<open>C39. A request that changes the notification tables comes from a valid bearer of an active member of
  the company, whom authz moreover granted the module's admin relation for every route but
  subscriptions, read marks and targeted events; and a subscription or read mark changes no row of
  another subject.\<close>

theorem notification_write_authorised:
  assumes "notifServe env raw company req (db, adb) = (rp, db', adb')" and "db' \<noteq> db"
    and "authzSound (nvSubject env) (nvAuthz env adb) R" and "company \<noteq> []" "nul_free company"
    and "\<And>c. nul_free (nvUUID env c)"
  shows "\<exists>sub c. nvParseUUID env company = Some c \<and>
    moduleAccess (nvSubject env) (nvAuthz env adb) ''notification'' R raw
      (if \<exists>b. req = SendEventReq b then nvUUID env c else company) (notifRelationLeg (notifRouteFeature req)) sub \<and>
    (ownOnly req \<longrightarrow> othersKept db db' sub)"
  using assms(1,2)
proof (cases rule: notifServe_op)
  case (gated c sub)
  then show ?thesis
    using gated notif_gate.gate_means [OF gated(2) assms(4,3,5)] notifOp_own [OF gated(3)] by (auto simp: notificationKey_def)
next
  case (event c sub body)
  have "moduleAccess (nvSubject env) (nvAuthz env adb) notificationKey R raw (nvUUID env c) [] sub"
    using modulekit_Can_means [OF event(4) [unfolded notification_Can_def] event(3) assms(3,6)] notif_gate.key_proper
    by (simp add: nul_free_def)
  then show ?thesis using event by (auto simp: notificationKey_def ownOnly_def)
qed

text \<open>An example environment: tokens are subjects, ids are their own text.\<close>

definition exNotifEnv :: "notifDB \<Rightarrow> notifEnv" where
  "exNotifEnv db = \<lparr>nvSubject = exVerify, nvAuthz = exModuleAuthz ''notification'', nvDelivery = (\<lambda>_. Delivered), nvMapOrder = (\<lambda>xs. xs),
     nvMember = (\<lambda>c s. HttpStatus 200 (Some \<lparr>mfIsMember = True, mfIsActive = True, mfMemberID = Some ''m''\<rparr>)), nvOrg = True,
     nvParseUUID = Some, nvUUID = filter (\<lambda>c. c \<noteq> nul), nvSha = (\<lambda>s. s), nvPolicy = exPolicy, nvNet = exNet, nvClaimGroup = [],
     nvFresh = exFresh, nvPre = db, nvLook = db, nvOrderChannels = (\<lambda>xs. xs), nvOrderInbox = (\<lambda>xs. xs)\<rparr>"

lemma exMia_auth: "notif_withAuth (exNotifEnv db) emptyDB InboxView ''Bearer mia'' ''c'' = Inr ''mia''"
proof -
  have "modulekit_Can Delivered (exModuleAuthz ''notification'' emptyDB) ''notification'' ''Bearer mia'' ''notification.inbox.view'' ''c'' [] = Inr True"
    by (rule modulekit_Can_allowed [where c = "\<lparr>clSubject = ''mia'', clClientID = []\<rparr>"]; code_simp)
  moreover have "exVerify (BearerFromHeader ''Bearer mia'') = Some ''mia''" by code_simp
  ultimately show ?thesis by (simp add: notif_withAuth_def notification_Can_def notificationKey_def exNotifEnv_def)
qed

theorem notification_write_authorised_witness:
  "\<exists>sub. moduleAccess exVerify (exModuleAuthz ''notification'' emptyDB) ''notification'' (rowsOf (storeRows emptyDB)) ''Bearer mia'' ''c'' [] sub \<and>
     othersKept exChannelDB exSubscribedDB sub"
proof -
  let ?env = "exNotifEnv exChannelDB" and ?req = "SubscribeReq ''ch1'' (Some (Some (Some ''mia@x.io'')))"
  have sound: "authzSound (nvSubject ?env) (nvAuthz ?env emptyDB) (rowsOf (storeRows emptyDB))"
    using exModuleAuthz_sound [of emptyDB]
    by (simp add: exNotifEnv_def nulFreeRows_rowsOf storeRows_def emptyDB_def)
  have "notifServe ?env ''Bearer mia'' ''c'' ?req (exChannelDB, emptyDB) = (NotifReplied 201 NbSubscribed, exSubscribedDB, emptyDB)"
    using exMia_auth [of exChannelDB] ex_subscribe
    by (simp add: notifServe_def handleSubscribe_def notifPathUUID_def exNotifEnv_def decodeBody_def answer_def)
  moreover have "exSubscribedDB \<noteq> exChannelDB" by (simp add: exSubscribedDB_def exChannelDB_def emptyNotif_def)
  moreover have "nul_free ''c''" by code_simp
  moreover have "nul_free (nvUUID ?env x)" for x by (simp add: exNotifEnv_def nul_free_def)
  ultimately show ?thesis
    using notification_write_authorised [of ?env "''Bearer mia''" "''c''" ?req exChannelDB emptyDB _ exSubscribedDB emptyDB] sound
    by (fastforce simp: exNotifEnv_def ownOnly_def)
qed

end
