(* ===== verification/Spec2Isabelle.thy ===== *)
theory Spec2Isabelle
  imports Timesheet_Http Notification_Http
begin

text \<open>
  A verification library for Kiban, a platform of Go services: an authorization service that decides
  every access, and business modules that ask it before they act. The theories follow the code from
  the relation engine up to whole requests.

  \<^bold>\<open>The parts and how they interact.\<close> A module receives a request with a bearer token, verifies it and
  asks authz whether the bearer may use a feature in a company. Authz decides in ordered steps from
  facts of identity, org and registry, and from relation tuples evaluated by its engine against a
  model merged from module fragments. Modules also write tuples through the grants endpoint of authz.
  The timesheet module keeps entries and weekly submissions; the notification module delivers jobs in
  the background.

  \<^bold>\<open>Theories and sources.\<close>
  \<^item> \<open>Kiban_Prelude\<close>: results, Go maps, strings and JSON values. \<open>Kiban_Systems\<close>: reachability and the
    contract of an invariant (locale \<open>invariant_system\<close>).
  \<^item> \<open>Engine_Model\<close>, \<open>Engine_Base\<close>, \<open>Engine_Eval\<close>, \<open>Engine_Spec\<close>, \<open>Engine_Total\<close>, \<open>Engine_Batch\<close>
    (\<open>src/internal/authz/engine\<close>): models, evaluation as a program over row fetches and a memo, the least
    fixpoint it computes, and batches of concurrent workers as a step relation.
  \<^item> \<open>Fragment_Load\<close> (\<open>fragment\<close>), \<open>Tuple_Store\<close> (\<open>store\<close>), \<open>Decision_Core\<close> (\<open>decision\<close>), \<open>Authz_Service\<close> and
    \<open>Authz_Grants\<close> (\<open>http.go\<close>, \<open>clients.go\<close>, \<open>summary.go\<close>, \<open>platform_role.go\<close>), all under \<open>src/internal/authz\<close>.
  \<^item> \<open>Modulekit\<close> (\<open>src/modulekit\<close>): header parsing, paging in 64-bit integers (locale \<open>paged\<close>), bearer
    verification. \<open>Civil_Date\<close>: the date format of package \<open>time\<close>.
  \<^item> \<open>Timesheet_Store\<close>, \<open>Timesheet_Workflow\<close>, \<open>Timesheet_Http\<close> (\<open>src/modules/timesheet/service\<close>): the tables,
    the workflow as a step relation, and requests answered together with the model of authz.
  \<^item> \<open>Webhook_Policy\<close>, \<open>Notification_Jobs\<close>, \<open>Notification_Runs\<close> (\<open>webhook_policy.go\<close>, \<open>webhook.go\<close> and
    \<open>worker.go\<close> of \<open>src/modules/notification/service\<close>): address classes on machine words, the pinned sender,
    leased jobs and the interleavings of their workers.

  \<^bold>\<open>State, errors, effects.\<close> A table is a list of records, a Go error the left side of a sum, a handler a
  function from the tables to a response and the tables. A transaction is one step; values read before
  it come from a possibly older state that is an argument. Concurrency is a step relation whose runs are
  all interleavings. What the code obtains from elsewhere is a parameter: tokens and keys, DNS, URL, address
  and UUID parsers, hashes, the order of rows that SQL leaves open, generated identifiers.

  \<^bold>\<open>What the lemmas show.\<close> The engine answers the least fixpoint of its model and fails closed otherwise;
  batches agree with single checks under every schedule. Grants change exactly the tuples they name and only
  for an authorized caller, and a superadmin always remains. A timesheet request that changes a table was
  allowed by authz for the relation of its route; decisions are final; a rejected week can be submitted
  again. Delivery leases exclude other workers, finished jobs are final and queues can be drained. The webhook
  sender contacts only addresses outside the blocks that its policy tests for, two of which a literal with a
  zone evades. Some theorems exhibit runs in which the code departs from its comments.

  \<^bold>\<open>Bounds.\<close> The engine cuts evaluation at \<open>MaxDepth\<close>; totality is shown for graphs of at most one more
  node than that. Paging is exact while offsets stay below \<open>2 ^ 63\<close>. Draining assumes attempt counters within 32 bits.
  No definition uses fuel beyond the depth limit of the code.

  \<^bold>\<open>Not modelled.\<close> The org, identity and registry services over generated SQL bindings, whose answers are
  parameters; the gateway, installation, validation tools and SDK, which are proxies and scripts around other
  programs; the docs and helpdesk modules and the channels and inbox of the notification module; SMTP; metrics,
  logging, timestamps in responses and message texts.
\<close>

section \<open>Properties that span components\<close>

text \<open>C26. A timesheet write is authorised end to end. When a request changes the module's tables,
  the bearer is valid for the module, and the authz service, whose verifier reads the same subject
  from the token, reported for that subject an active and enabled user, an active company with the
  subject as an active member, the timesheet module enabled and, for every route but the member's
  own entries, that the tuple table grants the subject the route's relation on the company's
  timesheet module. An approval or rejection moreover comes from the approver assigned to a current,
  undecided submission of that id.\<close>

theorem timesheet_write_authorised:
  assumes "tsServe env raw company req (db, adb) = (r, db', adb')" and "db' \<noteq> db" and "company \<noteq> []"
    and "\<And>tok sub c. tsSubject env tok = Some sub \<Longrightarrow> VerifyClaims (tsAuthz env adb) tok = Some c \<Longrightarrow> clSubject c = sub"
    and "nulFreeRows R" "\<And>ot oi rel. answers R ot oi rel (envTuples (tsAuthz env adb) ot oi rel)"
    and "\<And>l. effectiveEngine (tsAuthz env adb) = Inr l \<Longrightarrow> nulFreeModel (lModel l)" and "nul_free company"
  shows "\<exists>sub. timesheetAccess env adb R raw company (routeFeature req) sub \<and>
    (\<forall>i. decides req i \<longrightarrow> (\<exists>s \<in> set (tsSubmissions db). tsParseUUID env i = Some (sID s) \<and> sApproverKcSub s = sub \<and>
       sCurrent s \<and> sStatus s = ''submitted''))"
  using assms(1)
proof (cases rule: tsServe_cases)
  case (served sub status body)
  have "timesheetAccess env adb R raw company (routeFeature req) sub"
    by (rule withAuth_means [OF served(1)]) (fact assms)+
  then show ?thesis using dispatch_decides [OF served(2)] by blast
qed (use assms(2) in auto)

theorem timesheet_write_authorised_witness:
  "granted (rowsOf (storeRows exAuthzDB)) (lModel exLoaded) (''user'', ''boss'') ''c'' {}
     (''company_module'', ''c/timesheet'', ''approver'')"
proof -
  let ?env = "exTsEnv exTwoSubmitted"
  have diff: "exApproved \<noteq> exTwoSubmitted" by (simp add: exApproved_def exTwoSubmitted_def exState_def)
  have agree: "clSubject c = sub" if "tsSubject ?env tok = Some sub" "VerifyClaims (tsAuthz ?env exAuthzDB) tok = Some c" for tok sub c
    using that by (auto simp: exTsEnv_def VerifyClaims_def exAuthz_def exModuleAuthz_def exEnv_def split: if_splits)
  have db: "answers (rowsOf (storeRows exAuthzDB)) ot oi rel (envTuples (tsAuthz ?env exAuthzDB) ot oi rel)" for ot oi rel
    by (simp add: exTsEnv_def exAuthz_def exModuleAuthz_def exEnv_def tableDB_answers)
  have eff: "effectiveEngine (tsAuthz ?env exAuthzDB) = Inr exLoaded"
    using exAuthz_effective by (simp add: exTsEnv_def)
  have nf: "nulFreeModel (lModel l)" if "effectiveEngine (tsAuthz ?env exAuthzDB) = Inr l" for l
    using that exService_nulFree(2) eff by simp
  have "tsSubject ?env (BearerFromHeader ''Bearer boss'') = Some ''boss''" by code_simp
  then show ?thesis
    using timesheet_write_authorised [OF ex_serve diff _ agree exAuthz_nulFree db nf] eff
    by (auto simp: timesheetAccess_def moduleAccess_def nul_free_def nul_def)
qed

end
